(* ===== verification/Prelude.thy ===== *)
theory Prelude
  imports Main "HOL-Library.AList"
begin

text \<open>
  What every component shares: results that may be an error, the insertion-ordered
  JavaScript \<open>Map\<close> as an association list together with the contract its clients rely
  on (the locale \<open>keyed_store\<close>), sliding time windows (the locale
  \<open>sliding_window\<close>), and state machines with an inductive invariant (the locale
  \<open>guarded_system\<close>).

  Numbers: ids, counts and millisecond timestamps of the source are JavaScript numbers
  that stay far below 2^53, so they are \<open>int\<close> or \<open>nat\<close> here.
\<close>

named_theorems result_simps \<open>evaluation of results\<close>

subsection \<open>Results\<close>

type_synonym ms = int

text \<open>An awaited call that may throw: \<open>Inl\<close> the error, \<open>Inr\<close> the value.\<close>

fun rbind :: "'e + 'a \<Rightarrow> ('a \<Rightarrow> 'e + 'b) \<Rightarrow> 'e + 'b" where
  "rbind (Inl e) f = Inl e"
| "rbind (Inr a) f = f a"

definition is_ok :: "'e + 'a \<Rightarrow> bool" where
  "is_ok r = (case r of Inl _ \<Rightarrow> False | Inr _ \<Rightarrow> True)"

lemma is_ok_simps [simp, result_simps]: "is_ok (Inl e) = False" "is_ok (Inr a) = True"
  by (simp_all add: is_ok_def)

lemma is_ok_if [simp]: "is_ok (if b then x else y) = (if b then is_ok x else is_ok y)"
  by simp

lemma rbind_ok [result_simps]: "rbind r f = Inr b \<longleftrightarrow> (\<exists>a. r = Inr a \<and> f a = Inr b)"
  by (cases r) auto

lemma is_ok_rbind [result_simps]: "is_ok (rbind r f) \<longleftrightarrow> (\<exists>a. r = Inr a \<and> is_ok (f a))"
  by (cases r) auto

subsection \<open>Lists\<close>

lemma find_None_filter: "List.find P xs = None \<longleftrightarrow> filter P xs = []"
  by (induction xs) auto

lemma find_Some_mem: "List.find P xs = Some x \<Longrightarrow> x \<in> set xs \<and> P x"
  by (induction xs) (auto split: if_splits)

lemma find_not_None: "List.find P xs \<noteq> None \<longleftrightarrow> (\<exists>x \<in> set xs. P x)"
  by (induction xs) auto

lemma find_unique_key:
  assumes "distinct (map k xs)" and "x \<in> set xs"
  shows "List.find (\<lambda>y. k y = k x) xs = Some x"
  using assms by (induction xs) (auto simp: image_iff)

lemma find_key_iff:
  assumes "distinct (map k xs)"
  shows "List.find (\<lambda>y. k y = i) xs = Some x \<longleftrightarrow> x \<in> set xs \<and> k x = i"
  using assms find_unique_key [OF assms, of x] by (auto dest: find_Some_mem)

lemma find_append:
  "List.find P (xs @ ys) = (case List.find P xs of None \<Rightarrow> List.find P ys | Some x \<Rightarrow> Some x)"
  by (induction xs) auto

lemma foldl_pick_mem:
  assumes "\<And>a b. f a b = a \<or> f a b = b"
  shows "foldl f a xs \<in> insert a (set xs)"
  using assms by (induction xs arbitrary: a) (auto, metis)

text \<open>\<open>[...new Set(xs)]\<close>: the first occurrence of each element, in order.\<close>

definition js_unique :: "'a list \<Rightarrow> 'a list" where
  "js_unique xs = rev (remdups (rev xs))"

lemma set_js_unique [simp]: "set (js_unique xs) = set xs"
  by (simp add: js_unique_def)

lemma distinct_js_unique [simp]: "distinct (js_unique xs)"
  by (simp add: js_unique_def)

subsection \<open>The insertion-ordered \<open>Map\<close>\<close>

text \<open>
  \<open>Map.get\<close>, \<open>Map.set\<close> and \<open>Map.delete\<close>: a set of a present key updates it in place,
  a set of a new key appends it, iteration is in that order. These are \<open>map_of\<close>,
  \<open>AList.update\<close> and \<open>AList.delete\<close> of the library. The locale states what a client of
  such a store may rely on.
\<close>

locale keyed_store =
  fixes get :: "'m \<Rightarrow> 'k \<Rightarrow> 'v option"
    and put :: "'k \<Rightarrow> 'v \<Rightarrow> 'm \<Rightarrow> 'm"
    and del :: "'k \<Rightarrow> 'm \<Rightarrow> 'm"
    and empty :: 'm
    and invar :: "'m \<Rightarrow> bool"
  assumes get_empty: "get empty k = None"
    and get_put: "get (put k v m) k' = (if k' = k then Some v else get m k')"
    and get_del: "get (del k m) k' = (if k' = k then None else get m k')"
    and invar_empty: "invar empty"
    and invar_put: "invar m \<Longrightarrow> invar (put k v m)"
    and invar_del: "invar m \<Longrightarrow> invar (del k m)"
begin

lemma get_put_same: "get (put k v m) k = Some v"
  by (simp add: get_put)

lemma get_put_other: "k' \<noteq> k \<Longrightarrow> get (put k v m) k' = get m k'"
  by (simp add: get_put)

lemma put_put_get: "get (put k v (put k w m)) k' = get (put k v m) k'"
  by (simp add: get_put)

lemma put_comm_get: "k \<noteq> l \<Longrightarrow> get (put k v (put l w m)) i = get (put l w (put k v m)) i"
  by (simp add: get_put)

lemma del_put_get: "get (del k (put k v m)) i = get (del k m) i"
  by (simp add: get_put get_del)

lemma del_absent_get: "get m k = None \<Longrightarrow> get (del k m) i = get m i"
  by (simp add: get_del)

text \<open>Registering a key only where it is absent keeps every other entry.\<close>

lemma put_fresh_preserves: "get m k = None \<Longrightarrow> get m i = Some w \<Longrightarrow> get (put k v m) i = Some w"
  by (auto simp: get_put)

end

definition map_ok :: "('k \<times> 'v) list \<Rightarrow> bool" where
  "map_ok m \<longleftrightarrow> distinct (map fst m)"

interpretation jsmap: keyed_store "map_of :: ('k \<times> 'v) list \<Rightarrow> 'k \<Rightarrow> 'v option"
  AList.update AList.delete "[]" map_ok
proof (unfold_locales, goal_cases)
  case (2 k v m k')
  show ?case by (simp add: AList.update_conv')
next
  case (3 k m k')
  show ?case by (simp add: AList.delete_conv')
next
  case (5 m k v)
  then show ?case by (simp add: map_ok_def AList.distinct_update)
next
  case (6 m k)
  then show ?case by (simp add: map_ok_def AList.distinct_delete)
qed (simp_all add: map_ok_def)

lemmas map_of_js [simp] = jsmap.get_put jsmap.get_del
lemmas map_ok_js [simp, intro] = jsmap.invar_empty jsmap.invar_put jsmap.invar_del

lemma map_of_filter_key: "map_of (filter (\<lambda>(k, v). P k) m) k = (if P k then map_of m k else None)"
  by (induction m) auto

lemma map_ok_filter [simp, intro]: "map_ok m \<Longrightarrow> map_ok (filter P m)"
  by (simp add: map_ok_def distinct_map_filter)

lemma map_ok_map_of: "map_ok m \<Longrightarrow> (k, v) \<in> set m \<Longrightarrow> map_of m k = Some v"
  by (simp add: map_ok_def)

lemma map_of_filter_entry:
  "map_ok m \<Longrightarrow> map_of (filter (\<lambda>(k, v). P k v) m) k =
     (case map_of m k of None \<Rightarrow> None | Some v \<Rightarrow> if P k v then Some v else None)"
proof (induction m)
  case (Cons a m)
  obtain k' v where a: "a = (k', v)" by (cases a)
  have none: "map_of m k' = None" and ok: "map_ok m"
    using Cons.prems by (auto simp: a map_ok_def map_of_eq_None_iff)
  show ?case
  proof (cases "k = k'")
    case True then show ?thesis using Cons.IH [OF ok] none by (simp add: a)
  next
    case False then show ?thesis using Cons.IH [OF ok] by (auto simp: a split: option.split)
  qed
qed simp

lemma map_ok_map_snd: "map_ok (map (\<lambda>(k, v). (k, f k v)) m) = map_ok m"
  by (simp add: map_ok_def comp_def case_prod_unfold)

lemma map_of_map_entry: "map_of (map (\<lambda>(k, v). (k, f k v)) m) k = map_option (f k) (map_of m k)"
  by (induction m) auto

subsection \<open>Text\<close>

text \<open>Template literals: a number in decimal, and \<open>Array.join\<close>.\<close>

fun nat_text :: "nat \<Rightarrow> string" where
  "nat_text n = (if n < 10 then [char_of (48 + n)] else nat_text (n div 10) @ [char_of (48 + n mod 10)])"

declare nat_text.simps [simp del]

fun js_join :: "string \<Rightarrow> string list \<Rightarrow> string" where
  "js_join sep [] = []"
| "js_join sep [x] = x"
| "js_join sep (x # y # xs) = x @ sep @ js_join sep (y # xs)"

text \<open>\<open>startsWith\<close>.\<close>

definition starts_with :: "string \<Rightarrow> string \<Rightarrow> bool" where
  "starts_with name prefix \<longleftrightarrow> take (length prefix) name = prefix"

lemma starts_with_prefix [simp]: "starts_with (p @ n) p"
  by (simp add: starts_with_def)

definition quoted :: "string \<Rightarrow> string" where
  "quoted s = [CHR 0x22] @ s @ [CHR 0x22]"

subsection \<open>Sliding windows\<close>

text \<open>
  Several components keep the timestamps of recent events and drop those that left a
  window: the login lockout, the rejection backstop of the rate limiter, the restart
  limiter, the autoscaler. What they share: pruning keeps exactly the live entries, and an
  entry that is no longer live never becomes live again.
\<close>

locale sliding_window =
  fixes prune :: "ms \<Rightarrow> 'e list \<Rightarrow> 'e list"
    and stamp :: "'e \<Rightarrow> ms"
    and live :: "ms \<Rightarrow> ms \<Rightarrow> bool"
    and invar :: "'e list \<Rightarrow> bool"
  assumes prune_eq: "invar xs \<Longrightarrow> prune now xs = filter (\<lambda>e. live now (stamp e)) xs"
    and live_antimono: "live now' t \<Longrightarrow> now \<le> now' \<Longrightarrow> live now t"
    and invar_filter: "invar xs \<Longrightarrow> invar (filter P xs)"
begin

lemma prune_live: "invar xs \<Longrightarrow> e \<in> set (prune now xs) \<Longrightarrow> live now (stamp e)"
  by (simp add: prune_eq)

lemma prune_subset: "invar xs \<Longrightarrow> set (prune now xs) \<subseteq> set xs"
  by (auto simp: prune_eq)

lemma prune_length: "invar xs \<Longrightarrow> length (prune now xs) \<le> length xs"
  by (simp add: prune_eq)

lemma invar_prune: "invar xs \<Longrightarrow> invar (prune now xs)"
  by (simp add: prune_eq invar_filter)

lemma prune_idem: "invar xs \<Longrightarrow> prune now (prune now xs) = prune now xs"
  by (simp add: prune_eq invar_filter)

text \<open>Pruning early is invisible to a later prune.\<close>

lemma prune_later:
  assumes "invar xs" and "now \<le> now'"
  shows "prune now' (prune now xs) = prune now' xs"
proof -
  have "filter (\<lambda>e. live now' (stamp e)) (filter (\<lambda>e. live now (stamp e)) xs)
    = filter (\<lambda>e. live now' (stamp e)) xs"
    using assms(2) by (auto simp: conj_commute intro!: filter_cong dest: live_antimono)
  then show ?thesis using assms(1) by (simp add: prune_eq invar_filter)
qed

lemma prune_all_dead: "invar xs \<Longrightarrow> (\<And>e. e \<in> set xs \<Longrightarrow> \<not> live now (stamp e)) \<Longrightarrow> prune now xs = []"
  by (simp add: prune_eq)

end

subsection \<open>Invariants of state machines\<close>

locale guarded_system =
  fixes init :: "'s \<Rightarrow> bool"
    and step :: "'s \<Rightarrow> 's \<Rightarrow> bool"
    and inv :: "'s \<Rightarrow> bool"
  assumes init_inv: "init s \<Longrightarrow> inv s"
    and step_inv: "step s t \<Longrightarrow> inv s \<Longrightarrow> inv t"
begin

lemma steps_inv: "step\<^sup>*\<^sup>* s t \<Longrightarrow> inv s \<Longrightarrow> inv t"
  by (induction rule: rtranclp_induct) (auto intro: step_inv)

lemma reachable_inv: "init s \<Longrightarrow> step\<^sup>*\<^sup>* s t \<Longrightarrow> inv t"
  using steps_inv init_inv by blast

end

end
