(* ===== verification/AccessModel.thy ===== *)
theory AccessModel
  imports Prelude "HOL-Library.Option_ord"
begin

text \<open>
  The tables and the callers the authorization choke-point reads
  (\<open>apps/server/src/lib/resourceAccess.ts\<close>, \<open>errors.ts\<close>, \<open>packages/db/src/schema.ts\<close>):
  typed HTTP errors, the workspace role hierarchy, the rows, and the membership helpers.

  A table is the list of its rows; \<open>findFirst\<close> is \<open>List.find\<close>, \<open>findMany\<close> is
  \<open>filter\<close>. Every helper runs against one snapshot of the tables (\<open>panel_db\<close>).
\<close>

subsection \<open>Errors\<close>

record http_error =
  statusCode :: nat
  errCode :: string
  errMessage :: string

type_synonym 'a outcome = "http_error + 'a"

definition badRequest :: "string \<Rightarrow> string \<Rightarrow> http_error" where
  "badRequest message c = \<lparr>statusCode = 400, errCode = c, errMessage = message\<rparr>"

definition unauthorized :: "string \<Rightarrow> string \<Rightarrow> http_error" where
  "unauthorized message c = \<lparr>statusCode = 401, errCode = c, errMessage = message\<rparr>"

definition forbidden :: "string \<Rightarrow> http_error" where
  "forbidden message = \<lparr>statusCode = 403, errCode = ''forbidden'', errMessage = message\<rparr>"

definition notFound :: "string \<Rightarrow> http_error" where
  "notFound message = \<lparr>statusCode = 404, errCode = ''not_found'', errMessage = message\<rparr>"

definition conflict :: "string \<Rightarrow> http_error" where
  "conflict message = \<lparr>statusCode = 409, errCode = ''conflict'', errMessage = message\<rparr>"

definition unprocessable :: "string \<Rightarrow> string \<Rightarrow> http_error" where
  "unprocessable message c = \<lparr>statusCode = 422, errCode = c, errMessage = message\<rparr>"

lemmas error_defs = badRequest_def unauthorized_def forbidden_def notFound_def conflict_def
  unprocessable_def

text \<open>
  \<open>parseId\<close>: canonical decimal, no sign, no leading zero, at most
  \<open>Number.MAX_SAFE_INTEGER\<close>.
\<close>

definition is_digit :: "char \<Rightarrow> bool" where
  "is_digit c \<longleftrightarrow> 48 \<le> (of_char c :: nat) \<and> (of_char c :: nat) \<le> 57"

definition digit_val :: "char \<Rightarrow> nat" where
  "digit_val c = (of_char c :: nat) - 48"

definition decimal_value :: "string \<Rightarrow> nat" where
  "decimal_value s = foldl (\<lambda>n c. 10 * n + digit_val c) 0 s"

definition max_safe_integer :: nat where
  "max_safe_integer = 9007199254740991"

definition parseId :: "string \<Rightarrow> string \<Rightarrow> nat outcome" where
  "parseId value message =
     (if value = [] \<or> \<not> is_digit (hd value) \<or> hd value = CHR ''0'' \<or> \<not> list_all is_digit value
      then Inl (badRequest message ''invalid_id'')
      else let n = decimal_value value in
        if max_safe_integer < n then Inl (badRequest message ''invalid_id'') else Inr n)"

subsection \<open>Roles\<close>

datatype workspace_role = Viewer | Member | Admin | Owner

fun role_rank :: "workspace_role \<Rightarrow> nat" where
  "role_rank Viewer = 0"
| "role_rank Member = 1"
| "role_rank Admin = 2"
| "role_rank Owner = 3"

lemma role_rank_inj [simp]: "role_rank a = role_rank b \<longleftrightarrow> a = b"
  by (cases a; cases b) auto

instantiation workspace_role :: linorder
begin

definition less_eq_workspace_role :: "workspace_role \<Rightarrow> workspace_role \<Rightarrow> bool" where
  "a \<le> b \<longleftrightarrow> role_rank a \<le> role_rank b"

definition less_workspace_role :: "workspace_role \<Rightarrow> workspace_role \<Rightarrow> bool" where
  "a < b \<longleftrightarrow> role_rank a < role_rank b"

instance
  by standard (auto simp: less_eq_workspace_role_def less_workspace_role_def)

end

lemma role_bounds [simp]: "Viewer \<le> r" "r \<le> Owner"
  by (cases r; simp add: less_eq_workspace_role_def)+

definition roleAtLeast :: "workspace_role \<Rightarrow> workspace_role \<Rightarrow> bool" where
  "roleAtLeast actual required \<longleftrightarrow> role_rank actual \<ge> role_rank required"

lemma roleAtLeast_le: "roleAtLeast actual required \<longleftrightarrow> required \<le> actual"
  by (simp add: roleAtLeast_def less_eq_workspace_role_def)

fun role_name :: "workspace_role \<Rightarrow> string" where
  "role_name Viewer = ''viewer''"
| "role_name Member = ''member''"
| "role_name Admin = ''admin''"
| "role_name Owner = ''owner''"

text \<open>The role column of a grant is text; only these three names count.\<close>

datatype grant_role = GViewer | GMember | GAdmin

fun seat_role_of_grant :: "grant_role \<Rightarrow> workspace_role" where
  "seat_role_of_grant GViewer = Viewer"
| "seat_role_of_grant GMember = Member"
| "seat_role_of_grant GAdmin = Admin"

definition grant_rank :: "grant_role \<Rightarrow> nat" where
  "grant_rank r = role_rank (seat_role_of_grant r)"

definition grant_role_of_text :: "string \<Rightarrow> grant_role option" where
  "grant_role_of_text s =
     (if s = ''viewer'' then Some GViewer else if s = ''member'' then Some GMember
      else if s = ''admin'' then Some GAdmin else None)"

subsection \<open>Rows\<close>

record user_row =
  usr_id :: int
  usr_operator :: bool
  usr_deactivated :: "ms option"
  usr_deactivated_by :: "int option"

record member_row =
  mem_workspace :: int
  mem_user :: int
  mem_role :: workspace_role

record service_row =
  svc_id :: int
  svc_owner :: "int option"
  svc_environment :: "int option"
  svc_preview_parent :: "int option"
  svc_from_fork :: bool
  svc_type :: string
  svc_docker_socket :: bool
  svc_server :: "int option"

record project_row =
  prj_id :: int
  prj_workspace :: "int option"

record database_row =
  dbs_id :: int
  dbs_owner :: "int option"
  dbs_project :: "int option"

record environment_row =
  env_id :: int
  env_workspace :: int
  env_name :: string
  env_protected :: bool
  env_require_approval :: bool

record grant_row =
  grt_id :: int
  grt_workspace :: int
  grt_user :: int
  grt_project :: "int option"
  grt_environment :: "int option"
  grt_role :: string
  grt_suspended :: "ms option"
  grt_updated :: ms

record panel_db =
  users :: "user_row list"
  members :: "member_row list"
  services :: "service_row list"
  projects :: "project_row list"
  databases :: "database_row list"
  environments :: "environment_row list"
  service_workspaces :: "(int \<times> int) list"
  service_projects :: "(int \<times> int) list"
  access_grants :: "grant_row list"
  workspaces :: "int list"

text \<open>
  What the schema and the API keep of the tables: primary keys, the unique index on
  (workspace, user) of the memberships, and a grant naming a project or an environment
  (the zod contract of the grant API; the schema comment at \<open>accessGrants\<close> states it).
\<close>

definition wf_db :: "panel_db \<Rightarrow> bool" where
  "wf_db db \<longleftrightarrow>
     distinct (map usr_id (users db)) \<and> distinct (map svc_id (services db)) \<and>
     distinct (map prj_id (projects db)) \<and> distinct (map dbs_id (databases db)) \<and>
     distinct (map env_id (environments db)) \<and> distinct (map grt_id (access_grants db)) \<and>
     distinct (map (\<lambda>m. (mem_workspace m, mem_user m)) (members db)) \<and>
     (\<forall>g \<in> set (access_grants db). grt_project g \<noteq> None \<or> grt_environment g \<noteq> None)"

lemma wf_dbD:
  assumes "wf_db db"
  shows "distinct (map usr_id (users db))" "distinct (map svc_id (services db))"
    "distinct (map prj_id (projects db))" "distinct (map dbs_id (databases db))"
    "distinct (map env_id (environments db))" "distinct (map grt_id (access_grants db))"
    "distinct (map (\<lambda>m. (mem_workspace m, mem_user m)) (members db))"
    "\<And>g. g \<in> set (access_grants db) \<Longrightarrow> grt_project g \<noteq> None \<or> grt_environment g \<noteq> None"
  using assms by (auto simp: wf_db_def)

definition find_user :: "panel_db \<Rightarrow> int \<Rightarrow> user_row option" where
  "find_user db i = List.find (\<lambda>r. usr_id r = i) (users db)"

definition find_service :: "panel_db \<Rightarrow> int \<Rightarrow> service_row option" where
  "find_service db i = List.find (\<lambda>r. svc_id r = i) (services db)"

definition find_project :: "panel_db \<Rightarrow> int \<Rightarrow> project_row option" where
  "find_project db i = List.find (\<lambda>r. prj_id r = i) (projects db)"

definition find_database :: "panel_db \<Rightarrow> int \<Rightarrow> database_row option" where
  "find_database db i = List.find (\<lambda>r. dbs_id r = i) (databases db)"

definition find_environment :: "panel_db \<Rightarrow> int \<Rightarrow> environment_row option" where
  "find_environment db i = List.find (\<lambda>r. env_id r = i) (environments db)"

lemmas find_row_defs = find_user_def find_service_def find_project_def find_database_def
  find_environment_def

lemma find_row_iff:
  assumes "wf_db db"
  shows "find_user db i = Some u \<longleftrightarrow> u \<in> set (users db) \<and> usr_id u = i"
    and "find_service db i = Some s \<longleftrightarrow> s \<in> set (services db) \<and> svc_id s = i"
    and "find_project db i = Some p \<longleftrightarrow> p \<in> set (projects db) \<and> prj_id p = i"
    and "find_database db i = Some d \<longleftrightarrow> d \<in> set (databases db) \<and> dbs_id d = i"
    and "find_environment db i = Some e \<longleftrightarrow> e \<in> set (environments db) \<and> env_id e = i"
  using wf_dbD [OF assms] by (simp_all add: find_row_defs find_key_iff)

lemma find_row_grants [simp]:
  "find_user (db\<lparr>access_grants := gs\<rparr>) i = find_user db i"
  "find_service (db\<lparr>access_grants := gs\<rparr>) i = find_service db i"
  "find_project (db\<lparr>access_grants := gs\<rparr>) i = find_project db i"
  "find_database (db\<lparr>access_grants := gs\<rparr>) i = find_database db i"
  "find_environment (db\<lparr>access_grants := gs\<rparr>) i = find_environment db i"
  by (simp_all add: find_row_defs)

subsection \<open>Callers and memberships\<close>

record authed_user =
  au_id :: int
  au_operator :: bool

type_synonym membership = "int \<times> workspace_role"

definition userWorkspaceMemberships :: "panel_db \<Rightarrow> int \<Rightarrow> membership list" where
  "userWorkspaceMemberships db userId =
     map (\<lambda>r. (mem_workspace r, mem_role r)) (filter (\<lambda>r. mem_user r = userId) (members db))"

definition userWorkspaceIds :: "panel_db \<Rightarrow> int \<Rightarrow> int list" where
  "userWorkspaceIds db userId = map fst (userWorkspaceMemberships db userId)"

definition find_seat :: "panel_db \<Rightarrow> int \<Rightarrow> int \<Rightarrow> member_row option" where
  "find_seat db workspaceId userId =
     List.find (\<lambda>r. mem_workspace r = workspaceId \<and> mem_user r = userId) (members db)"

definition isWorkspaceMember :: "panel_db \<Rightarrow> int \<Rightarrow> int \<Rightarrow> bool" where
  "isWorkspaceMember db workspaceId userId \<longleftrightarrow> find_seat db workspaceId userId \<noteq> None"

definition assertWorkspaceMember :: "panel_db \<Rightarrow> int \<Rightarrow> authed_user \<Rightarrow> unit outcome" where
  "assertWorkspaceMember db workspaceId user =
     (if isWorkspaceMember db workspaceId (au_id user) then Inr ()
      else Inl (forbidden ''You do not have access to this workspace''))"

definition assertWorkspaceRole ::
  "panel_db \<Rightarrow> int \<Rightarrow> authed_user \<Rightarrow> workspace_role list \<Rightarrow> unit outcome" where
  "assertWorkspaceRole db workspaceId user requiredList =
     (if au_operator user then Inr ()
      else case find_seat db workspaceId (au_id user) of
        None \<Rightarrow> Inl (forbidden ''Insufficient role for this workspace'')
      | Some m \<Rightarrow>
          if \<not> list_ex (\<lambda>r. roleAtLeast (mem_role m) r) requiredList
          then Inl (forbidden ''Insufficient role for this workspace'') else Inr ())"

definition maxRole :: "membership list \<Rightarrow> workspace_role option" where
  "maxRole ms =
     (if ms = [] then None
      else Some (foldl (\<lambda>best m. if role_rank (snd m) > role_rank best then snd m else best)
        Viewer ms))"

definition isOperator :: "panel_db \<Rightarrow> int \<Rightarrow> bool" where
  "isOperator db userId =
     (case find_user db userId of
        None \<Rightarrow> False
      | Some row \<Rightarrow> usr_operator row \<and> usr_deactivated row = None)"

definition serviceWorkspaceIds :: "panel_db \<Rightarrow> int \<Rightarrow> int list" where
  "serviceWorkspaceIds db serviceId =
     map snd (filter (\<lambda>r. fst r = serviceId) (service_workspaces db))"

lemma isWorkspaceMember_iff:
  "isWorkspaceMember db w u \<longleftrightarrow> (\<exists>m \<in> set (members db). mem_workspace m = w \<and> mem_user m = u)"
  unfolding isWorkspaceMember_def find_seat_def find_not_None by blast

lemma userWorkspaceIds_iff: "w \<in> set (userWorkspaceIds db u) \<longleftrightarrow> isWorkspaceMember db w u"
  by (auto simp: userWorkspaceIds_def userWorkspaceMemberships_def isWorkspaceMember_iff)

lemma set_serviceWorkspaceIds: "set (serviceWorkspaceIds db s) = {w. (s, w) \<in> set (service_workspaces db)}"
  by (force simp: serviceWorkspaceIds_def)

lemma serviceWorkspaceIds_Nil:
  "serviceWorkspaceIds db s = [] \<longleftrightarrow> (\<forall>w. (s, w) \<notin> set (service_workspaces db))"
  using set_serviceWorkspaceIds [of db s] by (metis empty_iff mem_Collect_eq set_empty all_not_in_conv)

lemma maxRole_fold:
  "foldl (\<lambda>best m. if role_rank (snd m) > role_rank best then snd m else best) b ms
    = Max (insert b (snd ` set ms))"
proof (induction ms arbitrary: b)
  case (Cons m ms)
  have "(if role_rank (snd m) > role_rank b then snd m else b) = max b (snd m)"
    by (simp add: max_def less_eq_workspace_role_def)
  moreover have "Max (insert (max b (snd m)) (snd ` set ms)) = Max (insert b (insert (snd m) (snd ` set ms)))"
    by (cases "ms = []") (simp_all add: max.assoc)
  ultimately show ?case using Cons [of "max b (snd m)"] by simp
qed simp

lemma maxRole_None [simp]: "maxRole ms = None \<longleftrightarrow> ms = []"
  by (simp add: maxRole_def)

lemma maxRole_eq: "ms \<noteq> [] \<Longrightarrow> maxRole ms = Some (Max (snd ` set ms))"
  by (simp add: maxRole_def maxRole_fold max_absorb2)

lemma maxRole_mem:
  assumes "maxRole ms = Some r"
  shows "r \<in> snd ` set ms"
proof -
  have "ms \<noteq> []" using assms by (auto simp: maxRole_def)
  then have "r = Max (snd ` set ms)" and "snd ` set ms \<noteq> {}"
    using assms maxRole_eq by auto
  then show ?thesis using Max_in [of "snd ` set ms"] by simp
qed

lemma maxRole_upper: "maxRole ms = Some r \<Longrightarrow> m \<in> set ms \<Longrightarrow> snd m \<le> r"
  using maxRole_eq [of ms] by (cases "ms = []") auto

end
