(* ===== verification/AccessGrants.thy ===== *)
theory AccessGrants
  imports AccessModel
begin

text \<open>
  Project- and environment-level grants (\<open>apps/server/src/lib/accessGrants.ts\<close>, the
  resolvers): which grants of a user count, what a grant covers, the highest grant role on a
  service, and the enumeration of every covered service. The two last ones are computed by
  different queries in the code; \<open>servicesCoveredByGrants_iff\<close> proves that they agree.
\<close>

subsection \<open>Grants that count\<close>

record active_grant =
  ag_id :: int
  ag_workspace :: int
  ag_project :: "int option"
  ag_environment :: "int option"
  ag_role :: grant_role

definition higherGrantRole :: "grant_role option \<Rightarrow> grant_role option \<Rightarrow> grant_role option" where
  "higherGrantRole a b =
     (case a of None \<Rightarrow> b
      | Some x \<Rightarrow> (case b of None \<Rightarrow> a
                 | Some y \<Rightarrow> if grant_rank x \<ge> grant_rank y then a else b))"

definition maxOf :: "active_grant list \<Rightarrow> grant_role option" where
  "maxOf grants = foldl (\<lambda>best g. higherGrantRole best (Some (ag_role g))) None grants"

definition grant_counts :: "panel_db \<Rightarrow> int \<Rightarrow> grant_row \<Rightarrow> bool" where
  "grant_counts db userId g \<longleftrightarrow>
     grt_user g = userId \<and> grt_suspended g = None \<and>
     (case find_user db (grt_user g) of None \<Rightarrow> False | Some u \<Rightarrow> usr_deactivated u = None) \<and>
     (case grt_project g of None \<Rightarrow> True
      | Some p \<Rightarrow> (case find_project db p of None \<Rightarrow> False
                  | Some r \<Rightarrow> prj_workspace r = Some (grt_workspace g))) \<and>
     (case grt_environment g of None \<Rightarrow> True
      | Some e \<Rightarrow> (case find_environment db e of None \<Rightarrow> False
                  | Some r \<Rightarrow> env_workspace r = grt_workspace g))"

definition active_of :: "grant_row \<Rightarrow> active_grant option" where
  "active_of g = map_option
     (\<lambda>r. \<lparr>ag_id = grt_id g, ag_workspace = grt_workspace g, ag_project = grt_project g,
           ag_environment = grt_environment g, ag_role = r\<rparr>)
     (grant_role_of_text (grt_role g))"

definition grantsForUser :: "panel_db \<Rightarrow> int \<Rightarrow> active_grant list" where
  "grantsForUser db userId = List.map_filter active_of (filter (grant_counts db userId) (access_grants db))"

definition projectGrantRole :: "active_grant list \<Rightarrow> int option \<Rightarrow> grant_role option" where
  "projectGrantRole grants projectId =
     (case projectId of None \<Rightarrow> None
      | Some p \<Rightarrow> maxOf (filter (\<lambda>g. ag_project g = Some p \<and> ag_environment g = None) grants))"

definition grantedProjectIds :: "active_grant list \<Rightarrow> int list" where
  "grantedProjectIds grants =
     js_unique (map (\<lambda>g. the (ag_project g))
       (filter (\<lambda>g. ag_project g \<noteq> None \<and> ag_environment g = None) grants))"

definition grantedEnvironmentIds :: "active_grant list \<Rightarrow> int list" where
  "grantedEnvironmentIds grants =
     js_unique (map (\<lambda>g. the (ag_environment g)) (filter (\<lambda>g. ag_environment g \<noteq> None) grants))"

definition grantedWorkspaceIds :: "active_grant list \<Rightarrow> int list" where
  "grantedWorkspaceIds grants = js_unique (map ag_workspace grants)"

subsection \<open>What a grant covers\<close>

record service_shape =
  sh_projects :: "int set"
  sh_environment :: "int option"
  sh_workspaces :: "int set"

definition covers :: "active_grant \<Rightarrow> service_shape \<Rightarrow> bool" where
  "covers g s =
     (if ag_workspace g \<notin> sh_workspaces s then False
      else if \<exists>p. ag_project g = Some p \<and> p \<notin> sh_projects s then False
      else if ag_environment g \<noteq> None \<and> sh_environment s \<noteq> ag_environment g then False
      else True)"

lemma covers_code [code]:
  "covers g s =
     (ag_workspace g \<in> sh_workspaces s \<and>
      (case ag_project g of None \<Rightarrow> True | Some p \<Rightarrow> p \<in> sh_projects s) \<and>
      (ag_environment g = None \<or> sh_environment s = ag_environment g))"
  by (auto simp: covers_def split: option.splits)

text \<open>
  \<open>environment\<close> is the optional argument of the source: \<open>None\<close> when the caller does not
  pass it (it is read from the service row then), \<open>Some\<close> its value otherwise.
\<close>

definition grantRoleForService ::
  "panel_db \<Rightarrow> active_grant list \<Rightarrow> int \<Rightarrow> int option option \<Rightarrow> grant_role option" where
  "grantRoleForService db grants serviceId environment =
     (if grants = [] then None
      else
        let needsLinks = list_ex (\<lambda>g. ag_project g \<noteq> None) grants;
            needsEnv = list_ex (\<lambda>g. ag_environment g \<noteq> None) grants;
            projectIds = (if needsLinks
              then set (map snd (filter (\<lambda>l. fst l = serviceId) (service_projects db))) else {});
            environmentId = (if needsEnv
              then (case environment of Some e \<Rightarrow> e
                    | None \<Rightarrow> (case find_service db serviceId of None \<Rightarrow> None
                              | Some row \<Rightarrow> svc_environment row))
              else None);
            workspaceIds = set (map snd (filter (\<lambda>t. fst t = serviceId) (service_workspaces db)));
            shape = \<lparr>sh_projects = projectIds, sh_environment = environmentId,
                     sh_workspaces = workspaceIds\<rparr>
        in maxOf (filter (\<lambda>g. covers g shape) grants))"

text \<open>The map of candidate shapes the enumeration fills; \<open>shapeOf\<close> creates on demand.\<close>

type_synonym shapes = "(int \<times> service_shape) list"

definition empty_shape :: service_shape where
  "empty_shape = \<lparr>sh_projects = {}, sh_environment = None, sh_workspaces = {}\<rparr>"

definition shape_at :: "shapes \<Rightarrow> int \<Rightarrow> service_shape" where
  "shape_at m i = (case map_of m i of None \<Rightarrow> empty_shape | Some s \<Rightarrow> s)"

definition shapeOf :: "(service_shape \<Rightarrow> service_shape) \<Rightarrow> int \<Rightarrow> shapes \<Rightarrow> shapes" where
  "shapeOf f i m = AList.update i (f (shape_at m i)) m"

definition add_links :: "(int \<times> int) list \<Rightarrow> shapes \<Rightarrow> shapes" where
  "add_links links m =
     foldl (\<lambda>m (sid, p). shapeOf (\<lambda>s. s\<lparr>sh_projects := insert p (sh_projects s)\<rparr>) sid m) m links"

definition add_environments :: "service_row list \<Rightarrow> shapes \<Rightarrow> shapes" where
  "add_environments rows m =
     foldl (\<lambda>m r. shapeOf (\<lambda>s. s\<lparr>sh_environment := svc_environment r\<rparr>) (svc_id r) m) m rows"

definition add_tags :: "(int \<times> int) list \<Rightarrow> shapes \<Rightarrow> shapes" where
  "add_tags tags m =
     foldl (\<lambda>m (sid, w). shapeOf (\<lambda>s. s\<lparr>sh_workspaces := insert w (sh_workspaces s)\<rparr>) sid m) m tags"

definition servicesCoveredByGrants :: "panel_db \<Rightarrow> active_grant list \<Rightarrow> int list" where
  "servicesCoveredByGrants db grants =
     (if grants = [] then []
      else
        let pIds = js_unique (map (\<lambda>g. the (ag_project g)) (filter (\<lambda>g. ag_project g \<noteq> None) grants));
            eIds = grantedEnvironmentIds grants;
            m1 = (if pIds \<noteq> []
              then add_links (filter (\<lambda>l. snd l \<in> set pIds) (service_projects db)) [] else []);
            m2 = (if eIds \<noteq> []
              then add_environments
                (filter (\<lambda>r. case svc_environment r of None \<Rightarrow> False | Some e \<Rightarrow> e \<in> set eIds)
                  (services db)) m1
              else m1);
            m3 = (if m2 \<noteq> []
              then add_tags (filter (\<lambda>t. fst t \<in> set (map fst m2)) (service_workspaces db)) m2
              else m2)
        in map fst (filter (\<lambda>(sid, shape). list_ex (\<lambda>g. covers g shape) grants) m3))"

subsection \<open>Lemmas: the highest grant role\<close>

lemma grant_rank_inj [simp]: "grant_rank a = grant_rank b \<longleftrightarrow> a = b"
  by (cases a; cases b) (auto simp: grant_rank_def)

lemma higherGrantRole_simps [simp]:
  "higherGrantRole None b = b" "higherGrantRole a None = a"
  "higherGrantRole (Some x) (Some y) = Some (if grant_rank x \<ge> grant_rank y then x else y)"
  by (auto simp: higherGrantRole_def split: option.splits)

lemma higherGrantRole_None: "higherGrantRole a b = None \<longleftrightarrow> a = None \<and> b = None"
  by (cases a; cases b) auto

lemma maxOf_fold_None:
  "foldl (\<lambda>best g. higherGrantRole best (Some (ag_role g))) b gs = None \<longleftrightarrow> b = None \<and> gs = []"
  by (induction gs arbitrary: b) (auto simp: higherGrantRole_None)

lemma maxOf_None [simp]: "maxOf gs = None \<longleftrightarrow> gs = []"
  by (simp add: maxOf_def maxOf_fold_None)

lemma maxOf_Nil [simp]: "maxOf [] = None"
  by simp

lemma maxOf_fold_char:
  assumes "foldl (\<lambda>best g. higherGrantRole best (Some (ag_role g))) b gs = Some r"
  shows "(b = Some r \<or> (\<exists>g \<in> set gs. ag_role g = r)) \<and>
    (\<forall>x. b = Some x \<longrightarrow> grant_rank x \<le> grant_rank r) \<and> (\<forall>g \<in> set gs. grant_rank (ag_role g) \<le> grant_rank r)"
  using assms
proof (induction gs arbitrary: b)
  case Nil
  then show ?case by simp
next
  case (Cons g gs)
  let ?b = "higherGrantRole b (Some (ag_role g))"
  have "foldl (\<lambda>best g. higherGrantRole best (Some (ag_role g))) ?b gs = Some r"
    using Cons.prems by simp
  note IH = Cons.IH [OF this]
  show ?case using IH by (cases b) (auto split: if_splits)
qed

lemma maxOf_Some:
  assumes "maxOf gs = Some r"
  shows "\<exists>g \<in> set gs. ag_role g = r" and "g \<in> set gs \<Longrightarrow> grant_rank (ag_role g) \<le> grant_rank r"
  using maxOf_fold_char [OF assms [unfolded maxOf_def]] by auto

text \<open>More grants never give less (the raise-only decision, on grant lists).\<close>

lemma maxOf_mono:
  assumes "set gs \<subseteq> set hs" and "maxOf gs = Some r"
  shows "\<exists>r'. maxOf hs = Some r' \<and> grant_rank r \<le> grant_rank r'"
proof -
  obtain g where g: "g \<in> set gs" "ag_role g = r" using maxOf_Some(1) [OF assms(2)] by blast
  then have "hs \<noteq> []" using assms(1) by auto
  then obtain r' where r': "maxOf hs = Some r'" by (cases "maxOf hs") auto
  then show ?thesis using g assms(1) maxOf_Some(2) [OF r'] by blast
qed

lemma grantsForUser_mem:
  "a \<in> set (grantsForUser db u) \<longleftrightarrow>
     (\<exists>g \<in> set (access_grants db). grant_counts db u g \<and> active_of g = Some a)"
  by (auto simp: grantsForUser_def List.map_filter_def image_iff)

lemma active_of_Some:
  "active_of g = Some a \<longleftrightarrow>
     (\<exists>r. grant_role_of_text (grt_role g) = Some r \<and>
       a = \<lparr>ag_id = grt_id g, ag_workspace = grt_workspace g, ag_project = grt_project g,
           ag_environment = grt_environment g, ag_role = r\<rparr>)"
  by (auto simp: active_of_def)

lemma active_of_fields:
  assumes "active_of g = Some a"
  shows "ag_project a = grt_project g" "ag_environment a = grt_environment g"
    "ag_workspace a = grt_workspace g" "ag_id a = grt_id g"
    "grant_role_of_text (grt_role g) = Some (ag_role a)"
  using assms by (auto simp: active_of_Some)

lemma grantsForUserE:
  assumes "a \<in> set (grantsForUser db u)"
  obtains g where "g \<in> set (access_grants db)" "grant_counts db u g" "active_of g = Some a"
  using assms by (auto simp: grantsForUser_mem)

lemma grantsForUser_target:
  assumes "wf_db db" and "a \<in> set (grantsForUser db u)"
  shows "ag_project a \<noteq> None \<or> ag_environment a \<noteq> None"
proof -
  obtain g where g: "g \<in> set (access_grants db)" "active_of g = Some a"
    using assms(2) by (rule grantsForUserE)
  from wf_dbD(8) [OF assms(1) g(1)] show ?thesis by (simp add: active_of_fields [OF g(2)])
qed

lemma grant_counts_project:
  "grant_counts db u g \<Longrightarrow> grt_project g = Some p \<Longrightarrow>
     \<exists>r. find_project db p = Some r \<and> prj_workspace r = Some (grt_workspace g)"
  by (simp add: grant_counts_def split: option.splits)

lemma grantsForUser_project_workspace:
  assumes "a \<in> set (grantsForUser db u)" and "ag_project a = Some p"
  shows "\<exists>r. find_project db p = Some r \<and> prj_workspace r = Some (ag_workspace a)"
proof -
  obtain g where g: "grant_counts db u g" "active_of g = Some a"
    using assms(1) by (rule grantsForUserE)
  from grant_counts_project [OF g(1)] assms(2) show ?thesis by (simp add: active_of_fields [OF g(2)])
qed

lemma projectGrantRole_None:
  "projectGrantRole gs (Some p) = None \<longleftrightarrow>
     (\<forall>g \<in> set gs. \<not> (ag_project g = Some p \<and> ag_environment g = None))"
  by (simp add: projectGrantRole_def filter_empty_conv)

lemma set_grantedProjectIds:
  "p \<in> set (grantedProjectIds gs) \<longleftrightarrow> projectGrantRole gs (Some p) \<noteq> None"
  unfolding projectGrantRole_None by (force simp: grantedProjectIds_def)

lemma set_grantedEnvironmentIds:
  "e \<in> set (grantedEnvironmentIds gs) \<longleftrightarrow> (\<exists>g \<in> set gs. ag_environment g = Some e)"
  by (force simp: grantedEnvironmentIds_def)

subsection \<open>Lemmas: one service and the enumeration\<close>

text \<open>The full shape of a service, of which both queries compute a part.\<close>

definition service_shape_of :: "panel_db \<Rightarrow> int \<Rightarrow> int option \<Rightarrow> service_shape" where
  "service_shape_of db sid env =
     \<lparr>sh_projects = {p. (sid, p) \<in> set (service_projects db)}, sh_environment = env,
      sh_workspaces = {w. (sid, w) \<in> set (service_workspaces db)}\<rparr>"

lemma set_map_filter_fst: "set (map snd (filter (\<lambda>l. fst l = k) xs)) = {v. (k, v) \<in> set xs}"
  by force

lemma grantRoleForService_eq:
  assumes "env = Some e \<or> env = None \<and> find_service db sid = Some row \<and> svc_environment row = e"
  shows "grantRoleForService db grants sid env =
    maxOf (filter (\<lambda>g. covers g (service_shape_of db sid e)) grants)"
proof (cases "grants = []")
  case False
  let ?needsLinks = "list_ex (\<lambda>g. ag_project g \<noteq> None) grants"
  let ?needsEnv = "list_ex (\<lambda>g. ag_environment g \<noteq> None) grants"
  let ?shape = "\<lparr>sh_projects = (if ?needsLinks then {p. (sid, p) \<in> set (service_projects db)} else {}),
    sh_environment = (if ?needsEnv then e else None),
    sh_workspaces = {w. (sid, w) \<in> set (service_workspaces db)}\<rparr>"
  have "covers g ?shape \<longleftrightarrow> covers g (service_shape_of db sid e)" if "g \<in> set grants" for g
  proof -
    have "ag_project g \<noteq> None \<Longrightarrow> ?needsLinks" "ag_environment g \<noteq> None \<Longrightarrow> ?needsEnv"
      using that by (auto simp: list_ex_iff)
    then show ?thesis
      by (cases "ag_project g"; cases "ag_environment g") (auto simp: covers_def service_shape_of_def)
  qed
  then have "filter (\<lambda>g. covers g ?shape) grants = filter (\<lambda>g. covers g (service_shape_of db sid e)) grants"
    by (intro filter_cong) auto
  moreover have "(case env of Some e \<Rightarrow> e | None \<Rightarrow> (case find_service db sid of None \<Rightarrow> None
      | Some row \<Rightarrow> svc_environment row)) = e"
    using assms by auto
  ultimately show ?thesis
    by (simp only: grantRoleForService_def Let_def False if_False set_map_filter_fst)
qed (simp add: grantRoleForService_def)

lemma shape_at_shapeOf: "shape_at (shapeOf f i m) k = (if k = i then f (shape_at m i) else shape_at m k)"
  by (simp add: shape_at_def shapeOf_def)

lemma shape_at_Nil [simp]: "shape_at [] k = empty_shape"
  by (simp add: shape_at_def)

lemma map_ok_shapeOf [simp]: "map_ok m \<Longrightarrow> map_ok (shapeOf f i m)"
  by (simp add: shapeOf_def)

lemma keys_shapeOf [simp]: "fst ` set (shapeOf f i m) = insert i (fst ` set m)"
  by (simp add: shapeOf_def AList.dom_update)

lemma add_links_Cons: "add_links ((i, p) # ls) m =
    add_links ls (shapeOf (\<lambda>s. s\<lparr>sh_projects := insert p (sh_projects s)\<rparr>) i m)"
  by (simp add: add_links_def)

lemma add_tags_Cons: "add_tags ((i, w) # ls) m =
    add_tags ls (shapeOf (\<lambda>s. s\<lparr>sh_workspaces := insert w (sh_workspaces s)\<rparr>) i m)"
  by (simp add: add_tags_def)

lemma add_environments_Cons: "add_environments (r # rs) m =
    add_environments rs (shapeOf (\<lambda>s. s\<lparr>sh_environment := svc_environment r\<rparr>) (svc_id r) m)"
  by (simp add: add_environments_def)

lemma add_Nil [simp]: "add_links [] m = m" "add_tags [] m = m" "add_environments [] m = m"
  by (simp_all add: add_links_def add_tags_def add_environments_def)

lemma insert_Un_Collect: "insert p (A \<union> {q. Q q}) = A \<union> {q. q = p \<or> Q q}"
  by auto

lemma add_links_char:
  "shape_at (add_links ls m) k =
     (shape_at m k)\<lparr>sh_projects := sh_projects (shape_at m k) \<union> {p. (k, p) \<in> set ls}\<rparr>"
  "fst ` set (add_links ls m) = fst ` set m \<union> fst ` set ls"
  "map_ok m \<Longrightarrow> map_ok (add_links ls m)"
proof (induction ls arbitrary: m)
  case (Cons l ls)
  obtain i p where l: "l = (i, p)" by (cases l)
  case 1 show ?case by (simp add: l add_links_Cons Cons.IH(1) shape_at_shapeOf insert_Un_Collect)
  case 2 show ?case by (auto simp: l add_links_Cons Cons.IH(2))
  case 3 then show ?case by (simp add: l add_links_Cons Cons.IH(3))
qed simp_all

lemma add_tags_char:
  "shape_at (add_tags ls m) k =
     (shape_at m k)\<lparr>sh_workspaces := sh_workspaces (shape_at m k) \<union> {w. (k, w) \<in> set ls}\<rparr>"
  "fst ` set (add_tags ls m) = fst ` set m \<union> fst ` set ls"
  "map_ok m \<Longrightarrow> map_ok (add_tags ls m)"
proof (induction ls arbitrary: m)
  case (Cons l ls)
  obtain i p where l: "l = (i, p)" by (cases l)
  case 1 show ?case by (simp add: l add_tags_Cons Cons.IH(1) shape_at_shapeOf insert_Un_Collect)
  case 2 show ?case by (auto simp: l add_tags_Cons Cons.IH(2))
  case 3 then show ?case by (simp add: l add_tags_Cons Cons.IH(3))
qed simp_all

lemma add_environments_char:
  assumes "distinct (map svc_id rs)"
  shows "shape_at (add_environments rs m) k =
     (case List.find (\<lambda>r. svc_id r = k) rs of None \<Rightarrow> shape_at m k
      | Some r \<Rightarrow> (shape_at m k)\<lparr>sh_environment := svc_environment r\<rparr>)"
  using assms
proof (induction rs arbitrary: m)
  case (Cons r rs)
  have fresh: "List.find (\<lambda>q. svc_id q = svc_id r) rs = None"
    using Cons.prems unfolding find_None_iff by (auto, metis image_eqI)
  show ?case using Cons.prems fresh
    by (auto simp: add_environments_Cons Cons.IH shape_at_shapeOf split: option.splits)
qed simp

lemma add_environments_keys:
  "fst ` set (add_environments rs m) = fst ` set m \<union> svc_id ` set rs"
  "map_ok m \<Longrightarrow> map_ok (add_environments rs m)"
proof (induction rs arbitrary: m)
  case (Cons r rs)
  case 1 show ?case by (auto simp: add_environments_Cons Cons.IH(1))
  case 2 then show ?case by (simp add: add_environments_Cons Cons.IH(2))
qed simp_all

lemma map_ok_filter_keys:
  assumes "map_ok m"
  shows "k \<in> fst ` set (filter (\<lambda>(i, s). P s) m) \<longleftrightarrow> k \<in> fst ` set m \<and> P (shape_at m k)"
  using map_ok_map_of [OF assms] by (force simp: shape_at_def)

text \<open>
  The enumeration is complete and exact: a stored service is in it iff some grant of a
  well-targeted list covers its full shape.
\<close>

lemma servicesCoveredByGrants_iff:
  assumes wf: "wf_db db" and row: "find_service db sid = Some row"
    and target: "\<And>g. g \<in> set grants \<Longrightarrow> ag_project g \<noteq> None \<or> ag_environment g \<noteq> None"
  shows "sid \<in> set (servicesCoveredByGrants db grants) \<longleftrightarrow>
    (\<exists>g \<in> set grants. covers g (service_shape_of db sid (svc_environment row)))"
proof (cases "grants = []")
  case False
  define pIds where "pIds = js_unique (map (\<lambda>g. the (ag_project g)) (filter (\<lambda>g. ag_project g \<noteq> None) grants))"
  define eIds where "eIds = grantedEnvironmentIds grants"
  define links where "links = filter (\<lambda>l. snd l \<in> set pIds) (service_projects db)"
  define rows where "rows = filter
    (\<lambda>r. case svc_environment r of None \<Rightarrow> False | Some e \<Rightarrow> e \<in> set eIds) (services db)"
  define m2 where "m2 = add_environments rows (add_links links [])"
  define tags where "tags = filter (\<lambda>t. fst t \<in> fst ` set m2) (service_workspaces db)"
  define m3 where "m3 = add_tags tags m2"
  have links_Nil: "pIds = [] \<Longrightarrow> links = []" by (simp add: links_def)
  have rows_Nil: "eIds = [] \<Longrightarrow> rows = []"
    by (auto simp: rows_def filter_empty_conv split: option.splits)
  have code: "servicesCoveredByGrants db grants
      = map fst (filter (\<lambda>(sid, shape). list_ex (\<lambda>g. covers g shape) grants) m3)"
  proof -
    have 1: "(if pIds \<noteq> [] then add_links links [] else []) = add_links links []"
      using links_Nil by simp
    have 2: "(if eIds \<noteq> [] then add_environments rows (add_links links []) else add_links links []) = m2"
      using rows_Nil by (simp add: m2_def)
    have 3: "(if m2 \<noteq> [] then add_tags tags m2 else m2) = m3"
      by (simp add: m3_def tags_def)
    show ?thesis
      unfolding servicesCoveredByGrants_def Let_def pIds_def [symmetric] eIds_def [symmetric]
        links_def [symmetric] rows_def [symmetric] 1 2 set_map tags_def [symmetric] 3
      using False by simp
  qed
  have pI: "p \<in> set pIds \<longleftrightarrow> (\<exists>g \<in> set grants. ag_project g = Some p)" for p
    by (force simp: pIds_def)
  have eI: "e \<in> set eIds \<longleftrightarrow> (\<exists>g \<in> set grants. ag_environment g = Some e)" for e
    by (simp add: eIds_def set_grantedEnvironmentIds)
  have ids: "distinct (map svc_id (services db))" using wf_dbD(2) [OF wf] .
  then have dist: "distinct (map svc_id rows)" by (simp add: rows_def distinct_map_filter)
  have row': "row \<in> set (services db)" "svc_id row = sid" using row wf by (simp_all add: find_row_iff)
  have uniq: "r = row" if "r \<in> set (services db)" "svc_id r = sid" for r
    using that row find_row_iff(2) [OF wf, of sid r] by simp
  have rows_sub: "set rows \<subseteq> set (services db)" by (simp add: rows_def)
  have ok: "map_ok m3"
    by (simp add: m3_def m2_def add_tags_char(3) add_environments_keys(2) add_links_char(3))
  have keys2: "sid \<in> fst ` set m2 \<longleftrightarrow> (\<exists>p \<in> set pIds. (sid, p) \<in> set (service_projects db)) \<or> row \<in> set rows"
  proof -
    have "sid \<in> fst ` set links \<longleftrightarrow> (\<exists>p \<in> set pIds. (sid, p) \<in> set (service_projects db))"
      by (force simp: links_def)
    moreover have "sid \<in> svc_id ` set rows \<longleftrightarrow> row \<in> set rows"
      using uniq row'(2) rows_sub by blast
    ultimately show ?thesis
      by (simp add: m2_def add_environments_keys(1) add_links_char(2))
  qed
  have keys3: "sid \<in> fst ` set m3 \<longleftrightarrow> sid \<in> fst ` set m2"
    by (auto simp: m3_def add_tags_char(2) tags_def)
  have env: "List.find (\<lambda>r. svc_id r = sid) rows = (if row \<in> set rows then Some row else None)"
  proof (cases "row \<in> set rows")
    case True
    then show ?thesis using find_unique_key [OF dist True] row'(2) by simp
  next
    case False
    then show ?thesis using uniq rows_sub by (auto simp: find_None_iff)
  qed
  have shape: "shape_at m3 sid =
    \<lparr>sh_projects = {p. (sid, p) \<in> set (service_projects db) \<and> p \<in> set pIds},
     sh_environment = (if row \<in> set rows then svc_environment row else None),
     sh_workspaces = (if sid \<in> fst ` set m2 then {w. (sid, w) \<in> set (service_workspaces db)} else {})\<rparr>"
    by (auto simp: m3_def m2_def add_tags_char(1) add_environments_char [OF dist] env add_links_char(1)
      links_def tags_def shape_at_Nil empty_shape_def)
  have rows_iff: "row \<in> set rows \<longleftrightarrow> (\<exists>e. svc_environment row = Some e \<and> e \<in> set eIds)"
    using row' by (auto simp: rows_def split: option.splits)
  have step: "covers g (shape_at m3 sid) \<and> sid \<in> fst ` set m2
      \<longleftrightarrow> covers g (service_shape_of db sid (svc_environment row))" if "g \<in> set grants" for g
  proof -
    have p: "ag_project g = Some p \<Longrightarrow> p \<in> set pIds" and e: "ag_environment g = Some e \<Longrightarrow> e \<in> set eIds" for p e
      using that pI eI by auto
    show ?thesis
      using target [OF that] p e
      by (cases "ag_project g"; cases "ag_environment g")
        (auto simp: covers_def service_shape_of_def shape keys2 rows_iff)
  qed
  have "sid \<in> set (servicesCoveredByGrants db grants)
      \<longleftrightarrow> sid \<in> fst ` set m2 \<and> (\<exists>g \<in> set grants. covers g (shape_at m3 sid))"
    unfolding code using map_ok_filter_keys [OF ok, of sid "\<lambda>s. list_ex (\<lambda>g. covers g s) grants"] keys3
    by (simp add: list_ex_iff)
  then show ?thesis using step by blast
qed (simp add: servicesCoveredByGrants_def)

end
