(* ===== verification/ResourceAccess.thy ===== *)
theory ResourceAccess
  imports AccessGrants
begin

text \<open>
  The authorization choke-point of every resource-scoped route
  (\<open>apps/server/src/lib/resourceAccess.ts\<close>): services, projects, managed databases and
  environments. For each kind the code has a loader (404 or the row), a role resolver, an
  assertion (403), and a list query. The locale \<open>resource_authority\<close> states the contract
  between the four; it is interpreted for the three kinds.
\<close>

subsection \<open>Services\<close>

definition withGrant :: "workspace_role option \<Rightarrow> grant_role option \<Rightarrow> workspace_role option" where
  "withGrant seat grant =
     (case grant of None \<Rightarrow> seat
      | Some g \<Rightarrow> (case seat of None \<Rightarrow> Some (seat_role_of_grant g)
                 | Some s \<Rightarrow> if role_rank s \<ge> role_rank (seat_role_of_grant g) then Some s
                            else Some (seat_role_of_grant g)))"

text \<open>The seats the user holds in the workspaces of a list (\<open>inArray\<close>).\<close>

definition seats_in :: "panel_db \<Rightarrow> int list \<Rightarrow> int \<Rightarrow> member_row list" where
  "seats_in db wsIds userId =
     filter (\<lambda>m. mem_user m = userId \<and> mem_workspace m \<in> set wsIds) (members db)"

definition loadServiceForUser :: "panel_db \<Rightarrow> int \<Rightarrow> authed_user \<Rightarrow> service_row outcome" where
  "loadServiceForUser db i user =
     (case find_service db i of
        None \<Rightarrow> Inl (notFound ''Service not found'')
      | Some svc \<Rightarrow>
          if au_operator user then Inr svc
          else
            let tagWsIds = serviceWorkspaceIds db (svc_id svc) in
            if tagWsIds = [] \<and> svc_owner svc = Some (au_id user) then Inr svc
            else if tagWsIds \<noteq> [] \<and> seats_in db tagWsIds (au_id user) \<noteq> [] then Inr svc
            else if grantRoleForService db (grantsForUser db (au_id user)) (svc_id svc)
                (Some (svc_environment svc)) \<noteq> None then Inr svc
            else Inl (notFound ''Service not found''))"

definition visibleServiceIdSet :: "panel_db \<Rightarrow> authed_user \<Rightarrow> int set option" where
  "visibleServiceIdSet db user =
     (if au_operator user then None
      else
        let owned = map svc_id (filter (\<lambda>s. svc_owner s = Some (au_id user) \<and>
              \<not> list_ex (\<lambda>t. fst t = svc_id s) (service_workspaces db)) (services db));
            wsIds = userWorkspaceIds db (au_id user);
            tagged = (if wsIds \<noteq> []
              then map fst (filter (\<lambda>t. snd t \<in> set wsIds) (service_workspaces db)) else []);
            covered = servicesCoveredByGrants db (grantsForUser db (au_id user))
        in Some (set owned \<union> set tagged \<union> set covered))"

definition serviceRole ::
  "panel_db \<Rightarrow> int \<Rightarrow> int option \<Rightarrow> int option option \<Rightarrow> authed_user \<Rightarrow> workspace_role option" where
  "serviceRole db sid owner environment user =
     (if au_operator user then Some Owner
      else
        let tagWsIds = serviceWorkspaceIds db sid in
        if tagWsIds = [] \<and> owner = Some (au_id user) then Some Owner
        else
          let seats = (if tagWsIds = [] then [] else seats_in db tagWsIds (au_id user)) in
          if seats \<noteq> [] \<and> owner = Some (au_id user) then Some Owner
          else
            let seatRole = maxRole (map (\<lambda>m. (mem_workspace m, mem_role m)) seats) in
            if seatRole = Some Owner \<or> seatRole = Some Admin then seatRole
            else
              let grant = grantRoleForService db (grantsForUser db (au_id user)) sid environment in
              if grant \<noteq> None \<and> owner = Some (au_id user) then Some Owner
              else withGrant seatRole grant)"

definition assertServiceRole ::
  "panel_db \<Rightarrow> int \<Rightarrow> int option \<Rightarrow> int option option \<Rightarrow> authed_user \<Rightarrow> workspace_role \<Rightarrow> unit outcome" where
  "assertServiceRole db sid owner environment user required =
     (let refuse = Inl (forbidden (''This action requires the '' @ [CHR 0x22] @ role_name required
            @ [CHR 0x22] @ '' role or higher on this service'')) in
      case serviceRole db sid owner environment user of
        None \<Rightarrow> refuse
      | Some actual \<Rightarrow> if \<not> roleAtLeast actual required then refuse else Inr ())"

definition assertCanManageService :: "int option \<Rightarrow> authed_user \<Rightarrow> unit outcome" where
  "assertCanManageService owner user =
     (if au_operator user then Inr ()
      else if owner = Some (au_id user) then Inr ()
      else if owner = None then Inr ()
      else Inl (forbidden ''You do not have access to this service''))"

subsection \<open>Projects\<close>

definition loadProjectForUser :: "panel_db \<Rightarrow> int \<Rightarrow> authed_user \<Rightarrow> project_row outcome" where
  "loadProjectForUser db i user =
     (case find_project db i of
        None \<Rightarrow> Inl (notFound ''Project not found'')
      | Some project \<Rightarrow>
          if au_operator user then Inr project
          else (case prj_workspace project of
              None \<Rightarrow> Inl (notFound ''Project not found'')
            | Some w \<Rightarrow>
                if isWorkspaceMember db w (au_id user) then Inr project
                else if projectGrantRole (grantsForUser db (au_id user)) (Some (prj_id project)) \<noteq> None
                then Inr project
                else Inl (notFound ''Project not found'')))"

definition projectRole :: "panel_db \<Rightarrow> int \<Rightarrow> int option \<Rightarrow> authed_user \<Rightarrow> workspace_role option" where
  "projectRole db pid workspace user =
     (if au_operator user then Some Owner
      else (case workspace of
          None \<Rightarrow> None
        | Some w \<Rightarrow>
            let seatRole = map_option mem_role (find_seat db w (au_id user)) in
            if seatRole = Some Owner \<or> seatRole = Some Admin then seatRole
            else withGrant seatRole (projectGrantRole (grantsForUser db (au_id user)) (Some pid))))"

definition assertProjectRole ::
  "panel_db \<Rightarrow> int \<Rightarrow> int option \<Rightarrow> authed_user \<Rightarrow> workspace_role \<Rightarrow> unit outcome" where
  "assertProjectRole db pid workspace user required =
     (case projectRole db pid workspace user of
        None \<Rightarrow> Inl (forbidden ''Insufficient role for this workspace'')
      | Some actual \<Rightarrow>
          if \<not> roleAtLeast actual required
          then Inl (forbidden ''Insufficient role for this workspace'') else Inr ())"

text \<open>
  The predicate a \<open>projects\<close> query is limited by: none for operators (\<open>undefined\<close>), no
  row at all (\<open>null\<close>), or membership of two id lists.
\<close>

datatype scope_filter = Unrestricted | NoRows | InWorkspaces "int list" | InProjects "int list"
  | InEither "int list" "int list"

definition projectScopeFilter :: "panel_db \<Rightarrow> authed_user \<Rightarrow> scope_filter" where
  "projectScopeFilter db user =
     (if au_operator user then Unrestricted
      else
        let wids = userWorkspaceIds db (au_id user);
            granted = grantedProjectIds (grantsForUser db (au_id user))
        in if granted = [] then (if wids = [] then NoRows else InWorkspaces wids)
           else if wids = [] then InProjects granted
           else InEither wids granted)"

fun scope_admits :: "scope_filter \<Rightarrow> project_row \<Rightarrow> bool" where
  "scope_admits Unrestricted p = True"
| "scope_admits NoRows p = False"
| "scope_admits (InWorkspaces ws) p = (case prj_workspace p of None \<Rightarrow> False | Some w \<Rightarrow> w \<in> set ws)"
| "scope_admits (InProjects ps) p = (prj_id p \<in> set ps)"
| "scope_admits (InEither ws ps) p =
     ((case prj_workspace p of None \<Rightarrow> False | Some w \<Rightarrow> w \<in> set ws) \<or> prj_id p \<in> set ps)"

subsection \<open>Databases\<close>

definition databaseWorkspaceId :: "panel_db \<Rightarrow> int option \<Rightarrow> int option" where
  "databaseWorkspaceId db projectId =
     (case projectId of None \<Rightarrow> None
      | Some p \<Rightarrow> (case find_project db p of None \<Rightarrow> None | Some r \<Rightarrow> prj_workspace r))"

definition loadDatabaseForUser :: "panel_db \<Rightarrow> int \<Rightarrow> authed_user \<Rightarrow> database_row outcome" where
  "loadDatabaseForUser db i user =
     (case find_database db i of
        None \<Rightarrow> Inl (notFound ''Database not found'')
      | Some row \<Rightarrow>
          if au_operator user then Inr row
          else (case databaseWorkspaceId db (dbs_project row) of
              None \<Rightarrow> if dbs_owner row = Some (au_id user) then Inr row
                      else Inl (notFound ''Database not found'')
            | Some w \<Rightarrow>
                if isWorkspaceMember db w (au_id user) then Inr row
                else if projectGrantRole (grantsForUser db (au_id user)) (dbs_project row) \<noteq> None
                then Inr row
                else Inl (notFound ''Database not found'')))"

text \<open>The joins: a database without a project (or with a missing one) has a NULL workspace.\<close>

definition visibleDatabaseIds :: "panel_db \<Rightarrow> authed_user \<Rightarrow> int set option" where
  "visibleDatabaseIds db user =
     (if au_operator user then None
      else
        let owned = map dbs_id (filter (\<lambda>d. dbs_owner d = Some (au_id user) \<and>
              databaseWorkspaceId db (dbs_project d) = None) (databases db));
            wsIds = userWorkspaceIds db (au_id user);
            tagged = (if wsIds \<noteq> []
              then map dbs_id (filter (\<lambda>d. case databaseWorkspaceId db (dbs_project d) of
                  None \<Rightarrow> False | Some w \<Rightarrow> w \<in> set wsIds) (databases db)) else []);
            granted = grantedProjectIds (grantsForUser db (au_id user));
            inGranted = (if granted \<noteq> []
              then map dbs_id (filter (\<lambda>d. case dbs_project d of
                  None \<Rightarrow> False | Some p \<Rightarrow> p \<in> set granted) (databases db)) else [])
        in Some (set owned \<union> set tagged \<union> set inGranted))"

definition databaseRole ::
  "panel_db \<Rightarrow> int option \<Rightarrow> int option \<Rightarrow> authed_user \<Rightarrow> workspace_role option" where
  "databaseRole db owner projectId user =
     (if au_operator user then Some Owner
      else (case databaseWorkspaceId db projectId of
          None \<Rightarrow> if owner = Some (au_id user) then Some Owner else None
        | Some w \<Rightarrow>
            let seat = find_seat db w (au_id user) in
            if seat \<noteq> None \<and> owner = Some (au_id user) then Some Owner
            else
              let seatRole = map_option mem_role seat in
              if seatRole = Some Owner \<or> seatRole = Some Admin then seatRole
              else
                let grant = projectGrantRole (grantsForUser db (au_id user)) projectId in
                if grant \<noteq> None \<and> owner = Some (au_id user) then Some Owner
                else withGrant seatRole grant))"

definition assertDatabaseRole ::
  "panel_db \<Rightarrow> int option \<Rightarrow> int option \<Rightarrow> authed_user \<Rightarrow> workspace_role \<Rightarrow> unit outcome" where
  "assertDatabaseRole db owner projectId user required =
     (let refuse = Inl (forbidden (''This action requires the '' @ [CHR 0x22] @ role_name required
            @ [CHR 0x22] @ '' role or higher on this database'')) in
      case databaseRole db owner projectId user of
        None \<Rightarrow> refuse
      | Some actual \<Rightarrow> if \<not> roleAtLeast actual required then refuse else Inr ())"

subsection \<open>Environments\<close>

definition mayUseEnvironment :: "panel_db \<Rightarrow> authed_user \<Rightarrow> int \<Rightarrow> int \<Rightarrow> bool" where
  "mayUseEnvironment db user envId envWorkspace \<longleftrightarrow>
     au_operator user \<or> isWorkspaceMember db envWorkspace (au_id user) \<or>
     envId \<in> set (grantedEnvironmentIds (grantsForUser db (au_id user)))"

definition environmentVisibility :: "panel_db \<Rightarrow> authed_user \<Rightarrow> (int set \<times> int set) option" where
  "environmentVisibility db user =
     (if au_operator user then None
      else Some (set (userWorkspaceIds db (au_id user)),
                 set (grantedEnvironmentIds (grantsForUser db (au_id user)))))"

subsection \<open>The dispatcher\<close>

datatype resource_kind = KService | KProject | KDatabase

datatype resource = RService service_row | RProject project_row | RDatabase database_row

fun requireResourceAccess :: "panel_db \<Rightarrow> resource_kind \<Rightarrow> int \<Rightarrow> authed_user \<Rightarrow> resource outcome" where
  "requireResourceAccess db KService i user = map_sum id RService (loadServiceForUser db i user)"
| "requireResourceAccess db KProject i user = map_sum id RProject (loadProjectForUser db i user)"
| "requireResourceAccess db KDatabase i user = map_sum id RDatabase (loadDatabaseForUser db i user)"

definition requireAccess :: "panel_db \<Rightarrow> resource_kind \<Rightarrow> string option \<Rightarrow> authed_user \<Rightarrow> unit outcome" where
  "requireAccess db kind raw user =
     (case raw of
        None \<Rightarrow> Inl (notFound ''Resource not found'')
      | Some r \<Rightarrow> rbind (parseId r ''Invalid id parameter'')
          (\<lambda>i. rbind (requireResourceAccess db kind (int i) user) (\<lambda>_. Inr ())))"

end
