(* ===== verification/AccessSpec.thy ===== *)
theory AccessSpec
  imports ResourceAccess
begin

text \<open>
  What the authorization choke-point promises, stated without its control flow, and the
  proofs that the code of \<open>ResourceAccess\<close> implements it: the effective role of a caller is
  the maximum of the roles its seats and its counting grants give it, the loader, the list
  query and the role resolver of each kind agree, grants only raise, and no caller without a
  seat or a grant where a resource lives reaches it.
\<close>

subsection \<open>Maximum of a set of roles\<close>

definition opt_max :: "workspace_role set \<Rightarrow> workspace_role option" where
  "opt_max S = (if S = {} then None else Some (Max S))"

lemma opt_max_empty [simp]: "opt_max {} = None" "opt_max S = None \<longleftrightarrow> S = {}"
  by (simp_all add: opt_max_def)

lemma opt_max_Ex [simp]: "(\<exists>y. opt_max S = Some y) \<longleftrightarrow> S \<noteq> {}" "(\<exists>y. Some y = opt_max S) \<longleftrightarrow> S \<noteq> {}"
  by (auto simp: opt_max_def)

lemma opt_max_SomeI: "finite S \<Longrightarrow> r \<in> S \<Longrightarrow> (\<And>s. s \<in> S \<Longrightarrow> s \<le> r) \<Longrightarrow> opt_max S = Some r"
  by (auto simp: opt_max_def intro: Max_eqI)

lemma opt_max_mono: "finite T \<Longrightarrow> S \<subseteq> T \<Longrightarrow> opt_max S \<le> opt_max T"
  by (auto simp: opt_max_def intro: Max_mono)

lemma finite_roles [simp]: "finite (S :: workspace_role set)"
proof (rule finite_subset)
  show "S \<subseteq> {Viewer, Member, Admin, Owner}" by (auto, metis workspace_role.exhaust)
qed simp

lemma maxRole_opt_max: "maxRole ms = opt_max (snd ` set ms)"
proof (cases "ms = []")
  case True
  then show ?thesis by (simp add: maxRole_def)
next
  case False
  then show ?thesis by (simp add: maxRole_eq opt_max_def)
qed

lemma maxOf_opt_max: "map_option seat_role_of_grant (maxOf gs) = opt_max ((seat_role_of_grant \<circ> ag_role) ` set gs)"
proof (cases "maxOf gs")
  case (Some r)
  note mx = maxOf_Some [OF Some]
  have "opt_max ((seat_role_of_grant \<circ> ag_role) ` set gs) = Some (seat_role_of_grant r)"
    using mx by (intro opt_max_SomeI) (auto simp: less_eq_workspace_role_def grant_rank_def)
  then show ?thesis using Some by simp
qed simp

lemma withGrant_opt_max:
  assumes "map_option seat_role_of_grant g = opt_max G"
  shows "withGrant (opt_max S) g = opt_max (S \<union> G)"
proof (cases g)
  case None
  then have "opt_max G = None" using assms by simp
  then have "G = {}" by simp
  then show ?thesis using None by (simp add: withGrant_def)
next
  case (Some x)
  then have G: "G \<noteq> {}" "seat_role_of_grant x = Max G"
    using assms by (auto simp: opt_max_def split: if_splits)
  show ?thesis
  proof (cases "S = {}")
    case True
    then show ?thesis using Some G by (simp add: withGrant_def opt_max_def)
  next
    case False
    then have "Max (S \<union> G) = max (Max S) (Max G)" using G by (intro Max_Un) auto
    then show ?thesis using Some G False
      by (auto simp: withGrant_def opt_max_def max_def less_eq_workspace_role_def)
  qed
qed

text \<open>A grant tops out at admin, so an admin or owner seat decides alone.\<close>

lemma grant_at_most_admin: "seat_role_of_grant r \<le> Admin"
  by (cases r) (auto simp: less_eq_workspace_role_def)

lemma opt_max_seat_decides:
  assumes "opt_max S = Some r" and "r = Owner \<or> r = Admin" and "\<And>g. g \<in> G \<Longrightarrow> g \<le> Admin"
  shows "opt_max (S \<union> G) = Some r"
proof -
  from assms(1) have S: "S \<noteq> {}" "r = Max S" by (auto simp: opt_max_def split: if_splits)
  have "Admin \<le> r" using assms(2) by (auto simp: less_eq_workspace_role_def)
  then have "g \<le> r" if "g \<in> G" for g using assms(3) [OF that] by (rule order_trans [rotated])
  then show ?thesis using S by (intro opt_max_SomeI) (auto intro: Max_in)
qed

subsection \<open>Services: the effective role\<close>

text \<open>The roles a user holds over a service: by a seat where it is tagged, or by a grant.\<close>

definition seat_roles :: "panel_db \<Rightarrow> int \<Rightarrow> int \<Rightarrow> workspace_role set" where
  "seat_roles db sid u = {mem_role m | m. m \<in> set (members db) \<and> mem_user m = u \<and>
     (sid, mem_workspace m) \<in> set (service_workspaces db)}"

definition grant_roles :: "panel_db \<Rightarrow> int \<Rightarrow> int option \<Rightarrow> int \<Rightarrow> workspace_role set" where
  "grant_roles db sid env u = {seat_role_of_grant (ag_role g) | g. g \<in> set (grantsForUser db u) \<and>
     covers g (service_shape_of db sid env)}"

definition untagged :: "panel_db \<Rightarrow> int \<Rightarrow> bool" where
  "untagged db sid \<longleftrightarrow> (\<forall>w. (sid, w) \<notin> set (service_workspaces db))"

definition effective_service_role ::
  "panel_db \<Rightarrow> int \<Rightarrow> int option \<Rightarrow> int option \<Rightarrow> authed_user \<Rightarrow> workspace_role option" where
  "effective_service_role db sid owner env user =
     (let held = seat_roles db sid (au_id user) \<union> grant_roles db sid env (au_id user) in
      if au_operator user then Some Owner
      else if untagged db sid then (if owner = Some (au_id user) then Some Owner else None)
      else if held \<noteq> {} \<and> owner = Some (au_id user) then Some Owner
      else opt_max held)"

lemma untagged_iff: "serviceWorkspaceIds db sid = [] \<longleftrightarrow> untagged db sid"
  by (simp add: untagged_def serviceWorkspaceIds_Nil)

lemma seats_in_roles:
  "mem_role ` set (seats_in db (serviceWorkspaceIds db sid) u) = seat_roles db sid u"
  by (auto simp: seats_in_def seat_roles_def set_serviceWorkspaceIds)

lemma untagged_no_roles: "untagged db sid \<Longrightarrow> seat_roles db sid u = {} \<and> grant_roles db sid env u = {}"
  by (auto simp: untagged_def seat_roles_def grant_roles_def covers_def service_shape_of_def)

lemma grantRoleForService_opt_max:
  assumes "env = Some e \<or> env = None \<and> find_service db sid = Some row \<and> svc_environment row = e"
  shows "map_option seat_role_of_grant (grantRoleForService db (grantsForUser db u) sid env)
    = opt_max (grant_roles db sid e u)"
proof -
  have "(seat_role_of_grant \<circ> ag_role) ` set (filter (\<lambda>g. covers g (service_shape_of db sid e)) (grantsForUser db u))
    = grant_roles db sid e u"
    by (auto simp: grant_roles_def)
  then show ?thesis by (simp add: grantRoleForService_eq [OF assms] maxOf_opt_max)
qed

lemma grantRoleForService_None:
  assumes "env = Some e \<or> env = None \<and> find_service db sid = Some row \<and> svc_environment row = e"
  shows "grantRoleForService db (grantsForUser db u) sid env = None \<longleftrightarrow> grant_roles db sid e u = {}"
  using grantRoleForService_opt_max [OF assms, of u] by (metis None_eq_map_option_iff opt_max_empty(2))

lemma serviceRole_effective:
  assumes env: "env = Some e \<or> env = None \<and> find_service db sid = Some row \<and> svc_environment row = e"
  shows "serviceRole db sid owner env user = effective_service_role db sid owner e user"
proof (cases "au_operator user")
  case False
  let ?u = "au_id user"
  let ?S = "seat_roles db sid ?u" and ?G = "grant_roles db sid e ?u"
  let ?seats = "if serviceWorkspaceIds db sid = [] then [] else seats_in db (serviceWorkspaceIds db sid) ?u"
  let ?grant = "grantRoleForService db (grantsForUser db ?u) sid env"
  have seats: "mem_role ` set ?seats = ?S"
    using untagged_no_roles [of db sid ?u] by (auto simp: seats_in_roles untagged_iff)
  have seats_Nil: "?seats = [] \<longleftrightarrow> ?S = {}"
    using seats by (metis image_is_empty set_empty2)
  have seatRole: "maxRole (map (\<lambda>m. (mem_workspace m, mem_role m)) ?seats) = opt_max ?S"
    unfolding maxRole_opt_max seats [symmetric] by (simp add: image_image)
  have grant: "withGrant (opt_max ?S) ?grant = opt_max (?S \<union> ?G)"
    by (rule withGrant_opt_max [OF grantRoleForService_opt_max [OF env]])
  have top: "g \<le> Admin" if "g \<in> ?G" for g
    using that by (auto simp: grant_roles_def grant_at_most_admin)
  have decided: "opt_max ?S = Some Owner \<or> opt_max ?S = Some Admin \<Longrightarrow> opt_max (?S \<union> ?G) = opt_max ?S"
    using opt_max_seat_decides [OF _ _ top] by metis
  show ?thesis
    unfolding serviceRole_def effective_service_role_def Let_def seatRole grant seats_Nil
      grantRoleForService_None [OF env]
    unfolding untagged_iff
    using False decided untagged_no_roles [of db sid ?u e] by auto
qed (simp add: serviceRole_def effective_service_role_def)

lemma effective_service_role_reaches:
  "effective_service_role db sid owner env user \<noteq> None \<longleftrightarrow>
    au_operator user \<or>
    (if untagged db sid then owner = Some (au_id user)
     else seat_roles db sid (au_id user) \<noteq> {} \<or> grant_roles db sid env (au_id user) \<noteq> {})"
  by (auto simp: effective_service_role_def Let_def)

subsection \<open>Services: the loader and the list\<close>

lemma loadServiceForUser_iff:
  assumes "find_service db i = Some svc" and "svc_id svc = i"
  shows "is_ok (loadServiceForUser db i user) \<longleftrightarrow>
    effective_service_role db i (svc_owner svc) (svc_environment svc) user \<noteq> None"
proof -
  have seats: "seats_in db (serviceWorkspaceIds db i) u = [] \<longleftrightarrow> seat_roles db i u = {}" for u
    using seats_in_roles [of db i u] by (metis image_is_empty set_empty2)
  show ?thesis
    unfolding loadServiceForUser_def assms option.case Let_def seats untagged_iff
      grantRoleForService_None [OF disjI1 [OF refl]] effective_service_role_reaches
    using untagged_no_roles [of db i "au_id user" "svc_environment svc"] by auto
qed

lemma loadServiceForUser_value: "loadServiceForUser db i user = Inr svc \<Longrightarrow> find_service db i = Some svc"
  by (auto simp: loadServiceForUser_def Let_def split: option.splits if_splits)

lemma find_service_id: "find_service db i = Some svc \<Longrightarrow> svc_id svc = i \<and> svc \<in> set (services db)"
  by (auto simp: find_service_def dest: find_Some_mem)

lemma visible_owned:
  assumes "wf_db db" and "find_service db i = Some svc"
  shows "i \<in> set (map svc_id (filter (\<lambda>s. svc_owner s = Some u \<and>
      \<not> list_ex (\<lambda>t. fst t = svc_id s) (service_workspaces db)) (services db)))
    \<longleftrightarrow> svc_owner svc = Some u \<and> untagged db i"
proof -
  have tag: "list_ex (\<lambda>t. fst t = k) (service_workspaces db) \<longleftrightarrow> \<not> untagged db k" for k
    by (force simp: list_ex_iff untagged_def)
  have "s \<in> set (services db) \<and> svc_id s = i \<longleftrightarrow> s = svc" for s
    using find_row_iff(2) [OF assms(1), of i s] assms(2) by auto
  then have "(\<exists>s \<in> set (services db). svc_id s = i \<and> svc_owner s = Some u \<and> untagged db (svc_id s))
    \<longleftrightarrow> svc_owner svc = Some u \<and> untagged db i"
    by metis
  then show ?thesis by (auto simp: tag)
qed

lemma visible_tagged:
  "i \<in> set (if userWorkspaceIds db u \<noteq> []
      then map fst (filter (\<lambda>t. snd t \<in> set (userWorkspaceIds db u)) (service_workspaces db)) else [])
    \<longleftrightarrow> seat_roles db i u \<noteq> {}"
proof -
  have "i \<in> set (map fst (filter (\<lambda>t. snd t \<in> set (userWorkspaceIds db u)) (service_workspaces db)))
    \<longleftrightarrow> seat_roles db i u \<noteq> {}"
    by (force simp: userWorkspaceIds_iff isWorkspaceMember_iff seat_roles_def)
  then show ?thesis by (cases "userWorkspaceIds db u = []") auto
qed

lemma visible_covered:
  assumes "wf_db db" and "find_service db i = Some svc"
  shows "i \<in> set (servicesCoveredByGrants db (grantsForUser db u))
    \<longleftrightarrow> grant_roles db i (svc_environment svc) u \<noteq> {}"
  using servicesCoveredByGrants_iff [OF assms, of "grantsForUser db u"] grantsForUser_target [OF assms(1)]
  by (auto simp: grant_roles_def)

lemma visibleServiceIdSet_iff:
  assumes wf: "wf_db db" and row: "find_service db i = Some svc"
  shows "(case visibleServiceIdSet db user of None \<Rightarrow> True | Some S \<Rightarrow> i \<in> S) \<longleftrightarrow>
    effective_service_role db i (svc_owner svc) (svc_environment svc) user \<noteq> None"
proof (cases "au_operator user")
  case False
  then show ?thesis
    unfolding effective_service_role_reaches visibleServiceIdSet_def Let_def
    using visible_owned [OF wf row] visible_tagged [of i db] visible_covered [OF wf row]
      untagged_no_roles [of db i "au_id user" "svc_environment svc"]
    by (simp only: if_False option.case Un_iff) auto
next
  case True
  then show ?thesis unfolding effective_service_role_reaches by (simp add: visibleServiceIdSet_def)
qed

subsection \<open>Projects and databases\<close>

lemma find_seat_None: "find_seat db w u = None \<longleftrightarrow> \<not> isWorkspaceMember db w u"
  by (simp add: isWorkspaceMember_def)

lemma withGrant_None: "withGrant s g = None \<longleftrightarrow> s = None \<and> g = None"
  by (auto simp: withGrant_def split: option.splits)

lemma withGrant_Ex: "(\<exists>y. withGrant s g = Some y) \<longleftrightarrow> s \<noteq> None \<or> g \<noteq> None"
  using withGrant_None [of s g] by auto

lemma withGrant_NoneNone [simp]: "withGrant None None = None"
  by (simp add: withGrant_def)

lemma grantedProjectIds_Nil: "grantedProjectIds gs = [] \<Longrightarrow> projectGrantRole gs (Some p) = None"
  using set_grantedProjectIds [of p gs] by simp

text \<open>Who reaches a project row: a seat in its workspace, or a project grant on it.\<close>

definition reaches_project :: "panel_db \<Rightarrow> int \<Rightarrow> int option \<Rightarrow> authed_user \<Rightarrow> bool" where
  "reaches_project db pid workspace user \<longleftrightarrow>
     au_operator user \<or>
     (\<exists>w. workspace = Some w \<and> (isWorkspaceMember db w (au_id user) \<or>
        projectGrantRole (grantsForUser db (au_id user)) (Some pid) \<noteq> None))"

lemma loadProjectForUser_iff:
  assumes "find_project db i = Some p" and "prj_id p = i"
  shows "is_ok (loadProjectForUser db i user) \<longleftrightarrow> reaches_project db i (prj_workspace p) user"
  unfolding loadProjectForUser_def assms option.case reaches_project_def
  by (auto split: option.splits)

lemma projectRole_iff: "projectRole db pid workspace user \<noteq> None \<longleftrightarrow> reaches_project db pid workspace user"
proof (cases workspace)
  case (Some w)
  have "map_option mem_role (find_seat db w (au_id user)) = None \<longleftrightarrow> \<not> isWorkspaceMember db w (au_id user)"
    by (simp add: find_seat_None)
  then show ?thesis using Some
    by (auto simp: projectRole_def reaches_project_def Let_def withGrant_Ex)
qed (simp add: projectRole_def reaches_project_def)

text \<open>A counting project grant names a project of its own workspace.\<close>

lemma projectGrantRole_workspace:
  assumes "projectGrantRole (grantsForUser db u) (Some p) \<noteq> None"
  shows "\<exists>r w. find_project db p = Some r \<and> prj_workspace r = Some w"
proof -
  obtain g where "g \<in> set (grantsForUser db u)" "ag_project g = Some p"
    using assms unfolding projectGrantRole_None by blast
  then show ?thesis using grantsForUser_project_workspace by blast
qed

lemma projectScopeFilter_iff:
  assumes "find_project db (prj_id p) = Some p"
  shows "scope_admits (projectScopeFilter db user) p \<longleftrightarrow> reaches_project db (prj_id p) (prj_workspace p) user"
proof -
  let ?wids = "userWorkspaceIds db (au_id user)"
  let ?granted = "grantedProjectIds (grantsForUser db (au_id user))"
  have seat: "w \<in> set ?wids \<longleftrightarrow> isWorkspaceMember db w (au_id user)" for w
    by (rule userWorkspaceIds_iff)
  have grant: "prj_id p \<in> set ?granted \<longleftrightarrow>
      projectGrantRole (grantsForUser db (au_id user)) (Some (prj_id p)) \<noteq> None"
    by (rule set_grantedProjectIds)
  have ws: "prj_id p \<in> set ?granted \<Longrightarrow> \<exists>w. prj_workspace p = Some w"
    using projectGrantRole_workspace [of db "au_id user" "prj_id p"] assms unfolding grant by auto
  have "scope_admits (projectScopeFilter db user) p \<longleftrightarrow> au_operator user \<or>
      (\<exists>w. prj_workspace p = Some w \<and> (w \<in> set ?wids \<or> prj_id p \<in> set ?granted))"
    using ws by (auto simp: projectScopeFilter_def Let_def split: option.splits)
  then show ?thesis unfolding reaches_project_def seat grant .
qed

text \<open>Who reaches a database, by the workspace of its project.\<close>

definition reaches_database :: "panel_db \<Rightarrow> int option \<Rightarrow> int option \<Rightarrow> authed_user \<Rightarrow> bool" where
  "reaches_database db owner projectId user \<longleftrightarrow>
     au_operator user \<or>
     (case databaseWorkspaceId db projectId of
        None \<Rightarrow> owner = Some (au_id user)
      | Some w \<Rightarrow> isWorkspaceMember db w (au_id user) \<or>
          projectGrantRole (grantsForUser db (au_id user)) projectId \<noteq> None)"

lemma loadDatabaseForUser_iff:
  assumes "find_database db i = Some d"
  shows "is_ok (loadDatabaseForUser db i user) \<longleftrightarrow> reaches_database db (dbs_owner d) (dbs_project d) user"
  unfolding loadDatabaseForUser_def assms option.case reaches_database_def
  by (auto split: option.splits)

lemma databaseRole_iff:
  "databaseRole db owner projectId user \<noteq> None \<longleftrightarrow> reaches_database db owner projectId user"
proof (cases "databaseWorkspaceId db projectId")
  case (Some w)
  have "map_option mem_role (find_seat db w (au_id user)) = None \<longleftrightarrow> \<not> isWorkspaceMember db w (au_id user)"
    "find_seat db w (au_id user) = None \<longleftrightarrow> \<not> isWorkspaceMember db w (au_id user)"
    by (simp_all add: find_seat_None)
  then show ?thesis using Some
    by (auto simp: databaseRole_def reaches_database_def Let_def withGrant_Ex)
qed (auto simp: databaseRole_def reaches_database_def)

lemma databaseWorkspaceId_grant:
  assumes "projectGrantRole (grantsForUser db u) projectId \<noteq> None"
  shows "databaseWorkspaceId db projectId \<noteq> None"
proof (cases projectId)
  case None
  then show ?thesis using assms by (simp add: projectGrantRole_def)
next
  case (Some p)
  then show ?thesis using projectGrantRole_workspace [of db u p] assms
    by (auto simp: databaseWorkspaceId_def)
qed

lemma visibleDatabaseIds_iff:
  assumes wf: "wf_db db" and row: "find_database db i = Some d"
  shows "(case visibleDatabaseIds db user of None \<Rightarrow> True | Some S \<Rightarrow> i \<in> S) \<longleftrightarrow>
    reaches_database db (dbs_owner d) (dbs_project d) user"
proof (cases "au_operator user")
  case False
  let ?u = "au_id user"
  have d: "r \<in> set (databases db) \<and> dbs_id r = i \<longleftrightarrow> r = d" for r
    using find_row_iff(4) [OF wf, of i r] row by auto
  then have sel: "i \<in> set (map dbs_id (filter P (databases db))) \<longleftrightarrow> P d" for P
    by (force simp: image_iff)
  have tagged: "i \<in> set (if userWorkspaceIds db ?u \<noteq> []
      then map dbs_id (filter (\<lambda>d. case databaseWorkspaceId db (dbs_project d) of
          None \<Rightarrow> False | Some w \<Rightarrow> w \<in> set (userWorkspaceIds db ?u)) (databases db)) else []) \<longleftrightarrow>
      (\<exists>w. databaseWorkspaceId db (dbs_project d) = Some w \<and> isWorkspaceMember db w ?u)"
    unfolding if_distrib [of set] if_distrib [of "\<lambda>S. i \<in> S"] sel
    by (auto simp: userWorkspaceIds_iff [symmetric] split: option.splits)
  have granted: "i \<in> set (if grantedProjectIds (grantsForUser db ?u) \<noteq> []
      then map dbs_id (filter (\<lambda>d. case dbs_project d of
          None \<Rightarrow> False | Some p \<Rightarrow> p \<in> set (grantedProjectIds (grantsForUser db ?u))) (databases db)) else []) \<longleftrightarrow>
      projectGrantRole (grantsForUser db ?u) (dbs_project d) \<noteq> None"
    unfolding if_distrib [of set] if_distrib [of "\<lambda>S. i \<in> S"] sel
    by (cases "dbs_project d") (auto simp: set_grantedProjectIds grantedProjectIds_Nil projectGrantRole_def [of _ None])
  show ?thesis
    unfolding visibleDatabaseIds_def Let_def reaches_database_def
    using False databaseWorkspaceId_grant [of db ?u "dbs_project d"]
    by (simp only: if_False option.case Un_iff sel tagged granted) (auto split: option.splits)
next
  case True
  then show ?thesis by (simp add: visibleDatabaseIds_def reaches_database_def)
qed

subsection \<open>The contract of a guarded resource kind\<close>

definition permits :: "workspace_role option \<Rightarrow> workspace_role \<Rightarrow> bool" where
  "permits actual required \<longleftrightarrow> (case actual of None \<Rightarrow> False | Some r \<Rightarrow> roleAtLeast r required)"

locale resource_authority =
  fixes valid :: "'c \<Rightarrow> bool"
    and opens :: "'c \<Rightarrow> authed_user \<Rightarrow> bool"
    and listed :: "'c \<Rightarrow> authed_user \<Rightarrow> bool"
    and role :: "'c \<Rightarrow> authed_user \<Rightarrow> workspace_role option"
  assumes listed_iff: "valid c \<Longrightarrow> listed c u \<longleftrightarrow> opens c u"
    and role_iff: "valid c \<Longrightarrow> role c u \<noteq> None \<longleftrightarrow> opens c u"
    and operator_owner: "valid c \<Longrightarrow> au_operator u \<Longrightarrow> role c u = Some Owner"
begin

lemma permits_antimono: "permits (role c u) r \<Longrightarrow> r' \<le> r \<Longrightarrow> permits (role c u) r'"
  by (auto simp: permits_def roleAtLeast_le split: option.splits)

lemma viewer_permits: "valid c \<Longrightarrow> permits (role c u) Viewer \<longleftrightarrow> opens c u"
  using role_iff [of c u] by (auto simp: permits_def roleAtLeast_le split: option.splits)

lemma permits_opens: "valid c \<Longrightarrow> permits (role c u) r \<Longrightarrow> opens c u"
  using permits_antimono [of c u r Viewer] viewer_permits by simp

lemma permits_listed: "valid c \<Longrightarrow> permits (role c u) r \<Longrightarrow> listed c u"
  using permits_opens listed_iff by blast

lemma operator_permits: "valid c \<Longrightarrow> au_operator u \<Longrightarrow> permits (role c u) r"
  by (simp add: operator_owner permits_def roleAtLeast_le)

lemma unlisted_no_role: "valid c \<Longrightarrow> \<not> listed c u \<Longrightarrow> role c u = None"
  using role_iff listed_iff by blast

lemma agreement: "valid c \<Longrightarrow> (opens c u \<longleftrightarrow> listed c u) \<and> (opens c u \<longleftrightarrow> role c u \<noteq> None)"
  using role_iff listed_iff by blast

end

definition valid_service :: "panel_db \<times> service_row \<Rightarrow> bool" where
  "valid_service c \<longleftrightarrow> wf_db (fst c) \<and> snd c \<in> set (services (fst c))"

definition valid_project :: "panel_db \<times> project_row \<Rightarrow> bool" where
  "valid_project c \<longleftrightarrow> wf_db (fst c) \<and> snd c \<in> set (projects (fst c))"

definition valid_database :: "panel_db \<times> database_row \<Rightarrow> bool" where
  "valid_database c \<longleftrightarrow> wf_db (fst c) \<and> snd c \<in> set (databases (fst c))"

lemma validD:
  "valid_service (db, svc) \<Longrightarrow> wf_db db \<and> find_service db (svc_id svc) = Some svc"
  "valid_project (db, p) \<Longrightarrow> wf_db db \<and> find_project db (prj_id p) = Some p"
  "valid_database (db, d) \<Longrightarrow> wf_db db \<and> find_database db (dbs_id d) = Some d"
  by (simp_all add: valid_service_def valid_project_def valid_database_def find_row_iff)

interpretation service: resource_authority valid_service
  "\<lambda>(db, svc) u. is_ok (loadServiceForUser db (svc_id svc) u)"
  "\<lambda>(db, svc) u. case visibleServiceIdSet db u of None \<Rightarrow> True | Some S \<Rightarrow> svc_id svc \<in> S"
  "\<lambda>(db, svc) u. serviceRole db (svc_id svc) (svc_owner svc) (Some (svc_environment svc)) u"
proof (unfold_locales, goal_cases)
  case (1 c u)
  obtain db svc where c: "c = (db, svc)" by (cases c)
  from 1 validD(1) [of db svc] show ?case
    unfolding c prod.case by (simp only: visibleServiceIdSet_iff loadServiceForUser_iff)
next
  case (2 c u)
  obtain db svc where c: "c = (db, svc)" by (cases c)
  from 2 validD(1) [of db svc] show ?case
    unfolding c prod.case by (simp only: serviceRole_effective [OF disjI1 [OF refl]] loadServiceForUser_iff)
next
  case (3 c u)
  then show ?case by (cases c) (simp add: serviceRole_def)
qed

interpretation project: resource_authority valid_project
  "\<lambda>(db, p) u. is_ok (loadProjectForUser db (prj_id p) u)"
  "\<lambda>(db, p) u. scope_admits (projectScopeFilter db u) p"
  "\<lambda>(db, p) u. projectRole db (prj_id p) (prj_workspace p) u"
proof (unfold_locales, goal_cases)
  case (1 c u)
  then show ?case by (cases c) (auto dest!: validD(2) simp: projectScopeFilter_iff loadProjectForUser_iff)
next
  case (2 c u)
  obtain db p where c: "c = (db, p)" by (cases c)
  from 2 validD(2) [of db p] show ?case
    unfolding c prod.case by (simp only: projectRole_iff loadProjectForUser_iff)
next
  case (3 c u)
  then show ?case by (cases c) (simp add: projectRole_def)
qed

interpretation database: resource_authority valid_database
  "\<lambda>(db, d) u. is_ok (loadDatabaseForUser db (dbs_id d) u)"
  "\<lambda>(db, d) u. case visibleDatabaseIds db u of None \<Rightarrow> True | Some S \<Rightarrow> dbs_id d \<in> S"
  "\<lambda>(db, d) u. databaseRole db (dbs_owner d) (dbs_project d) u"
proof (unfold_locales, goal_cases)
  case (1 c u)
  obtain db d where c: "c = (db, d)" by (cases c)
  from 1 validD(3) [of db d] show ?case
    unfolding c prod.case by (simp only: visibleDatabaseIds_iff loadDatabaseForUser_iff)
next
  case (2 c u)
  obtain db d where c: "c = (db, d)" by (cases c)
  from 2 validD(3) [of db d] show ?case
    unfolding c prod.case by (simp only: databaseRole_iff loadDatabaseForUser_iff)
next
  case (3 c u)
  then show ?case by (cases c) (simp add: databaseRole_def)
qed

end
