(* ===== verification/AccessProperties.thy ===== *)
theory AccessProperties
  imports AccessSpec
begin

text \<open>
  The properties of the authorization choke-point, each a few steps over the library of
  \<open>AccessSpec\<close>, with a sample panel that shows their hypotheses can hold.
\<close>

subsection \<open>A sample panel\<close>

text \<open>
  Workspace 1 holds user 10 (member); user 11 is a guest with a project grant; user 13
  created service 100 and then left workspace 1.
\<close>

definition sample_db :: panel_db where
  "sample_db = \<lparr>
     users = [\<lparr>usr_id = 10, usr_operator = False, usr_deactivated = None, usr_deactivated_by = None\<rparr>,
              \<lparr>usr_id = 11, usr_operator = False, usr_deactivated = None, usr_deactivated_by = None\<rparr>,
              \<lparr>usr_id = 13, usr_operator = False, usr_deactivated = None, usr_deactivated_by = None\<rparr>],
     members = [\<lparr>mem_workspace = 1, mem_user = 10, mem_role = Member\<rparr>],
     services = [\<lparr>svc_id = 100, svc_owner = Some 13, svc_environment = None,
                  svc_preview_parent = None, svc_from_fork = False, svc_type = ''docker'',
                  svc_docker_socket = False, svc_server = None\<rparr>],
     projects = [\<lparr>prj_id = 50, prj_workspace = Some 1\<rparr>],
     databases = [\<lparr>dbs_id = 70, dbs_owner = None, dbs_project = Some 50\<rparr>],
     environments = [],
     service_workspaces = [(100, 1)],
     service_projects = [(100, 50)],
     access_grants = [\<lparr>grt_id = 1, grt_workspace = 1, grt_user = 11, grt_project = Some 50,
                       grt_environment = None, grt_role = ''admin'', grt_suspended = None,
                       grt_updated = 0\<rparr>],
     workspaces = [1]\<rparr>"

definition sample_service :: service_row where
  "sample_service = \<lparr>svc_id = 100, svc_owner = Some 13, svc_environment = None,
     svc_preview_parent = None, svc_from_fork = False, svc_type = ''docker'',
     svc_docker_socket = False, svc_server = None\<rparr>"

definition sample_user :: "int \<Rightarrow> authed_user" where
  "sample_user i = \<lparr>au_id = i, au_operator = False\<rparr>"

lemmas sample_defs = sample_db_def sample_service_def sample_user_def

lemma sample_wf: "wf_db sample_db"
  by (simp add: wf_db_def sample_defs)

lemma sample_service_mem: "sample_service \<in> set (services sample_db)"
  by (simp add: sample_defs)

subsection \<open>Services\<close>

lemma assertServiceRole_permits:
  "is_ok (assertServiceRole db sid owner env user r) \<longleftrightarrow> permits (serviceRole db sid owner env user) r"
  by (auto simp: assertServiceRole_def permits_def Let_def split: option.splits)

text \<open>
  Claim C1. For a stored service the loader, the list query and the role resolver give one
  answer: the row opens for exactly the callers whose list shows it and who hold a role on it.
  The list is computed from ownership, tags and an enumeration of grants, the loader from the
  row, so this is the agreement the three call sites of the source once lacked.
\<close>

theorem service_access_agrees:
  assumes "wf_db db" and "svc \<in> set (services db)"
  shows "(is_ok (loadServiceForUser db (svc_id svc) user) \<longleftrightarrow>
      (case visibleServiceIdSet db user of None \<Rightarrow> True | Some S \<Rightarrow> svc_id svc \<in> S)) \<and>
    (is_ok (loadServiceForUser db (svc_id svc) user) \<longleftrightarrow>
      serviceRole db (svc_id svc) (svc_owner svc) (Some (svc_environment svc)) user \<noteq> None)"
proof -
  have "valid_service (db, svc)" using assms by (simp add: valid_service_def)
  from service.agreement [OF this, of user] show ?thesis unfolding prod.case .
qed

theorem service_access_agrees_witness:
  "is_ok (loadServiceForUser sample_db 100 (sample_user 11)) \<and>
   100 \<in> the (visibleServiceIdSet sample_db (sample_user 11))"
proof -
  have "is_ok (loadServiceForUser sample_db 100 (sample_user 11))"
    by (simp add: loadServiceForUser_def find_service_def serviceWorkspaceIds_def seats_in_def
      grantRoleForService_def grantsForUser_def List.map_filter_def grant_counts_def find_user_def
      find_project_def active_of_def grant_role_of_text_def covers_def sample_defs)
  moreover obtain S where "visibleServiceIdSet sample_db (sample_user 11) = Some S"
    by (simp add: visibleServiceIdSet_def sample_user_def Let_def)
  ultimately show ?thesis
    using service_access_agrees [OF sample_wf sample_service_mem, of "sample_user 11"]
    by (simp add: sample_service_def)
qed

text \<open>
  Claim C9. The role the code resolves through its early returns is the specified one: owner for
  operators, for the creator of an untagged service and for a creator who still holds a seat or
  a covering grant; otherwise the maximum over all seats where the service is tagged and all
  counting grants that cover it.
\<close>

theorem service_role_is_effective:
  "serviceRole db sid owner (Some env) user = effective_service_role db sid owner env user"
  by (rule serviceRole_effective [OF disjI1 [OF refl]])

lemma grantsForUser_more:
  "set (grantsForUser db u) \<subseteq> set (grantsForUser (db\<lparr>access_grants := access_grants db @ gs\<rparr>) u)"
proof -
  have "grant_counts (db\<lparr>access_grants := access_grants db @ gs\<rparr>) u = grant_counts db u"
    by (simp add: fun_eq_iff grant_counts_def cong: option.case_cong)
  then show ?thesis by (auto simp: grantsForUser_mem)
qed

text \<open>
  Grants are raise-only: adding any grant rows never lowers the role a caller resolves
  on a service (no role being below every role).
\<close>

theorem grants_only_raise:
  "serviceRole db sid owner (Some env) user
    \<le> serviceRole (db\<lparr>access_grants := access_grants db @ gs\<rparr>) sid owner (Some env) user"
proof -
  let ?db = "db\<lparr>access_grants := access_grants db @ gs\<rparr>" and ?u = "au_id user"
  have seats: "seat_roles ?db sid ?u = seat_roles db sid ?u" "untagged ?db sid = untagged db sid"
    by (simp_all add: seat_roles_def untagged_def)
  have "service_shape_of ?db sid env = service_shape_of db sid env"
    by (simp add: service_shape_of_def)
  then have grants: "grant_roles db sid env ?u \<subseteq> grant_roles ?db sid env ?u"
    using grantsForUser_more [of db ?u gs] by (auto simp: grant_roles_def)
  have "opt_max (seat_roles db sid ?u \<union> grant_roles db sid env ?u)
      \<le> opt_max (seat_roles db sid ?u \<union> grant_roles ?db sid env ?u)"
    using grants by (intro opt_max_mono) auto
  moreover have "r \<le> Some Owner" for r :: "workspace_role option"
    by (cases r) simp_all
  ultimately show ?thesis
    unfolding serviceRole_effective [OF disjI1 [OF refl]]
    using grants by (auto simp: effective_service_role_def Let_def seats)
qed

text \<open>
  Tenant isolation and offboarding: a caller who is not an operator and who has neither
  a seat in a workspace the service is tagged into nor a grant issued in one of them is refused
  with a plain 404 and holds no role, even as the service's creator.
\<close>

theorem no_seat_no_grant_no_access:
  assumes "\<not> au_operator user"
    and "(i, w) \<in> set (service_workspaces db)"
    and "\<forall>m \<in> set (members db). mem_user m = au_id user \<longrightarrow> (i, mem_workspace m) \<notin> set (service_workspaces db)"
    and "\<forall>g \<in> set (access_grants db). grt_user g = au_id user \<longrightarrow> (i, grt_workspace g) \<notin> set (service_workspaces db)"
  shows "loadServiceForUser db i user = Inl (notFound ''Service not found'') \<and>
    serviceRole db i owner (Some env) user = None"
proof -
  have tagged: "\<not> untagged db i" using assms(2) by (auto simp: untagged_def)
  have seats: "seat_roles db i (au_id user) = {}" using assms(3) by (auto simp: seat_roles_def)
  have "\<not> covers a (service_shape_of db i e)" if a: "a \<in> set (grantsForUser db (au_id user))" for a e
  proof -
    obtain g where g: "g \<in> set (access_grants db)" "grant_counts db (au_id user) g" "active_of g = Some a"
      using a by (rule grantsForUserE)
    then have "(i, ag_workspace a) \<notin> set (service_workspaces db)"
      using assms(4) active_of_fields(3) [OF g(3)] by (auto simp: grant_counts_def)
    then show ?thesis by (simp add: covers_def service_shape_of_def)
  qed
  then have grants: "grant_roles db i e (au_id user) = {}" for e
    by (auto simp: grant_roles_def)
  have none: "effective_service_role db i own e user = None" for own e
    using assms(1) tagged seats grants by (simp add: effective_service_role_def)
  have refused: "\<not> is_ok (loadServiceForUser db i user)"
  proof (cases "find_service db i")
    case (Some svc)
    then show ?thesis using loadServiceForUser_iff [OF Some] find_service_id [OF Some] none by simp
  qed (simp add: loadServiceForUser_def)
  then have "loadServiceForUser db i user = Inl (notFound ''Service not found'')"
    by (auto simp: loadServiceForUser_def Let_def is_ok_def split: option.splits if_splits)
  then show ?thesis using none serviceRole_effective [OF disjI1 [OF refl]] by simp
qed

theorem no_seat_no_grant_no_access_witness:
  "loadServiceForUser sample_db 100 (sample_user 13) = Inl (notFound ''Service not found'') \<and>
   serviceRole sample_db 100 (Some 13) (Some None) (sample_user 13) = None"
  by (rule no_seat_no_grant_no_access [where w = 1]) (simp_all add: sample_defs)

text \<open>
  A role assertion that passes has the weaker ones pass too and implies that the row
  opens and is listed: no write gate lets through a caller the read path would not.
\<close>

theorem asserted_role_opens_service:
  assumes "wf_db db" and "svc \<in> set (services db)"
    and "is_ok (assertServiceRole db (svc_id svc) (svc_owner svc) (Some (svc_environment svc)) user r)"
    and "r' \<le> r"
  shows "is_ok (assertServiceRole db (svc_id svc) (svc_owner svc) (Some (svc_environment svc)) user r') \<and>
    is_ok (loadServiceForUser db (svc_id svc) user)"
  using assms(3,4) service.permits_antimono [of "(db, svc)" user r r']
    service.permits_opens [of "(db, svc)" user r] assms(1,2)
  by (simp_all add: assertServiceRole_permits valid_service_def)

theorem asserted_role_opens_service_witness:
  "is_ok (loadServiceForUser sample_db 100 (sample_user 10)) \<and> (Viewer \<le> Member)"
proof -
  have "is_ok (assertServiceRole sample_db 100 (Some 13) (Some None) (sample_user 10) Member)"
    by (simp add: assertServiceRole_permits permits_def serviceRole_def serviceWorkspaceIds_def
      seats_in_def maxRole_def roleAtLeast_def grantRoleForService_def grantsForUser_def
      List.map_filter_def grant_counts_def withGrant_def sample_defs)
  then show ?thesis
    using asserted_role_opens_service [OF sample_wf sample_service_mem, of "sample_user 10" Member Viewer]
    by (simp add: sample_service_def)
qed

subsection \<open>Projects and databases\<close>

text \<open>
  For a stored project, the loader, the query predicate and the role resolver agree,
  including a project outside every workspace, which only operators reach.
\<close>

theorem project_access_agrees:
  assumes "wf_db db" and "p \<in> set (projects db)"
  shows "(is_ok (loadProjectForUser db (prj_id p) user) \<longleftrightarrow> scope_admits (projectScopeFilter db user) p) \<and>
    (is_ok (loadProjectForUser db (prj_id p) user) \<longleftrightarrow>
      projectRole db (prj_id p) (prj_workspace p) user \<noteq> None)"
proof -
  have "valid_project (db, p)" using assms by (simp add: valid_project_def)
  from project.agreement [OF this, of user] show ?thesis unfolding prod.case .
qed

theorem project_access_agrees_witness:
  "scope_admits (projectScopeFilter sample_db (sample_user 11)) \<lparr>prj_id = 50, prj_workspace = Some 1\<rparr>"
proof -
  let ?p = "\<lparr>prj_id = 50, prj_workspace = Some 1\<rparr>"
  have "?p \<in> set (projects sample_db)" by (simp add: sample_defs)
  moreover have "is_ok (loadProjectForUser sample_db 50 (sample_user 11))"
    by (simp add: loadProjectForUser_def find_project_def isWorkspaceMember_def find_seat_def
      projectGrantRole_def grantsForUser_def List.map_filter_def grant_counts_def find_user_def
      active_of_def grant_role_of_text_def sample_defs)
  ultimately show ?thesis
    using project_access_agrees [OF sample_wf, of ?p "sample_user 11"] by simp
qed

text \<open>
  For a stored database, the loader, the list query and the role resolver agree; a
  database inside a workspace needs a seat or a project grant there, one outside every
  workspace its creator.
\<close>

theorem database_access_agrees:
  assumes "wf_db db" and "d \<in> set (databases db)"
  shows "(is_ok (loadDatabaseForUser db (dbs_id d) user) \<longleftrightarrow>
      (case visibleDatabaseIds db user of None \<Rightarrow> True | Some S \<Rightarrow> dbs_id d \<in> S)) \<and>
    (is_ok (loadDatabaseForUser db (dbs_id d) user) \<longleftrightarrow>
      databaseRole db (dbs_owner d) (dbs_project d) user \<noteq> None)"
proof -
  have "valid_database (db, d)" using assms by (simp add: valid_database_def)
  from database.agreement [OF this, of user] show ?thesis unfolding prod.case .
qed

theorem database_access_agrees_witness:
  "70 \<in> the (visibleDatabaseIds sample_db (sample_user 10))"
proof -
  let ?d = "\<lparr>dbs_id = 70, dbs_owner = None, dbs_project = Some 50\<rparr>"
  obtain S where listed: "visibleDatabaseIds sample_db (sample_user 10) = Some S"
    by (simp add: visibleDatabaseIds_def sample_user_def Let_def)
  have "?d \<in> set (databases sample_db)" by (simp add: sample_defs)
  moreover have "is_ok (loadDatabaseForUser sample_db 70 (sample_user 10))"
    by (simp add: loadDatabaseForUser_def find_database_def databaseWorkspaceId_def find_project_def
      isWorkspaceMember_def find_seat_def sample_defs)
  ultimately show ?thesis
    using database_access_agrees [OF sample_wf, of ?d "sample_user 10"] listed by simp
qed

text \<open>
  Refusals do not reveal existence: whatever error the access prehandler answers for
  an id, it answers the same on a panel that has no resources at all.
\<close>

theorem refusals_hide_existence:
  assumes "requireAccess db kind raw user = Inl e"
  shows "requireAccess (db\<lparr>services := [], projects := [], databases := []\<rparr>) kind raw user = Inl e"
proof -
  have svc: "loadServiceForUser db i user = Inl e \<Longrightarrow> e = notFound ''Service not found''" for i
    by (auto simp: loadServiceForUser_def Let_def split: option.splits if_splits)
  have prj: "loadProjectForUser db i user = Inl e \<Longrightarrow> e = notFound ''Project not found''" for i
    by (auto simp: loadProjectForUser_def split: option.splits if_splits)
  have dbs: "loadDatabaseForUser db i user = Inl e \<Longrightarrow> e = notFound ''Database not found''" for i
    by (auto simp: loadDatabaseForUser_def split: option.splits if_splits)
  have dispatch: "requireResourceAccess (db\<lparr>services := [], projects := [], databases := []\<rparr>) kind i user = Inl e"
    if "requireResourceAccess db kind i user = Inl e" for i
    using that svc [of i] prj [of i] dbs [of i]
    by (cases kind) (auto simp: loadServiceForUser_def [of "db\<lparr>services := [], projects := [], databases := []\<rparr>"]
      loadProjectForUser_def [of "db\<lparr>services := [], projects := [], databases := []\<rparr>"]
      loadDatabaseForUser_def [of "db\<lparr>services := [], projects := [], databases := []\<rparr>"]
      find_row_defs map_sum_def split: sum.splits)
  show ?thesis
  proof (cases raw)
    case (Some r)
    then show ?thesis
    proof (cases "parseId r ''Invalid id parameter''")
      case (Inr n)
      then have "requireResourceAccess db kind (int n) user = Inl e"
        using assms Some by (cases "requireResourceAccess db kind (int n) user") (auto simp: requireAccess_def)
      then show ?thesis using dispatch Some Inr by (simp add: requireAccess_def)
    qed (use assms Some in \<open>simp add: requireAccess_def\<close>)
  qed (use assms in \<open>simp add: requireAccess_def\<close>)
qed

theorem refusals_hide_existence_witness:
  "requireAccess (sample_db\<lparr>services := [], projects := [], databases := []\<rparr>) KService (Some ''100'')
     (sample_user 13) = Inl (notFound ''Service not found'')"
proof (rule refusals_hide_existence)
  have "parseId ''100'' ''Invalid id parameter'' = Inr 100"
    by (simp add: parseId_def is_digit_def decimal_value_def digit_val_def max_safe_integer_def Let_def)
  moreover have "loadServiceForUser sample_db 100 (sample_user 13) = Inl (notFound ''Service not found'')"
    by (simp add: loadServiceForUser_def find_service_def serviceWorkspaceIds_def seats_in_def
      grantRoleForService_def grantsForUser_def List.map_filter_def grant_counts_def sample_defs)
  ultimately show "requireAccess sample_db KService (Some ''100'') (sample_user 13)
      = Inl (notFound ''Service not found'')"
    by (simp add: requireAccess_def)
qed

end
