(* ===== verification/GrantHolds.thy ===== *)
theory GrantHolds
  imports AccessGrants
begin

text \<open>
  The life of an access grant: the lifecycle half of \<open>apps/server/src/lib/accessGrants.ts\<close>
  (suspension by the identity provider, holds by workspace admins, removals) and the routes
  of \<open>modules/accessGrants.ts\<close> that change a grant. The hold lists are settings rows; a
  settings value is the JSON value \<open>getSettingJson\<close> yields. Object keys of the hold rows are
  \<open>String(userId)\<close>; they are kept here as the user id itself.
\<close>

subsection \<open>Settings rows and hold lists\<close>

datatype json = JNull | JBool bool | JNum int | JFraction | JStr string | JArr "json list"
  | JObj "(int \<times> json) list"

datatype hold_key = IdpHold int | AdminHold int | SuspendedSeats int

record grant_store =
  gst_db :: panel_db
  gst_settings :: "(hold_key \<times> json) list"
  gst_next :: int

definition getSettingJson :: "grant_store \<Rightarrow> hold_key \<Rightarrow> json \<Rightarrow> json" where
  "getSettingJson st key fallback =
     (case map_of (gst_settings st) key of
        None \<Rightarrow> fallback
      | Some v \<Rightarrow> if v = JNull then fallback else v)"

definition setSettingJson :: "hold_key \<Rightarrow> json \<Rightarrow> grant_store \<Rightarrow> grant_store" where
  "setSettingJson key v st = st\<lparr>gst_settings := AList.update key v (gst_settings st)\<rparr>"

definition intList :: "json \<Rightarrow> int list" where
  "intList v = (case v of JArr xs \<Rightarrow>
       List.map_filter (\<lambda>x. case x of JNum n \<Rightarrow> Some n | _ \<Rightarrow> None) xs
     | _ \<Rightarrow> [])"

definition ids_json :: "int list \<Rightarrow> json" where
  "ids_json xs = JArr (map JNum xs)"

definition readIdpHolds :: "grant_store \<Rightarrow> int \<Rightarrow> (int \<times> json) list" where
  "readIdpHolds st workspaceId =
     (case getSettingJson st (IdpHold workspaceId) (JObj []) of JObj all \<Rightarrow> all | _ \<Rightarrow> [])"

definition writeIdpHolds :: "int \<Rightarrow> int \<Rightarrow> int list \<Rightarrow> grant_store \<Rightarrow> grant_store" where
  "writeIdpHolds workspaceId userId grantIds st =
     (let all = readIdpHolds st workspaceId;
          all' = (if grantIds \<noteq> [] then AList.update userId (ids_json grantIds) all
                  else AList.delete userId all)
      in setSettingJson (IdpHold workspaceId) (JObj all') st)"

definition idpHeldGrantIds :: "grant_store \<Rightarrow> int \<Rightarrow> int \<Rightarrow> int list" where
  "idpHeldGrantIds st workspaceId userId =
     (case map_of (readIdpHolds st workspaceId) userId of None \<Rightarrow> [] | Some v \<Rightarrow> intList v)"

definition adminHeldGrantIds :: "grant_store \<Rightarrow> int \<Rightarrow> int list" where
  "adminHeldGrantIds st workspaceId = intList (getSettingJson st (AdminHold workspaceId) (JArr []))"

definition addAdminHold :: "int \<Rightarrow> int \<Rightarrow> grant_store \<Rightarrow> bool \<times> grant_store" where
  "addAdminHold workspaceId grantId st =
     (let held = adminHeldGrantIds st workspaceId in
      if grantId \<in> set held then (False, st)
      else (True, setSettingJson (AdminHold workspaceId) (ids_json (held @ [grantId])) st))"

definition releaseAdminHolds :: "int \<Rightarrow> int list \<Rightarrow> grant_store \<Rightarrow> int list \<times> grant_store" where
  "releaseAdminHolds workspaceId grantIds st =
     (let held = adminHeldGrantIds st workspaceId;
          released = filter (\<lambda>i. i \<in> set grantIds) held
      in (released,
          if released \<noteq> []
          then setSettingJson (AdminHold workspaceId)
                 (ids_json (filter (\<lambda>i. i \<notin> set grantIds) held)) st
          else st))"

subsection \<open>Lifecycle operations\<close>

definition grants_of :: "grant_store \<Rightarrow> grant_row list" where
  "grants_of st = access_grants (gst_db st)"

definition set_grants :: "grant_row list \<Rightarrow> grant_store \<Rightarrow> grant_store" where
  "set_grants gs st = st\<lparr>gst_db := (gst_db st)\<lparr>access_grants := gs\<rparr>\<rparr>"

definition deleteGrantsForMember :: "int \<Rightarrow> int \<Rightarrow> grant_store \<Rightarrow> nat \<times> grant_store" where
  "deleteGrantsForMember workspaceId userId st =
     (let hit = (\<lambda>g. grt_workspace g = workspaceId \<and> grt_user g = userId);
          gone = map grt_id (filter hit (grants_of st));
          st1 = set_grants (filter (\<lambda>g. \<not> hit g) (grants_of st)) st
      in (length gone, if gone \<noteq> [] then snd (releaseAdminHolds workspaceId gone st1) else st1))"

definition suspendGrantsForMember :: "ms \<Rightarrow> int \<Rightarrow> int \<Rightarrow> grant_store \<Rightarrow> nat \<times> grant_store" where
  "suspendGrantsForMember now workspaceId userId st =
     (let all = map grt_id (filter (\<lambda>g. grt_workspace g = workspaceId \<and> grt_user g = userId)
                  (grants_of st));
          before = idpHeldGrantIds st workspaceId userId;
          added = filter (\<lambda>i. i \<notin> set before) all
      in if added = [] then (0, st)
         else (length added,
           set_grants (map (\<lambda>g. if grt_id g \<in> set added \<and> grt_suspended g = None
               then g\<lparr>grt_suspended := Some now, grt_updated := now\<rparr> else g) (grants_of st))
             (writeIdpHolds workspaceId userId (before @ added) st)))"

definition reinstateGrantsForMember :: "ms \<Rightarrow> int \<Rightarrow> int \<Rightarrow> grant_store \<Rightarrow> nat \<times> grant_store" where
  "reinstateGrantsForMember now workspaceId userId st =
     (let held = idpHeldGrantIds st workspaceId userId in
      if held = [] then (0, st)
      else
        let st1 = writeIdpHolds workspaceId userId [] st;
            adminHeld = adminHeldGrantIds st1 workspaceId;
            lift = filter (\<lambda>i. i \<notin> set adminHeld) held;
            hit = (\<lambda>g. grt_workspace g = workspaceId \<and> grt_user g = userId \<and> grt_id g \<in> set lift \<and>
                  grt_suspended g \<noteq> None)
        in if lift = [] then (0, st1)
           else (length (filter hit (grants_of st1)),
             set_grants (map (\<lambda>g. if hit g then g\<lparr>grt_suspended := None, grt_updated := now\<rparr> else g)
               (grants_of st1)) st1))"

definition deleteGrantsForProject :: "int \<Rightarrow> grant_store \<Rightarrow> nat \<times> grant_store" where
  "deleteGrantsForProject projectId st =
     (length (filter (\<lambda>g. grt_project g = Some projectId) (grants_of st)),
      set_grants (filter (\<lambda>g. grt_project g \<noteq> Some projectId) (grants_of st)) st)"

subsection \<open>The grant routes\<close>

definition isScimSuspendedIn :: "grant_store \<Rightarrow> int \<Rightarrow> int \<Rightarrow> bool" where
  "isScimSuspendedIn st userId workspaceId =
     (if (case getSettingJson st (SuspendedSeats workspaceId) (JObj []) of
            JObj seats \<Rightarrow> (case map_of seats userId of
               Some (JStr role) \<Rightarrow> role \<in> {''owner'', ''admin'', ''member'', ''viewer''}
             | _ \<Rightarrow> False)
          | _ \<Rightarrow> False) then True
      else (case find_user (gst_db st) userId of
              None \<Rightarrow> False
            | Some u \<Rightarrow> usr_deactivated u \<noteq> None \<and> usr_deactivated_by u = Some workspaceId))"

definition grantingRights :: "panel_db \<Rightarrow> int \<Rightarrow> authed_user \<Rightarrow> grant_role outcome" where
  "grantingRights db workspaceId user =
     (if workspaceId \<notin> set (workspaces db) then Inl (notFound ''Workspace not found'')
      else if au_operator user then Inr GAdmin
      else case find_seat db workspaceId (au_id user) of
        None \<Rightarrow> Inl (notFound ''Workspace not found'')
      | Some seat \<Rightarrow>
          if \<not> roleAtLeast (mem_role seat) Admin
          then Inl (forbidden ''Admin or Owner role required to manage access grants'')
          else Inr GAdmin)"

definition grant_role_name :: "grant_role \<Rightarrow> string" where
  "grant_role_name r = role_name (seat_role_of_grant r)"

text \<open>The role text of a stored row is compared by its rank; an unknown text never exceeds.\<close>

definition text_exceeds :: "string \<Rightarrow> grant_role \<Rightarrow> bool" where
  "text_exceeds r cap = (case grant_role_of_text r of None \<Rightarrow> False | Some x \<Rightarrow> grant_rank x > grant_rank cap)"

definition assertWithinCap :: "string \<Rightarrow> grant_role \<Rightarrow> unit outcome" where
  "assertWithinCap r cap =
     (if text_exceeds r cap
      then Inl \<lparr>statusCode = 403, errCode = ''grant_exceeds_role'',
        errMessage = ''You can grant at most the '' @ [CHR 0x22] @ grant_role_name cap @ [CHR 0x22] @ '' role''\<rparr>
      else Inr ())"

definition loadGrant :: "panel_db \<Rightarrow> int \<Rightarrow> int \<Rightarrow> grant_row outcome" where
  "loadGrant db workspaceId grantId =
     (case List.find (\<lambda>g. grt_id g = grantId \<and> grt_workspace g = workspaceId) (access_grants db) of
        None \<Rightarrow> Inl (notFound ''Access grant not found'') | Some g \<Rightarrow> Inr g)"

text \<open>
  PATCH in the order of its awaits: the checks and the row read, the hold change, the row
  write. Each phase is atomic; other requests may run between them.
\<close>

datatype suspend_change = Suspend | Reinstate

definition patchLoad ::
  "grant_store \<Rightarrow> int \<Rightarrow> int \<Rightarrow> authed_user \<Rightarrow> grant_role option \<Rightarrow> grant_row outcome" where
  "patchLoad st wid gid user role =
     rbind (grantingRights (gst_db st) wid user) (\<lambda>cap.
     rbind (loadGrant (gst_db st) wid gid) (\<lambda>grant.
     rbind (case role of None \<Rightarrow> Inr () | Some r \<Rightarrow> assertWithinCap (grant_role_name r) cap) (\<lambda>_.
     rbind (assertWithinCap (grt_role grant) cap) (\<lambda>_. Inr grant))))"

definition suspended_by_idp :: http_error where
  "suspended_by_idp = \<lparr>statusCode = 409, errCode = ''grant_suspended_by_idp'',
     errMessage = ''This user's identity provider suspended them in this workspace; the grant counts again only when the provider re-enables them''\<rparr>"

definition patchHold ::
  "ms \<Rightarrow> int \<Rightarrow> grant_row \<Rightarrow> bool option \<Rightarrow> grant_store \<Rightarrow>
     (suspend_change option \<times> ms option option \<times> grant_store) outcome" where
  "patchHold now wid grant suspended st =
     (case suspended of
        None \<Rightarrow> Inr (None, None, st)
      | Some True \<Rightarrow>
          (case addAdminHold wid (grt_id grant) st of
             (True, st1) \<Rightarrow> Inr (Some Suspend, if grt_suspended grant = None then Some (Some now) else None, st1)
           | (False, st1) \<Rightarrow> Inr (None, None, st1))
      | Some False \<Rightarrow>
          if grt_id grant \<in> set (idpHeldGrantIds st wid (grt_user grant)) \<or>
             isScimSuspendedIn st (grt_user grant) wid
          then Inl suspended_by_idp
          else (case releaseAdminHolds wid [grt_id grant] st of
            (released, st1) \<Rightarrow>
              if released \<noteq> [] \<or> grt_suspended grant \<noteq> None
              then Inr (Some Reinstate, Some None, st1) else Inr (None, None, st1)))"

definition patchWrite ::
  "ms \<Rightarrow> grant_row \<Rightarrow> grant_role option \<Rightarrow> suspend_change option \<Rightarrow> ms option option \<Rightarrow>
     grant_store \<Rightarrow> grant_row outcome \<times> grant_store" where
  "patchWrite now grant role change suspendedAt st =
     (if role = None \<and> change = None then (Inr grant, st)
      else
        let upd = (\<lambda>g. g\<lparr>grt_updated := now,
              grt_role := (case role of None \<Rightarrow> grt_role g | Some r \<Rightarrow> grant_role_name r),
              grt_suspended := (case suspendedAt of None \<Rightarrow> grt_suspended g | Some s \<Rightarrow> s)\<rparr>);
            st1 = set_grants (map (\<lambda>g. if grt_id g = grt_id grant then upd g else g) (grants_of st)) st
        in case List.find (\<lambda>g. grt_id g = grt_id grant) (grants_of st1) of
             None \<Rightarrow> (Inl (notFound ''Access grant not found''), st1)
           | Some g \<Rightarrow> (Inr g, st1))"

definition patchGrant ::
  "ms \<Rightarrow> int \<Rightarrow> int \<Rightarrow> authed_user \<Rightarrow> grant_role option \<Rightarrow> bool option \<Rightarrow> grant_store \<Rightarrow>
     grant_row outcome \<times> grant_store" where
  "patchGrant now wid gid user role suspended st =
     (case patchLoad st wid gid user role of
        Inl e \<Rightarrow> (Inl e, st)
      | Inr grant \<Rightarrow>
          (case patchHold now wid grant suspended st of
             Inl e \<Rightarrow> (Inl e, st)
           | Inr (change, suspendedAt, st1) \<Rightarrow> patchWrite now grant role change suspendedAt st1))"

definition deleteGrant ::
  "int \<Rightarrow> int \<Rightarrow> authed_user \<Rightarrow> grant_store \<Rightarrow> unit outcome \<times> grant_store" where
  "deleteGrant wid gid user st =
     (case patchLoad st wid gid user None of
        Inl e \<Rightarrow> (Inl e, st)
      | Inr grant \<Rightarrow>
          if List.find (\<lambda>g. grt_id g = grt_id grant) (grants_of st) = None
          then (Inl (notFound ''Access grant not found''), st)
          else (Inr (), snd (releaseAdminHolds wid [grt_id grant]
            (set_grants (filter (\<lambda>g. grt_id g \<noteq> grt_id grant) (grants_of st)) st))))"

text \<open>
  POST, from the resolved subject on. Two grants have the same target key exactly when they
  name the same project and the same environment.
\<close>

definition user_suspended_by_idp :: http_error where
  "user_suspended_by_idp = \<lparr>statusCode = 409, errCode = ''user_suspended_by_idp'',
     errMessage = ''This user's identity provider suspended them in this workspace; grant access after the provider re-enables them''\<rparr>"

definition createGrant ::
  "ms \<Rightarrow> int \<Rightarrow> authed_user \<Rightarrow> int \<Rightarrow> int option \<Rightarrow> int option \<Rightarrow> grant_role \<Rightarrow> grant_store \<Rightarrow>
     grant_row outcome \<times> grant_store" where
  "createGrant now wid user target project environment role st =
     (let db = gst_db st in
      case rbind (grantingRights db wid user) (\<lambda>cap. assertWithinCap (grant_role_name role) cap) of
        Inl e \<Rightarrow> (Inl e, st)
      | Inr _ \<Rightarrow>
        if (case project of None \<Rightarrow> False | Some p \<Rightarrow>
              (case find_project db p of None \<Rightarrow> True | Some r \<Rightarrow> prj_workspace r \<noteq> Some wid))
        then (Inl (notFound ''Project not found''), st)
        else if (case environment of None \<Rightarrow> False | Some e \<Rightarrow>
              (case find_environment db e of None \<Rightarrow> True | Some r \<Rightarrow> env_workspace r \<noteq> wid))
        then (Inl (notFound ''Environment not found''), st)
        else if isScimSuspendedIn st target wid then (Inl user_suspended_by_idp, st)
        else if list_ex (\<lambda>g. grt_user g = target \<and> grt_project g = project \<and> grt_environment g = environment)
          (grants_of st)
        then (Inl (conflict ''This user already holds a grant on that target; change its role instead''), st)
        else
          let row = \<lparr>grt_id = gst_next st, grt_workspace = wid, grt_user = target, grt_project = project,
                grt_environment = environment, grt_role = grant_role_name role, grt_suspended = None,
                grt_updated = now\<rparr>
          in (Inr row, set_grants (grants_of st @ [row]) (st\<lparr>gst_next := gst_next st + 1\<rparr>)))"

end
