(* ===== verification/GrantLifecycle.thy ===== *)
theory GrantLifecycle
  imports GrantHolds
begin

text \<open>
  What keeps a grant honest over its life: in every state the routes and the identity provider
  reach, a grant is suspended exactly while somebody holds it. \<open>grant_step\<close> lets each request
  run whole; the last theorem shows what happens when a reinstatement runs between the phases
  of a PATCH.
\<close>

subsection \<open>Reading back what was written\<close>

lemma intList_ids [simp]: "intList (ids_json xs) = xs"
  by (induction xs) (simp_all add: intList_def ids_json_def List.map_filter_def)

lemma ids_json_not_null [simp]: "ids_json xs \<noteq> JNull"
  by (simp add: ids_json_def)

lemma getSettingJson_set [simp]:
  "v \<noteq> JNull \<Longrightarrow> getSettingJson (setSettingJson k v st) k' d = (if k = k' then v else getSettingJson st k' d)"
  by (auto simp: getSettingJson_def setSettingJson_def)

lemma readIdpHolds_set [simp]:
  "readIdpHolds (setSettingJson (AdminHold w) v st) w' = readIdpHolds st w'"
  by (simp add: readIdpHolds_def getSettingJson_def setSettingJson_def)

lemma idpHeld_set_admin [simp]:
  "idpHeldGrantIds (setSettingJson (AdminHold w) v st) w' u = idpHeldGrantIds st w' u"
  by (simp add: idpHeldGrantIds_def)

lemma adminHeld_set_admin [simp]:
  "adminHeldGrantIds (setSettingJson (AdminHold w) (ids_json xs) st) w' =
     (if w = w' then xs else adminHeldGrantIds st w')"
  by (simp add: adminHeldGrantIds_def)

lemma adminHeld_writeIdp [simp]:
  "adminHeldGrantIds (writeIdpHolds w u xs st) w' = adminHeldGrantIds st w'"
  by (simp add: adminHeldGrantIds_def writeIdpHolds_def Let_def)

lemma idpHeld_writeIdp [simp]:
  "idpHeldGrantIds (writeIdpHolds w u xs st) w' u' =
     (if w = w' \<and> u = u' then xs else idpHeldGrantIds st w' u')"
proof -
  have "readIdpHolds (writeIdpHolds w u xs st) w' =
      (if w = w' then (if xs \<noteq> [] then AList.update u (ids_json xs) (readIdpHolds st w)
         else AList.delete u (readIdpHolds st w)) else readIdpHolds st w')"
    by (simp add: writeIdpHolds_def Let_def readIdpHolds_def [of "setSettingJson _ _ _"])
      (simp add: readIdpHolds_def)
  then show ?thesis by (auto simp: idpHeldGrantIds_def)
qed

lemma grants_of_simps [simp]:
  "grants_of (set_grants gs st) = gs"
  "grants_of (setSettingJson k v st) = grants_of st"
  "grants_of (writeIdpHolds w u xs st) = grants_of st"
  "grants_of (st\<lparr>gst_next := n\<rparr>) = grants_of st"
  by (simp_all add: grants_of_def set_grants_def setSettingJson_def writeIdpHolds_def Let_def)

lemma holds_set_grants [simp]:
  "adminHeldGrantIds (set_grants gs st) w = adminHeldGrantIds st w"
  "idpHeldGrantIds (set_grants gs st) w u = idpHeldGrantIds st w u"
  "adminHeldGrantIds (st\<lparr>gst_next := n\<rparr>) w = adminHeldGrantIds st w"
  "idpHeldGrantIds (st\<lparr>gst_next := n\<rparr>) w u = idpHeldGrantIds st w u"
  by (simp_all add: adminHeldGrantIds_def idpHeldGrantIds_def readIdpHolds_def getSettingJson_def
    set_grants_def)

lemma gst_next_simps [simp]:
  "gst_next (set_grants gs st) = gst_next st"
  "gst_next (setSettingJson k v st) = gst_next st"
  "gst_next (writeIdpHolds w u xs st) = gst_next st"
  by (simp_all add: set_grants_def setSettingJson_def writeIdpHolds_def Let_def)

lemma releaseAdminHolds_simps [simp]:
  "grants_of (snd (releaseAdminHolds w xs st)) = grants_of st"
  "gst_next (snd (releaseAdminHolds w xs st)) = gst_next st"
  "idpHeldGrantIds (snd (releaseAdminHolds w xs st)) w' u = idpHeldGrantIds st w' u"
  "set (adminHeldGrantIds (snd (releaseAdminHolds w xs st)) w') =
     set (adminHeldGrantIds st w') - (if w = w' then set xs else {})"
  "fst (releaseAdminHolds w xs st) = filter (\<lambda>i. i \<in> set xs) (adminHeldGrantIds st w)"
  by (auto simp: releaseAdminHolds_def Let_def filter_empty_conv)

lemma gst_db_simps [simp]:
  "gst_db (setSettingJson k v st) = gst_db st"
  "gst_db (writeIdpHolds w u xs st) = gst_db st"
  "gst_db (set_grants gs st) = (gst_db st)\<lparr>access_grants := gs\<rparr>"
  "gst_db (snd (releaseAdminHolds w xs st)) = gst_db st"
  by (simp_all add: set_grants_def setSettingJson_def writeIdpHolds_def releaseAdminHolds_def Let_def)

subsection \<open>The invariant\<close>

definition held :: "grant_store \<Rightarrow> grant_row \<Rightarrow> bool" where
  "held st g \<longleftrightarrow> grt_id g \<in> set (adminHeldGrantIds st (grt_workspace g)) \<or>
     grt_id g \<in> set (idpHeldGrantIds st (grt_workspace g) (grt_user g))"

definition holds_inv :: "grant_store \<Rightarrow> bool" where
  "holds_inv st \<longleftrightarrow>
     distinct (map grt_id (grants_of st)) \<and>
     (\<forall>g \<in> set (grants_of st). grt_suspended g \<noteq> None \<longleftrightarrow> held st g) \<and>
     (\<forall>g \<in> set (grants_of st). grt_id g < gst_next st) \<and>
     (\<forall>w. \<forall>i \<in> set (adminHeldGrantIds st w). i < gst_next st) \<and>
     (\<forall>w u. \<forall>i \<in> set (idpHeldGrantIds st w u). i < gst_next st)"

lemma holds_invD:
  assumes "holds_inv st"
  shows "distinct (map grt_id (grants_of st))"
    and "g \<in> set (grants_of st) \<Longrightarrow> grt_suspended g \<noteq> None \<longleftrightarrow> held st g"
    and "g \<in> set (grants_of st) \<Longrightarrow> grt_id g < gst_next st"
    and "i \<in> set (adminHeldGrantIds st w) \<Longrightarrow> i < gst_next st"
    and "i \<in> set (idpHeldGrantIds st w u) \<Longrightarrow> i < gst_next st"
  using assms unfolding holds_inv_def by blast+

lemma same_grant:
  assumes "holds_inv st" and "g \<in> set (grants_of st)" and "h \<in> set (grants_of st)"
    and "grt_id g = grt_id h"
  shows "g = h"
  using holds_invD(1) [OF assms(1)] assms(2-4) by (auto simp: distinct_map inj_on_def)

text \<open>Removing rows and dropping admin holds of removed rows only keeps the invariant.\<close>

lemma holds_inv_remove:
  assumes "holds_inv st" and rows: "grants_of st' = filter P (grants_of st)"
    and same: "gst_next st' = gst_next st" "\<And>w u. idpHeldGrantIds st' w u = idpHeldGrantIds st w u"
    and admin: "\<And>w i. i \<in> set (adminHeldGrantIds st' w) \<Longrightarrow> i \<in> set (adminHeldGrantIds st w)"
    and dropped: "\<And>w i. i \<in> set (adminHeldGrantIds st w) - set (adminHeldGrantIds st' w) \<Longrightarrow>
      \<exists>g \<in> set (grants_of st). grt_id g = i \<and> \<not> P g"
  shows "holds_inv st'"
proof -
  have "held st' g \<longleftrightarrow> held st g" if g: "g \<in> set (grants_of st)" "P g" for g
  proof -
    have "grt_id g \<in> set (adminHeldGrantIds st w) \<Longrightarrow> grt_id g \<in> set (adminHeldGrantIds st' w)" for w
      using dropped [of "grt_id g" w] same_grant [OF assms(1)] g by blast
    then show ?thesis using admin by (auto simp: held_def same)
  qed
  moreover have "i \<in> set (adminHeldGrantIds st' w) \<Longrightarrow> i < gst_next st" for w i
    using holds_invD(4) [OF assms(1)] admin by blast
  ultimately show ?thesis
    using holds_invD(1-3,5) [OF assms(1)]
    unfolding holds_inv_def rows same by (auto simp: distinct_map_filter)
qed

lemma deleteGrantsForMember_inv:
  assumes "holds_inv st"
  shows "holds_inv (snd (deleteGrantsForMember w u st))"
  by (rule holds_inv_remove [OF assms, where P = "\<lambda>g. \<not> (grt_workspace g = w \<and> grt_user g = u)"])
    (auto simp: deleteGrantsForMember_def Let_def split: if_splits)

lemma deleteGrantsForProject_inv:
  assumes "holds_inv st"
  shows "holds_inv (snd (deleteGrantsForProject p st))"
  by (rule holds_inv_remove [OF assms, where P = "\<lambda>g. grt_project g \<noteq> Some p"])
    (auto simp: deleteGrantsForProject_def)

lemma loadGrant_mem: "loadGrant db w i = Inr g \<Longrightarrow> g \<in> set (access_grants db) \<and> grt_id g = i \<and> grt_workspace g = w"
  by (auto simp: loadGrant_def find_Some_iff split: option.splits)

lemma rbind_Inr: "rbind x f = Inr y \<longleftrightarrow> (\<exists>a. x = Inr a \<and> f a = Inr y)"
  by (cases x) auto

lemma patchLoad_mem:
  assumes "patchLoad st w i user role = Inr g"
  shows "g \<in> set (grants_of st)" "grt_id g = i" "grt_workspace g = w"
  using assms by (auto simp: patchLoad_def rbind_Inr grants_of_def dest!: loadGrant_mem)

lemma deleteGrant_inv:
  assumes "holds_inv st"
  shows "holds_inv (snd (deleteGrant w i user st))"
proof (cases "patchLoad st w i user None")
  case (Inr g)
  note g = patchLoad_mem [OF Inr]
  have "holds_inv (snd (releaseAdminHolds w [i] (set_grants (filter (\<lambda>g. grt_id g \<noteq> i) (grants_of st)) st)))"
    by (rule holds_inv_remove [OF assms, where P = "\<lambda>g. grt_id g \<noteq> i"])
      (use g in \<open>auto split: if_splits\<close>)
  then show ?thesis using assms Inr g by (simp add: deleteGrant_def split: if_splits)
qed (use assms in \<open>simp add: deleteGrant_def\<close>)

text \<open>Rewriting rows in place: ids, workspaces and users stay.\<close>

lemma holds_inv_update:
  assumes "holds_inv st" and rows: "grants_of st' = map f (grants_of st)"
    and keys: "\<And>g. grt_id (f g) = grt_id g" 
    and nxt: "gst_next st' = gst_next st"
    and bounds: "\<And>w i. i \<in> set (adminHeldGrantIds st' w) \<Longrightarrow> i < gst_next st"
      "\<And>w u i. i \<in> set (idpHeldGrantIds st' w u) \<Longrightarrow> i < gst_next st"
    and agree: "\<And>g. g \<in> set (grants_of st) \<Longrightarrow> grt_suspended (f g) \<noteq> None \<longleftrightarrow> held st' (f g)"
  shows "holds_inv st'"
proof -
  have "grt_id \<circ> f = grt_id" by (simp add: fun_eq_iff keys)
  then show ?thesis
    using holds_invD [OF assms(1)] bounds agree
    unfolding holds_inv_def by (auto simp: rows nxt keys)
qed

lemma suspendGrantsForMember_inv:
  assumes inv: "holds_inv st"
  shows "holds_inv (snd (suspendGrantsForMember now w u st))"
proof -
  define before where "before = idpHeldGrantIds st w u"
  define added where "added = filter (\<lambda>i. i \<notin> set before)
    (map grt_id (filter (\<lambda>g. grt_workspace g = w \<and> grt_user g = u) (grants_of st)))"
  have added_iff: "grt_id g \<in> set added \<longleftrightarrow> grt_workspace g = w \<and> grt_user g = u \<and> grt_id g \<notin> set before"
    if "g \<in> set (grants_of st)" for g
    using that same_grant [OF inv] by (auto simp: added_def)
  have added_bound: "i \<in> set added \<Longrightarrow> i < gst_next st" for i
    using holds_invD(3) [OF inv] by (auto simp: added_def)
  show ?thesis
  proof (cases "added = []")
    case False
    define f where "f = (\<lambda>g :: grant_row. if grt_id g \<in> set added \<and> grt_suspended g = None
      then g\<lparr>grt_suspended := Some now, grt_updated := now\<rparr> else g)"
    let ?st = "set_grants (map f (grants_of st)) (writeIdpHolds w u (before @ added) st)"
    have eq: "snd (suspendGrantsForMember now w u st) = ?st"
      using False by (simp add: suspendGrantsForMember_def Let_def before_def added_def f_def)
    have "holds_inv ?st"
    proof (rule holds_inv_update [OF inv, where f = f])
      fix g assume g: "g \<in> set (grants_of st)"
      have keys: "grt_id (f g) = grt_id g" "grt_workspace (f g) = grt_workspace g" "grt_user (f g) = grt_user g"
        by (simp_all add: f_def)
      have "held ?st (f g) \<longleftrightarrow> held st g \<or> grt_id g \<in> set added"
        using added_iff [OF g] by (auto simp: held_def keys before_def)
      moreover have "grt_suspended (f g) \<noteq> None \<longleftrightarrow> grt_suspended g \<noteq> None \<or> grt_id g \<in> set added"
        by (cases "grt_suspended g") (auto simp: f_def)
      ultimately show "grt_suspended (f g) \<noteq> None \<longleftrightarrow> held ?st (f g)"
        using holds_invD(2) [OF inv g] by simp
    next
      fix w' i assume "i \<in> set (adminHeldGrantIds ?st w')"
      then show "i < gst_next st" using holds_invD(4) [OF inv] by simp
    next
      fix w' u' i assume "i \<in> set (idpHeldGrantIds ?st w' u')"
      then show "i < gst_next st"
        using holds_invD(5) [OF inv] added_bound by (auto simp: before_def split: if_splits)
    qed (simp_all add: f_def)
    then show ?thesis by (simp add: eq)
  qed (use inv in \<open>simp add: suspendGrantsForMember_def Let_def before_def added_def\<close>)
qed

lemma reinstateGrantsForMember_inv:
  assumes inv: "holds_inv st"
  shows "holds_inv (snd (reinstateGrantsForMember now w u st))"
proof -
  define idp where "idp = idpHeldGrantIds st w u"
  define lift where "lift = filter (\<lambda>i. i \<notin> set (adminHeldGrantIds st w)) idp"
  define f where "f = (\<lambda>g :: grant_row. if grt_workspace g = w \<and> grt_user g = u \<and>
    grt_id g \<in> set lift \<and> grt_suspended g \<noteq> None
    then g\<lparr>grt_suspended := None, grt_updated := now\<rparr> else g)"
  let ?st1 = "writeIdpHolds w u [] st"
  let ?st = "set_grants (map f (grants_of st)) ?st1"
  have "holds_inv ?st"
  proof (rule holds_inv_update [OF inv, where f = f])
    fix g assume g: "g \<in> set (grants_of st)"
    have keys: "grt_id (f g) = grt_id g" "grt_workspace (f g) = grt_workspace g" "grt_user (f g) = grt_user g"
      by (simp_all add: f_def)
    show "grt_suspended (f g) \<noteq> None \<longleftrightarrow> held ?st (f g)"
    proof (cases "grt_workspace g = w \<and> grt_user g = u")
      case True
      then have "held ?st (f g) \<longleftrightarrow> grt_id g \<in> set (adminHeldGrantIds st w)"
        by (simp add: held_def keys)
      moreover have "grt_suspended (f g) \<noteq> None \<longleftrightarrow> grt_suspended g \<noteq> None \<and> grt_id g \<notin> set lift"
        using True by (cases "grt_suspended g") (auto simp: f_def)
      ultimately show ?thesis
        using True holds_invD(2) [OF inv g] by (auto simp: held_def lift_def idp_def)
    next
      case False
      then have "held ?st (f g) \<longleftrightarrow> held st g" by (auto simp: held_def keys)
      moreover have "f g = g" using False by (auto simp: f_def)
      ultimately show ?thesis using holds_invD(2) [OF inv g] by simp
    qed
  next
    fix w' i assume "i \<in> set (adminHeldGrantIds ?st w')"
    then show "i < gst_next st" using holds_invD(4) [OF inv] by simp
  next
    fix w' u' i assume "i \<in> set (idpHeldGrantIds ?st w' u')"
    then show "i < gst_next st" using holds_invD(5) [OF inv] by (auto split: if_splits)
  qed (simp_all add: f_def)
  moreover have "?st = ?st1" if "lift = []"
  proof -
    have "map f (grants_of st) = grants_of st" by (rule map_idI) (simp add: f_def that)
    then show ?thesis by (simp add: set_grants_def grants_of_def writeIdpHolds_def setSettingJson_def Let_def)
  qed
  moreover have "snd (reinstateGrantsForMember now w u st) =
      (if idp = [] then st else if lift = [] then ?st1 else ?st)"
    by (simp add: reinstateGrantsForMember_def Let_def idp_def lift_def f_def)
  ultimately show ?thesis using inv by (simp split: if_splits)
qed

text \<open>The row write of PATCH, and the two writes that leave every suspension as it is.\<close>

definition patched :: "ms \<Rightarrow> int \<Rightarrow> grant_role option \<Rightarrow> ms option option \<Rightarrow> grant_row \<Rightarrow> grant_row" where
  "patched now i role sus g = (if grt_id g = i then g\<lparr>grt_updated := now,
       grt_role := (case role of None \<Rightarrow> grt_role g | Some r \<Rightarrow> grant_role_name r),
       grt_suspended := (case sus of None \<Rightarrow> grt_suspended g | Some s \<Rightarrow> s)\<rparr> else g)"

lemma patched_fields [simp]:
  "grt_id (patched now i role sus g) = grt_id g"
  "grt_workspace (patched now i role sus g) = grt_workspace g"
  "grt_user (patched now i role sus g) = grt_user g"
  "grt_suspended (patched now i role sus g) =
     (case sus of None \<Rightarrow> grt_suspended g | Some s \<Rightarrow> if grt_id g = i then s else grt_suspended g)"
  by (auto simp: patched_def split: option.split)

lemma patchWrite_state:
  "snd (patchWrite now g role change sus st) =
     (if role = None \<and> change = None then st
      else set_grants (map (patched now (grt_id g) role sus) (grants_of st)) st)"
  by (simp add: patchWrite_def patched_def [abs_def] Let_def split: option.split)

lemma held_patched [simp]: "held st (patched now i role sus g) = held st g"
  by (simp add: held_def)

lemma held_set_grants [simp]: "held (set_grants gs st) g = held st g"
  by (simp add: held_def)

lemma patchWrite_inv:
  assumes inv: "holds_inv st" and g: "g \<in> set (grants_of st)"
    and st': "grants_of st' = grants_of st" "gst_next st' = gst_next st"
      "\<And>w u. idpHeldGrantIds st' w u = idpHeldGrantIds st w u"
      "\<And>w i. i \<in> set (adminHeldGrantIds st' w) \<Longrightarrow> i < gst_next st"
    and other: "\<And>h. h \<in> set (grants_of st) \<Longrightarrow> h \<noteq> g \<Longrightarrow> held st' h \<longleftrightarrow> held st h"
    and here: "(case sus of None \<Rightarrow> grt_suspended g | Some s \<Rightarrow> s) \<noteq> None \<longleftrightarrow> held st' g"
    and written: "change = None \<Longrightarrow> sus = None"
  shows "holds_inv (snd (patchWrite now g role change sus st'))"
proof -
  let ?f = "patched now (grt_id g) role sus"
  have bound: "holds_inv (set_grants (map ?f (grants_of st)) st')"
  proof (rule holds_inv_update [OF inv, where f = ?f])
    fix h assume h: "h \<in> set (grants_of st)"
    show "grt_suspended (?f h) \<noteq> None \<longleftrightarrow> held (set_grants (map ?f (grants_of st)) st') (?f h)"
    proof (cases "h = g")
      case True then show ?thesis using here by (cases sus) simp_all
    next
      case False
      then have "grt_id h \<noteq> grt_id g" using same_grant [OF inv h g] by blast
      then show ?thesis using other [OF h False] holds_invD(2) [OF inv h] by (cases sus) simp_all
    qed
  qed (use st' holds_invD(5) [OF inv] in \<open>simp_all add: st'\<close>)
  have "holds_inv st'" if "sus = None"
  proof (rule holds_inv_update [OF inv, where f = id])
    fix h assume h: "h \<in> set (grants_of st)"
    show "grt_suspended (id h) \<noteq> None \<longleftrightarrow> held st' (id h)"
      using here other [OF h] holds_invD(2) [OF inv h] that by (cases "h = g") simp_all
  qed (use st' holds_invD(5) [OF inv] in \<open>simp_all add: st'\<close>)
  then show ?thesis using bound written by (simp add: patchWrite_state st')
qed

lemma addAdminHold_cases:
  "addAdminHold w i st =
     (if i \<in> set (adminHeldGrantIds st w) then (False, st)
      else (True, setSettingJson (AdminHold w) (ids_json (adminHeldGrantIds st w @ [i])) st))"
  by (simp add: addAdminHold_def Let_def)

lemma patchGrant_inv:
  assumes inv: "holds_inv st"
  shows "holds_inv (snd (patchGrant now w i user role suspended st))"
proof (cases "patchLoad st w i user role")
  case (Inl e) then show ?thesis using inv by (simp add: patchGrant_def)
next
  case (Inr g)
  note g = patchLoad_mem [OF Inr]
  note agree = holds_invD(2) [OF inv g(1)] and bounds = holds_invD(3-5) [OF inv]
  have other: "h \<in> set (grants_of st) \<Longrightarrow> h \<noteq> g \<Longrightarrow> grt_id h \<noteq> grt_id g" for h
    using same_grant [OF inv _ g(1)] by blast
  have keep: "holds_inv (snd (patchWrite now g role None None st))"
    by (rule patchWrite_inv [OF inv g(1)]) (use agree bounds in auto)
  consider "suspended = None" | "suspended = Some True" | "suspended = Some False"
    by (cases suspended) auto
  then show ?thesis
  proof cases
    case 1 then show ?thesis using keep Inr by (simp add: patchGrant_def patchHold_def)
  next
    case 2
    show ?thesis
    proof (cases "grt_id g \<in> set (adminHeldGrantIds st w)")
      case True
      then show ?thesis using keep Inr 2 by (simp add: patchGrant_def patchHold_def addAdminHold_cases)
    next
      case False
      define st1 where "st1 = setSettingJson (AdminHold w) (ids_json (adminHeldGrantIds st w @ [grt_id g])) st"
      define sus where "sus = (if grt_suspended g = None then Some (Some now) else None)"
      have "holds_inv (snd (patchWrite now g role (Some Suspend) sus st1))"
      proof (rule patchWrite_inv [OF inv g(1)])
        show "(case sus of None \<Rightarrow> grt_suspended g | Some s \<Rightarrow> s) \<noteq> None \<longleftrightarrow> held st1 g"
          using g by (auto simp: sus_def held_def st1_def)
      next
        fix h assume "h \<in> set (grants_of st)" "h \<noteq> g"
        then show "held st1 h \<longleftrightarrow> held st h" using other by (auto simp: held_def st1_def)
      next
        fix w' j assume "j \<in> set (adminHeldGrantIds st1 w')"
        then show "j < gst_next st" using bounds(2) bounds(1) [OF g(1)] by (auto simp: st1_def split: if_splits)
      qed (simp_all add: st1_def)
      then show ?thesis
        using Inr 2 False by (simp add: patchGrant_def patchHold_def addAdminHold_cases st1_def sus_def)
    qed
  next
    case 3
    show ?thesis
    proof (cases "grt_id g \<in> set (idpHeldGrantIds st w (grt_user g)) \<or> isScimSuspendedIn st (grt_user g) w")
      case True
      then show ?thesis using inv Inr 3 by (simp add: patchGrant_def patchHold_def)
    next
      case False
      define st1 where "st1 = snd (releaseAdminHolds w [grt_id g] st)"
      have others: "held st1 h \<longleftrightarrow> held st h" if "h \<in> set (grants_of st)" "h \<noteq> g" for h
        using other [OF that] by (auto simp: held_def st1_def)
      have free: "\<not> held st1 g" using False g by (simp add: held_def st1_def)
      have lifted: "holds_inv (snd (patchWrite now g role (Some Reinstate) (Some None) st1))"
        by (rule patchWrite_inv [OF inv g(1)])
          (use free others bounds in \<open>auto simp: st1_def split: if_splits\<close>)
      have kept: "holds_inv (snd (patchWrite now g role None None st1))" if "grt_suspended g = None"
        by (rule patchWrite_inv [OF inv g(1)])
          (use that free others bounds in \<open>auto simp: st1_def split: if_splits\<close>)
      have "patchGrant now w i user role suspended st =
        (if fst (releaseAdminHolds w [grt_id g] st) \<noteq> [] \<or> grt_suspended g \<noteq> None
         then patchWrite now g role (Some Reinstate) (Some None) st1
         else patchWrite now g role None None st1)"
        using Inr 3 False
        by (cases "releaseAdminHolds w [grt_id g] st")
          (simp add: patchGrant_def patchHold_def st1_def del: releaseAdminHolds_simps)
      then show ?thesis using lifted kept by (simp split: if_splits)
    qed
  qed
qed

lemma createGrant_inv:
  assumes inv: "holds_inv st"
  shows "holds_inv (snd (createGrant now w user target p e role st))"
proof (cases "snd (createGrant now w user target p e role st) = st")
  case False
  define row where "row = \<lparr>grt_id = gst_next st, grt_workspace = w, grt_user = target, grt_project = p,
    grt_environment = e, grt_role = grant_role_name role, grt_suspended = None, grt_updated = now\<rparr>"
  let ?st = "set_grants (grants_of st @ [row]) (st\<lparr>gst_next := gst_next st + 1\<rparr>)"
  have "snd (createGrant now w user target p e role st) = st \<or>
      snd (createGrant now w user target p e role st) = ?st"
    unfolding createGrant_def Let_def row_def
    by (cases "rbind (grantingRights (gst_db st) w user) (assertWithinCap (grant_role_name role))")
      (simp_all only: sum.case if_distrib [of snd] snd_conv if_cancel split: if_split, blast+)
  then have eq: "snd (createGrant now w user target p e role st) = ?st" using False by blast
  note bounds = holds_invD(3-5) [OF inv]
  have same: "held ?st g = held st g" for g by (simp add: held_def)
  have fresh: "\<not> held st row"
    using bounds(2) [of "gst_next st" w] bounds(3) [of "gst_next st" w target] by (auto simp: held_def row_def)
  have ids: "gst_next st \<notin> grt_id ` set (grants_of st)" using bounds(1) by force
  have "holds_inv ?st"
    unfolding holds_inv_def
  proof (intro conjI ballI allI)
    show "distinct (map grt_id (grants_of ?st))"
      using holds_invD(1) [OF inv] ids by (simp add: row_def)
  next
    fix g assume "g \<in> set (grants_of ?st)"
    then consider "g \<in> set (grants_of st)" | "g = row" by auto
    then show "grt_suspended g \<noteq> None \<longleftrightarrow> held ?st g"
    proof cases
      case 1 then show ?thesis unfolding same by (rule holds_invD(2) [OF inv])
    next
      case 2 then show ?thesis unfolding same using fresh by (simp add: row_def)
    qed
  next
    fix g assume "g \<in> set (grants_of ?st)"
    then show "grt_id g < gst_next ?st" using bounds(1) [of g] by (auto simp: row_def)
  next
    fix w' i assume "i \<in> set (adminHeldGrantIds ?st w')"
    then show "i < gst_next ?st" using bounds(2) [of i w'] by simp
  next
    fix w' u' i assume "i \<in> set (idpHeldGrantIds ?st w' u')"
    then show "i < gst_next ?st" using bounds(3) [of i w' u'] by simp
  qed
  then show ?thesis by (simp add: eq)
qed (use inv in simp)

subsection \<open>Every request, in any order\<close>

inductive grant_step :: "grant_store \<Rightarrow> grant_store \<Rightarrow> bool" where
  member_removed: "grant_step st (snd (deleteGrantsForMember w u st))"
| project_moved: "grant_step st (snd (deleteGrantsForProject p st))"
| idp_suspends: "grant_step st (snd (suspendGrantsForMember now w u st))"
| idp_reinstates: "grant_step st (snd (reinstateGrantsForMember now w u st))"
| created: "grant_step st (snd (createGrant now w user target p e role st))"
| patched: "grant_step st (snd (patchGrant now w i user role' sus st))"
| deleted: "grant_step st (snd (deleteGrant w i user st))"
| seat_parked: "v \<noteq> JNull \<Longrightarrow> grant_step st (setSettingJson (SuspendedSeats w) v st)"
| other_tables: "access_grants db = access_grants (gst_db st) \<Longrightarrow> grant_step st (st\<lparr>gst_db := db\<rparr>)"

definition no_grants :: "grant_store \<Rightarrow> bool" where
  "no_grants st \<longleftrightarrow> grants_of st = [] \<and> gst_settings st = []"

lemma holds_inv_irrelevant:
  assumes "holds_inv st" and "grants_of st' = grants_of st" "gst_next st' = gst_next st"
    and "\<And>w. adminHeldGrantIds st' w = adminHeldGrantIds st w"
    and "\<And>w u. idpHeldGrantIds st' w u = idpHeldGrantIds st w u"
  shows "holds_inv st'"
  using assms by (simp add: holds_inv_def held_def)

interpretation grants: guarded_system no_grants grant_step holds_inv
proof
  fix st assume "no_grants st"
  then show "holds_inv st"
    by (simp add: holds_inv_def no_grants_def adminHeldGrantIds_def idpHeldGrantIds_def
      readIdpHolds_def getSettingJson_def intList_def List.map_filter_def)
next
  fix st st' assume "grant_step st st'" and inv: "holds_inv st"
  then show "holds_inv st'"
  proof cases
    case (seat_parked v w)
    then show ?thesis
      by (auto intro!: holds_inv_irrelevant [OF inv]
        simp: adminHeldGrantIds_def idpHeldGrantIds_def readIdpHolds_def)
  next
    case (other_tables db)
    then show ?thesis
      by (auto intro!: holds_inv_irrelevant [OF inv] simp: grants_of_def
        adminHeldGrantIds_def idpHeldGrantIds_def readIdpHolds_def getSettingJson_def)
  qed (auto intro: deleteGrantsForMember_inv deleteGrantsForProject_inv suspendGrantsForMember_inv
    reinstateGrantsForMember_inv createGrant_inv patchGrant_inv deleteGrant_inv)
qed

end
