(* ===== verification/GrantProperties.thy ===== *)
theory GrantProperties
  imports GrantLifecycle
begin

text \<open>
  The properties of the grant lifecycle, and one interleaving of two requests that the
  per-workspace guard of the source does not exclude.
\<close>

subsection \<open>A sample workspace\<close>

text \<open>
  Workspace 1, owned by user 1; user 2 holds grant 7 on project 50, which the identity
  provider holds suspended. Built by the operations themselves from an empty panel.
\<close>

definition empty_panel :: panel_db where
  "empty_panel = \<lparr>
     users = [\<lparr>usr_id = 1, usr_operator = False, usr_deactivated = None, usr_deactivated_by = None\<rparr>,
              \<lparr>usr_id = 2, usr_operator = False, usr_deactivated = None, usr_deactivated_by = None\<rparr>],
     members = [\<lparr>mem_workspace = 1, mem_user = 1, mem_role = Owner\<rparr>],
     services = [], projects = [\<lparr>prj_id = 50, prj_workspace = Some 1\<rparr>],
     databases = [], environments = [], service_workspaces = [], service_projects = [],
     access_grants = [], workspaces = [1]\<rparr>"

definition empty_store :: grant_store where
  "empty_store = \<lparr>gst_db = empty_panel, gst_settings = [], gst_next = 7\<rparr>"

definition granter :: authed_user where
  "granter = \<lparr>au_id = 1, au_operator = False\<rparr>"

definition granted_store :: grant_store where
  "granted_store = snd (createGrant 100 1 granter 2 (Some 50) None GMember empty_store)"

definition idp_held_store :: grant_store where
  "idp_held_store = snd (suspendGrantsForMember 200 1 2 granted_store)"

lemma grant7: "granted_store = set_grants [\<lparr>grt_id = 7, grt_workspace = 1, grt_user = 2,
    grt_project = Some 50, grt_environment = None, grt_role = ''member'', grt_suspended = None,
    grt_updated = 100\<rparr>] (empty_store\<lparr>gst_next := 8\<rparr>)"
  by (simp add: granted_store_def createGrant_def grantingRights_def find_seat_def roleAtLeast_def
    assertWithinCap_def text_exceeds_def grant_role_name_def grant_role_of_text_def grant_rank_def
    find_project_def isScimSuspendedIn_def getSettingJson_def find_user_def grants_of_def
    empty_store_def empty_panel_def granter_def Let_def)

lemma idp_held7: "idp_held_store = set_grants [\<lparr>grt_id = 7, grt_workspace = 1, grt_user = 2,
    grt_project = Some 50, grt_environment = None, grt_role = ''member'', grt_suspended = Some 200,
    grt_updated = 200\<rparr>] (empty_store\<lparr>gst_next := 8, gst_settings := [(IdpHold 1, JObj [(2, ids_json [7])])]\<rparr>)"
  by (simp add: idp_held_store_def grant7 suspendGrantsForMember_def idpHeldGrantIds_def
    readIdpHolds_def getSettingJson_def writeIdpHolds_def setSettingJson_def set_grants_def
    grants_of_def empty_store_def Let_def)

lemma idp_held_reachable: "no_grants empty_store" "grant_step\<^sup>*\<^sup>* empty_store idp_held_store"
proof -
  show "no_grants empty_store" by (simp add: no_grants_def empty_store_def empty_panel_def grants_of_def)
  have "grant_step empty_store granted_store" "grant_step granted_store idp_held_store"
    unfolding granted_store_def idp_held_store_def by (rule grant_step.intros)+
  then show "grant_step\<^sup>*\<^sup>* empty_store idp_held_store" by (rule converse_rtranclp_into_rtranclp [OF _ r_into_rtranclp])
qed

lemma idp_held_inv: "holds_inv idp_held_store"
  by (rule grants.reachable_inv [OF idp_held_reachable])

lemma grant7_row: "grants_of idp_held_store = [\<lparr>grt_id = 7, grt_workspace = 1, grt_user = 2,
    grt_project = Some 50, grt_environment = None, grt_role = ''member'', grt_suspended = Some 200,
    grt_updated = 200\<rparr>]"
  by (simp add: idp_held7)

lemma idp_held_holds:
  "adminHeldGrantIds idp_held_store w = []"
  "idpHeldGrantIds idp_held_store 1 2 = [7]"
proof -
  have settings: "gst_settings idp_held_store = [(IdpHold 1, JObj [(2, ids_json [7])])]"
    by (simp add: idp_held7 set_grants_def)
  show "adminHeldGrantIds idp_held_store w = []"
    by (simp add: settings adminHeldGrantIds_def getSettingJson_def intList_def List.map_filter_def)
  show "idpHeldGrantIds idp_held_store 1 2 = [7]"
    by (simp add: settings idpHeldGrantIds_def readIdpHolds_def getSettingJson_def)
qed

lemma load7: "patchLoad idp_held_store 1 7 granter None = Inr (hd (grants_of idp_held_store))"
  by (simp add: idp_held7 patchLoad_def grantingRights_def find_seat_def roleAtLeast_def loadGrant_def
    assertWithinCap_def text_exceeds_def grant_role_of_text_def grant_rank_def
    empty_store_def empty_panel_def granter_def)

subsection \<open>Properties\<close>



text \<open>
  A reinstatement by the identity provider lifts exactly its own hold: afterwards a
  grant of that member is suspended only where an admin hold was recorded, and every admin
  hold is still recorded.
\<close>

theorem reinstatement_keeps_admin_holds:
  assumes "holds_inv st" and st': "st' = snd (reinstateGrantsForMember now w u st)"
    and "g \<in> set (grants_of st')" and "grt_workspace g = w" and "grt_user g = u"
  shows "(grt_suspended g \<noteq> None \<longleftrightarrow> grt_id g \<in> set (adminHeldGrantIds st w)) \<and>
    (\<forall>w'. adminHeldGrantIds st' w' = adminHeldGrantIds st w')"
proof -
  have admin: "adminHeldGrantIds st' w' = adminHeldGrantIds st w'" for w'
    by (simp add: st' reinstateGrantsForMember_def Let_def)
  have idp: "idpHeldGrantIds st' w u = []"
    by (simp add: st' reinstateGrantsForMember_def Let_def)
  have "holds_inv st'" unfolding st' by (rule reinstateGrantsForMember_inv [OF assms(1)])
  from holds_invD(2) [OF this assms(3)] show ?thesis using assms(4,5) admin idp by (simp add: held_def)
qed

theorem reinstatement_keeps_admin_holds_witness:
  "\<exists>g \<in> set (grants_of (snd (reinstateGrantsForMember 300 1 2 idp_held_store))). grt_suspended g = None"
proof -
  let ?st = "snd (reinstateGrantsForMember 300 1 2 idp_held_store)"
  let ?g = "hd (grants_of ?st)"
  have "?g \<in> set (grants_of ?st)" "grt_workspace ?g = 1" "grt_user ?g = 2"
    by (simp_all add: reinstateGrantsForMember_def Let_def grant7_row)
  then show ?thesis
    using idp_held_holds(1) [of 1] reinstatement_keeps_admin_holds [OF idp_held_inv refl, of ?g 300 1 2] by auto
qed



text \<open>
  The guard covers the hold lists but not the row a PATCH read before it: when the
  identity provider reinstates the member between the row read of a PATCH that suspends the
  grant and its hold change, the PATCH answers with success, the admin hold is recorded, and
  the grant still counts.
\<close>

theorem suspend_races_reinstatement:
  "\<exists>g change sus st2 g' st3.
     patchLoad idp_held_store 1 7 granter None = Inr g \<and>
     patchHold 301 1 g (Some True) (snd (reinstateGrantsForMember 300 1 2 idp_held_store)) =
       Inr (change, sus, st2) \<and>
     patchWrite 301 g None change sus st2 = (Inr g', st3) \<and>
     7 \<in> set (adminHeldGrantIds st3 1) \<and>
     projectGrantRole (grantsForUser (gst_db st3) 2) (Some 50) = Some GMember"
proof -
  let ?g = "hd (grants_of idp_held_store)"
  let ?st = "snd (reinstateGrantsForMember 300 1 2 idp_held_store)"
  let ?st2 = "setSettingJson (AdminHold 1) (ids_json [7]) ?st"
  have admin: "adminHeldGrantIds ?st 1 = []"
    by (simp add: reinstateGrantsForMember_def Let_def idp_held_holds)
  have hold: "patchHold 301 1 ?g (Some True) ?st = Inr (Some Suspend, None, ?st2)"
    by (simp add: patchHold_def addAdminHold_cases admin grant7_row)
  have rows: "grants_of ?st = [\<lparr>grt_id = 7, grt_workspace = 1, grt_user = 2,
    grt_project = Some 50, grt_environment = None, grt_role = ''member'', grt_suspended = None,
    grt_updated = 300\<rparr>]"
    by (simp add: reinstateGrantsForMember_def Let_def idp_held_holds grant7_row)
  define st3 where "st3 = snd (patchWrite 301 ?g None (Some Suspend) None ?st2)"
  have rows3: "grants_of st3 = [\<lparr>grt_id = 7, grt_workspace = 1, grt_user = 2,
    grt_project = Some 50, grt_environment = None, grt_role = ''member'', grt_suspended = None,
    grt_updated = 301\<rparr>]"
    by (simp add: st3_def patchWrite_state rows grant7_row patched_def)
  have wrote: "\<exists>g'. patchWrite 301 ?g None (Some Suspend) None ?st2 = (Inr g', st3)"
    by (simp add: st3_def patchWrite_def rows grant7_row)
  have held: "7 \<in> set (adminHeldGrantIds st3 1)"
    by (simp add: st3_def patchWrite_state)
  have "gst_db st3 = empty_panel\<lparr>access_grants := grants_of st3\<rparr>"
    by (simp add: st3_def patchWrite_state reinstateGrantsForMember_def Let_def idp_held_holds idp_held7 empty_store_def)
  then have "projectGrantRole (grantsForUser (gst_db st3) 2) (Some 50) = Some GMember"
    by (simp add: rows3 projectGrantRole_def grantsForUser_def List.map_filter_def grant_counts_def
      find_user_def find_project_def active_of_def grant_role_of_text_def empty_panel_def maxOf_def)
  then show ?thesis using load7 hold wrote held by blast
qed

end
