(* ===== verification/ProtectedLanes.thy ===== *)
theory ProtectedLanes
  imports ResourceAccess
begin

text \<open>
  Protected lanes (\<open>apps/server/src/lib/protectedLanes.ts\<close>): which lane a service sits in, who
  administers it, and the three gates that hang off it (reading secrets and logs, leaving the
  lane, approving one's own deploy). The two functions that write deployment rows are in
  \<open>DeployQueue\<close>.
\<close>

definition laneRefusal :: "string \<Rightarrow> http_error" where
  "laneRefusal message = \<lparr>statusCode = 403, errCode = ''protected_lane'', errMessage = message\<rparr>"

text \<open>The lane of a service, or of its parent when it is a preview outside any lane.\<close>

definition laneRules :: "panel_db \<Rightarrow> int option \<Rightarrow> int option \<Rightarrow> environment_row option" where
  "laneRules db environment previewParent =
     (let environmentId =
        (case environment of Some e \<Rightarrow> Some e
         | None \<Rightarrow> (case previewParent of None \<Rightarrow> None
             | Some p \<Rightarrow> (case find_service db p of None \<Rightarrow> None | Some parent \<Rightarrow> svc_environment parent)))
      in case environmentId of None \<Rightarrow> None | Some e \<Rightarrow> find_environment db e)"

definition lane_of :: "panel_db \<Rightarrow> service_row \<Rightarrow> environment_row option" where
  "lane_of db svc = laneRules db (svc_environment svc) (svc_preview_parent svc)"

definition isLaneAdmin :: "panel_db \<Rightarrow> service_row \<Rightarrow> authed_user \<Rightarrow> bool" where
  "isLaneAdmin db svc user =
     (if au_operator user then True
      else case lane_of db svc of
        None \<Rightarrow>
          (case serviceRole db (svc_id svc) (svc_owner svc) (Some (svc_environment svc)) user of
             None \<Rightarrow> False | Some role \<Rightarrow> roleAtLeast role Admin)
      | Some lane \<Rightarrow>
          if (case find_seat db (env_workspace lane) (au_id user) of
                None \<Rightarrow> False | Some seat \<Rightarrow> roleAtLeast (mem_role seat) Admin) then True
          else grantRoleForService db (grantsForUser db (au_id user)) (svc_id svc)
                 (Some (svc_environment svc)) = Some GAdmin)"

definition maySeeLaneSecrets :: "panel_db \<Rightarrow> service_row \<Rightarrow> authed_user \<Rightarrow> bool" where
  "maySeeLaneSecrets db svc user =
     (case lane_of db svc of None \<Rightarrow> True
      | Some lane \<Rightarrow> if \<not> env_protected lane then True else isLaneAdmin db svc user)"

definition assertMaySeeLaneSecrets :: "panel_db \<Rightarrow> service_row \<Rightarrow> authed_user \<Rightarrow> string \<Rightarrow> unit outcome" where
  "assertMaySeeLaneSecrets db svc user what =
     (case lane_of db svc of None \<Rightarrow> Inr ()
      | Some lane \<Rightarrow>
          if \<not> env_protected lane then Inr ()
          else if isLaneAdmin db svc user then Inr ()
          else Inl (laneRefusal (quoted (env_name lane) @ '' is a protected lane: its '' @ what @
            '' are for workspace admins only'')))"

definition assertMayLeaveLane :: "panel_db \<Rightarrow> service_row \<Rightarrow> authed_user \<Rightarrow> int option \<Rightarrow> unit outcome" where
  "assertMayLeaveLane db svc user nextEnvironmentId =
     (if svc_environment svc = nextEnvironmentId then Inr ()
      else case lane_of db svc of None \<Rightarrow> Inr ()
      | Some lane \<Rightarrow>
          if \<not> env_protected lane \<and> \<not> env_require_approval lane then Inr ()
          else if isLaneAdmin db svc user then Inr ()
          else Inl (laneRefusal (''Only a workspace admin may move a service out of the '' @
            quoted (env_name lane) @ '' lane'')))"

text \<open>The review columns of a deploy: none, or the caller and the time.\<close>

definition approvalStamp ::
  "panel_db \<Rightarrow> ms \<Rightarrow> service_row \<Rightarrow> authed_user \<Rightarrow> (int \<times> ms) option" where
  "approvalStamp db now svc user =
     (if \<not> svc_from_fork svc \<and>
         (case lane_of db svc of None \<Rightarrow> True | Some lane \<Rightarrow> \<not> env_require_approval lane) then None
      else if \<not> isLaneAdmin db svc user then None
      else Some (au_id user, now))"

subsection \<open>Lemmas\<close>

text \<open>What a service needs before a deploy of it may build.\<close>

definition needs_approval :: "panel_db \<Rightarrow> service_row \<Rightarrow> bool" where
  "needs_approval db svc \<longleftrightarrow> svc_from_fork svc \<or> (\<exists>lane. lane_of db svc = Some lane \<and> env_require_approval lane)"

lemma approvalStamp_iff:
  "approvalStamp db now svc user =
     (if needs_approval db svc \<and> isLaneAdmin db svc user then Some (au_id user, now) else None)"
  by (auto simp: approvalStamp_def needs_approval_def split: option.splits)

lemma assertMaySeeLaneSecrets_ok: "is_ok (assertMaySeeLaneSecrets db svc user what) \<longleftrightarrow> maySeeLaneSecrets db svc user"
  by (simp add: assertMaySeeLaneSecrets_def maySeeLaneSecrets_def split: option.split)

text \<open>Inside a lane, being the creator does not help: only a seat in the lane's workspace or a grant does.\<close>

lemma isLaneAdmin_in_lane:
  assumes "lane_of db svc = Some lane" and "isLaneAdmin db svc user"
  shows "au_operator user \<or>
    (\<exists>m \<in> set (members db). mem_workspace m = env_workspace lane \<and> mem_user m = au_id user \<and> Admin \<le> mem_role m) \<or>
    (\<exists>g \<in> set (grantsForUser db (au_id user)). ag_role g = GAdmin \<and>
       (svc_id svc, ag_workspace g) \<in> set (service_workspaces db))"
proof -
  consider "au_operator user"
    | m where "find_seat db (env_workspace lane) (au_id user) = Some m" "roleAtLeast (mem_role m) Admin"
    | "grantRoleForService db (grantsForUser db (au_id user)) (svc_id svc) (Some (svc_environment svc)) = Some GAdmin"
    using assms by (auto simp: isLaneAdmin_def split: if_splits option.splits)
  then show ?thesis
  proof cases
    case (2 m)
    then have "m \<in> set (members db) \<and> mem_workspace m = env_workspace lane \<and> mem_user m = au_id user"
      unfolding find_seat_def by (auto dest: find_Some_mem)
    then show ?thesis using 2(2) by (auto simp: roleAtLeast_le)
  next
    case 3
    then have "maxOf (filter (\<lambda>g. covers g (service_shape_of db (svc_id svc) (svc_environment svc)))
        (grantsForUser db (au_id user))) = Some GAdmin"
      by (simp add: grantRoleForService_eq)
    from maxOf_Some(1) [OF this] show ?thesis
      by (auto simp: covers_def service_shape_of_def split: if_splits)
  qed simp
qed

end
