(* ===== verification/DeployFreezes.thy ===== *)
theory DeployFreezes
  imports ProtectedLanes
begin

text \<open>
  Deploy freezes (\<open>apps/server/src/lib/deployFreeze.ts\<close>): the stored list, its writes (which the
  source serializes, so each is one step here) and the lookup the worker makes before it
  claims a deploy. Times are milliseconds; the ids are supplied by the caller
  (\<open>randomUUID\<close>). The names \<open>present\<close> adds for display are not modelled: a freeze is returned as
  stored.
\<close>

datatype freeze_scope = ScInstance | ScWorkspace | ScProject | ScEnvironment

fun scope_name :: "freeze_scope \<Rightarrow> string" where
  "scope_name ScInstance = ''instance''"
| "scope_name ScWorkspace = ''workspace''"
| "scope_name ScProject = ''project''"
| "scope_name ScEnvironment = ''environment''"

record freeze_input =
  fin_scope :: freeze_scope
  fin_target :: "int option"
  fin_reason :: string
  fin_until :: "ms option"

record stored_freeze =
  frz_id :: string
  frz_scope :: freeze_scope
  frz_target :: "int option"
  frz_reason :: string
  frz_until :: "ms option"
  frz_created :: ms
  frz_by :: "int option"

definition DEPLOY_FREEZES_MAX :: nat where
  "DEPLOY_FREEZES_MAX = 100"

definition freeze_active :: "ms \<Rightarrow> stored_freeze \<Rightarrow> bool" where
  "freeze_active now f \<longleftrightarrow> (case frz_until f of None \<Rightarrow> True | Some u \<Rightarrow> u > now)"

definition targetExists :: "panel_db \<Rightarrow> freeze_scope \<Rightarrow> int \<Rightarrow> bool" where
  "targetExists db scope i =
     (if scope = ScWorkspace then i \<in> set (workspaces db)
      else if scope = ScProject then find_project db i \<noteq> None else find_environment db i \<noteq> None)"

definition createDeployFreeze ::
  "ms \<Rightarrow> string \<Rightarrow> panel_db \<Rightarrow> freeze_input \<Rightarrow> int option \<Rightarrow> stored_freeze list \<Rightarrow>
     stored_freeze outcome \<times> stored_freeze list" where
  "createDeployFreeze now uuid db input userId all =
     (if (case fin_until input of None \<Rightarrow> False | Some u \<Rightarrow> u \<le> now)
      then (Inl (badRequest ''The freeze would already be over: pick a later end'' ''bad_request''), all)
      else if (case fin_target input of None \<Rightarrow> False | Some t \<Rightarrow> \<not> targetExists db (fin_scope input) t)
      then (Inl (notFound (''No such '' @ scope_name (fin_scope input))), all)
      else
        let freeze = \<lparr>frz_id = uuid, frz_scope = fin_scope input, frz_target = fin_target input,
              frz_reason = fin_reason input, frz_until = fin_until input, frz_created = now,
              frz_by = userId\<rparr>;
            list = filter (freeze_active now) all
        in if length list \<ge> DEPLOY_FREEZES_MAX
           then (Inl (badRequest (''At most '' @ nat_text DEPLOY_FREEZES_MAX @
             '' deploy freezes can be in force; lift one first'') ''bad_request''), all)
           else (Inr freeze, list @ [freeze]))"

definition liftDeployFreeze ::
  "ms \<Rightarrow> string \<Rightarrow> stored_freeze list \<Rightarrow> stored_freeze outcome \<times> stored_freeze list" where
  "liftDeployFreeze now i all =
     (case List.find (\<lambda>f. frz_id f = i \<and> freeze_active now f) all of
        None \<Rightarrow> (Inl (notFound ''No such deploy freeze in force''), all)
      | Some found \<Rightarrow> (Inr found, filter (\<lambda>f. frz_id f \<noteq> i \<and> freeze_active now f) all))"

definition listDeployFreezes :: "ms \<Rightarrow> stored_freeze list \<Rightarrow> stored_freeze list" where
  "listDeployFreezes now all = rev (filter (freeze_active now) all)"

definition anyDeployFreeze :: "ms \<Rightarrow> stored_freeze list \<Rightarrow> bool" where
  "anyDeployFreeze now all = list_ex (freeze_active now) all"

definition targets :: "int set \<Rightarrow> stored_freeze \<Rightarrow> bool" where
  "targets S f = (case frz_target f of None \<Rightarrow> False | Some t \<Rightarrow> t \<in> S)"

definition freezeHolding ::
  "ms \<Rightarrow> panel_db \<Rightarrow> stored_freeze list \<Rightarrow> service_row \<Rightarrow> stored_freeze option" where
  "freezeHolding now db all svc =
     (let list = filter (freeze_active now) all in
      if list = [] then None
      else case List.find (\<lambda>f. frz_scope f = ScInstance) list of
        Some f \<Rightarrow> Some f
      | None \<Rightarrow>
        let ids = svc_id svc # (case svc_preview_parent svc of None \<Rightarrow> [] | Some p \<Rightarrow> [p]);
            envIds = (case svc_environment svc of None \<Rightarrow> {} | Some e \<Rightarrow> {e}) \<union>
              (case svc_preview_parent svc of None \<Rightarrow> {}
               | Some p \<Rightarrow> (case find_service db p of None \<Rightarrow> {}
                  | Some parent \<Rightarrow> (case svc_environment parent of None \<Rightarrow> {} | Some e \<Rightarrow> {e})));
            workspaceIds = (if list_ex (\<lambda>f. frz_scope f = ScWorkspace) list
              then set (map snd (filter (\<lambda>t. fst t \<in> set ids) (service_workspaces db))) \<union>
                (if envIds \<noteq> {}
                 then set (map env_workspace (filter (\<lambda>e. env_id e \<in> envIds) (environments db))) else {})
              else {});
            projectIds = (if list_ex (\<lambda>f. frz_scope f = ScProject) list
              then set (map snd (filter (\<lambda>t. fst t \<in> set ids) (service_projects db))) else {})
        in List.find (\<lambda>f. (frz_scope f = ScEnvironment \<and> targets envIds f) \<or>
              (frz_scope f = ScWorkspace \<and> targets workspaceIds f) \<or>
              (frz_scope f = ScProject \<and> targets projectIds f)) list)"

subsection \<open>Specification\<close>

text \<open>
  The services a freeze of a target reaches: the service itself or the parent it previews,
  by tag, by link, or by the lane it sits in and the workspace of that lane.
\<close>

definition family :: "service_row \<Rightarrow> int set" where
  "family svc = insert (svc_id svc) (set_option (svc_preview_parent svc))"

definition lanes_of :: "panel_db \<Rightarrow> service_row \<Rightarrow> int set" where
  "lanes_of db svc = set_option (svc_environment svc) \<union>
     {e. \<exists>p parent. svc_preview_parent svc = Some p \<and> find_service db p = Some parent \<and>
        svc_environment parent = Some e}"

definition freeze_covers :: "panel_db \<Rightarrow> service_row \<Rightarrow> stored_freeze \<Rightarrow> bool" where
  "freeze_covers db svc f \<longleftrightarrow>
     (case frz_scope f of
        ScInstance \<Rightarrow> True
      | ScEnvironment \<Rightarrow> \<exists>e \<in> lanes_of db svc. frz_target f = Some e
      | ScProject \<Rightarrow> \<exists>s \<in> family svc. \<exists>p. (s, p) \<in> set (service_projects db) \<and> frz_target f = Some p
      | ScWorkspace \<Rightarrow> \<exists>w. frz_target f = Some w \<and>
          ((\<exists>s \<in> family svc. (s, w) \<in> set (service_workspaces db)) \<or>
           (\<exists>e \<in> set (environments db). env_id e \<in> lanes_of db svc \<and> env_workspace e = w)))"

lemma targets_iff: "targets S f \<longleftrightarrow> (\<exists>t. frz_target f = Some t \<and> t \<in> S)"
  by (simp add: targets_def split: option.split)

lemma family_set: "set (svc_id svc # (case svc_preview_parent svc of None \<Rightarrow> [] | Some p \<Rightarrow> [p])) = family svc"
  by (cases "svc_preview_parent svc") (simp_all add: family_def)

lemma lanes_set:
  "(case svc_environment svc of None \<Rightarrow> {} | Some e \<Rightarrow> {e}) \<union>
     (case svc_preview_parent svc of None \<Rightarrow> {}
      | Some p \<Rightarrow> (case find_service db p of None \<Rightarrow> {}
         | Some parent \<Rightarrow> (case svc_environment parent of None \<Rightarrow> {} | Some e \<Rightarrow> {e}))) = lanes_of db svc"
  by (auto simp: lanes_of_def split: option.splits)

lemma find_eq_spec:
  assumes "\<And>x. x \<in> set xs \<Longrightarrow> P x \<longleftrightarrow> Q x"
  shows "List.find P xs = List.find Q xs"
  using assms by (induction xs) auto

lemma freezeHolding_spec:
  "freezeHolding now db all svc =
     (case List.find (\<lambda>f. frz_scope f = ScInstance) (filter (freeze_active now) all) of
        Some f \<Rightarrow> Some f
      | None \<Rightarrow> List.find (freeze_covers db svc) (filter (freeze_active now) all))"
proof (cases "List.find (\<lambda>f. frz_scope f = ScInstance) (filter (freeze_active now) all)")
  case None
  let ?list = "filter (freeze_active now) all"
  define W where "W = (if list_ex (\<lambda>f. frz_scope f = ScWorkspace) ?list
    then set (map snd (filter (\<lambda>t. fst t \<in> family svc) (service_workspaces db))) \<union>
      (if lanes_of db svc \<noteq> {}
       then set (map env_workspace (filter (\<lambda>e. env_id e \<in> lanes_of db svc) (environments db))) else {})
    else {})"
  define P where "P = (if list_ex (\<lambda>f. frz_scope f = ScProject) ?list
    then set (map snd (filter (\<lambda>t. fst t \<in> family svc) (service_projects db))) else {})"
  have "freezeHolding now db all svc = List.find (\<lambda>f. (frz_scope f = ScEnvironment \<and> targets (lanes_of db svc) f) \<or>
      (frz_scope f = ScWorkspace \<and> targets W f) \<or> (frz_scope f = ScProject \<and> targets P f)) ?list"
    unfolding freezeHolding_def Let_def family_set lanes_set W_def P_def
    using None by (cases "?list = []") simp_all
  also have "\<dots> = List.find (freeze_covers db svc) ?list"
  proof (rule find_eq_spec)
    fix f assume f: "f \<in> set ?list"
    then have "frz_scope f \<noteq> ScInstance" using None by (auto simp: find_None_iff)
    moreover have "frz_scope f = ScWorkspace \<Longrightarrow> list_ex (\<lambda>f. frz_scope f = ScWorkspace) ?list"
      "frz_scope f = ScProject \<Longrightarrow> list_ex (\<lambda>f. frz_scope f = ScProject) ?list"
      using f by (auto simp: list_ex_iff)
    ultimately show "(frz_scope f = ScEnvironment \<and> targets (lanes_of db svc) f) \<or>
        (frz_scope f = ScWorkspace \<and> targets W f) \<or> (frz_scope f = ScProject \<and> targets P f)
      \<longleftrightarrow> freeze_covers db svc f"
      by (cases "frz_scope f") (force simp: freeze_covers_def targets_iff W_def P_def)+
  qed
  finally show ?thesis using None by simp
qed (auto simp: freezeHolding_def Let_def)

end
