(* ===== verification/HostPrivilege.thy ===== *)
theory HostPrivilege
  imports AccessModel
begin

text \<open>
  The host-privilege boundary (\<open>apps/server/src/lib/hostPrivilege.ts\<close>): the parts of a service
  definition that execute code on the host, which only an instance operator may deploy. The
  typographic apostrophe of one message is written as the ASCII one.
\<close>

record build_config =
  bc_pack :: "string option"
  bc_pre_deploy :: "string option"
  bc_post_deploy :: "string option"
  bc_pre_stop :: "string option"

record privilege_input =
  pi_type :: "string option"
  pi_docker_socket :: "bool option"
  pi_build :: "build_config option"

definition truthy :: "string option \<Rightarrow> bool" where
  "truthy s \<longleftrightarrow> (case s of None \<Rightarrow> False | Some t \<Rightarrow> t \<noteq> [])"

definition hostPrivilegeReasons :: "privilege_input \<Rightarrow> string list" where
  "hostPrivilegeReasons input =
     (if pi_type input = Some ''pm2''
      then [''PM2 services run their install, build and start commands directly on the host''] else []) @
     (if pi_type input = Some ''compose''
      then [''Compose deploys run the repository's compose file, which can mount host paths or request privileged containers''] else []) @
     (if (case pi_build input of None \<Rightarrow> False
          | Some b \<Rightarrow> truthy (bc_pre_deploy b) \<or> truthy (bc_post_deploy b) \<or> truthy (bc_pre_stop b))
      then [''Deployment lifecycle hooks (pre-deploy / post-deploy / pre-stop) execute binaries on the host''] else []) @
     (if (case pi_build input of None \<Rightarrow> False | Some b \<Rightarrow> bc_pack b = Some ''static'')
      then [''The static build pack runs its install and build commands directly on the host''] else []) @
     (if pi_docker_socket input = Some True
      then [''This template mounts the Docker socket, which grants control of every container on the host''] else [])"

definition assertMayUseHostPrivilege :: "authed_user \<Rightarrow> privilege_input \<Rightarrow> unit outcome" where
  "assertMayUseHostPrivilege user input =
     (if au_operator user then Inr ()
      else let reasons = hostPrivilegeReasons input in
        if reasons = [] then Inr ()
        else Inl (forbidden (''Operator access required: '' @ js_join ''; '' reasons @ ''.'')))"

text \<open>The stored build configuration is looked up by service id.\<close>

definition assertMayDeployStoredService ::
  "(int \<times> build_config) list \<Rightarrow> authed_user \<Rightarrow> service_row \<Rightarrow> unit outcome" where
  "assertMayDeployStoredService buildConfigs user svc =
     (if au_operator user then Inr ()
      else assertMayUseHostPrivilege user
        \<lparr>pi_type = Some (svc_type svc), pi_docker_socket = Some (svc_docker_socket svc),
         pi_build = map_of buildConfigs (svc_id svc)\<rparr>)"

text \<open>What reaches the host, stated on the definition itself.\<close>

definition reaches_host :: "(int \<times> build_config) list \<Rightarrow> service_row \<Rightarrow> bool" where
  "reaches_host buildConfigs svc \<longleftrightarrow>
     svc_type svc \<in> {''pm2'', ''compose''} \<or> svc_docker_socket svc \<or>
     (\<exists>b. map_of buildConfigs (svc_id svc) = Some b \<and>
       (bc_pack b = Some ''static'' \<or>
        (\<exists>cmd \<in> {bc_pre_deploy b, bc_post_deploy b, bc_pre_stop b}. cmd \<noteq> None \<and> cmd \<noteq> Some [])))"

lemma truthy_iff: "truthy s \<longleftrightarrow> s \<noteq> None \<and> s \<noteq> Some []"
  by (cases s) (auto simp: truthy_def)

lemma assertMayDeployStoredService_ok:
  "is_ok (assertMayDeployStoredService bcs user svc) \<longleftrightarrow> au_operator user \<or> \<not> reaches_host bcs svc"
  by (cases "map_of bcs (svc_id svc)")
    (auto simp: assertMayDeployStoredService_def assertMayUseHostPrivilege_def hostPrivilegeReasons_def
      reaches_host_def truthy_iff Let_def)

end
