(* ===== verification/DeployQueue.thy ===== *)
theory DeployQueue
  imports DeployFreezes HostPrivilege
begin

text \<open>
  The deploy queue: \<open>apps/server/src/lib/deployQueue.ts\<close> (the one way a caller enqueues), the two
  writers of \<open>lib/protectedLanes.ts\<close>, the review and cancel routes of \<open>modules/deploys.ts\<close>, and
  the selection and claim of the worker (\<open>plugins/worker.ts\<close>, \<open>nextClaimable\<close> and \<open>tick\<close>).

  The selection consults two CI gates and the node hand-off and recovery tables. They are
  arguments here: \<open>ciHold\<close> (what the CI gates do to the store, and whether they hold the row),
  \<open>blocked\<close> (services with a pending hand-off or recovery) and \<open>interrupted\<close> (deployments a
  recovery owns).
\<close>

subsection \<open>Rows\<close>

datatype deploy_status = Queued | Building | Deploying | Running | Superseded | Failed | Cancelled
  | AwaitingApproval | AwaitingCi

record deployment =
  dep_id :: int
  dep_service :: int
  dep_status :: deploy_status
  dep_message :: string
  dep_ci_gate :: bool
  dep_reviewed_by :: "int option"
  dep_reviewed_at :: "ms option"
  dep_started :: "ms option"
  dep_finished :: "ms option"
  dep_created :: ms

record deploy_store =
  dst_db :: panel_db
  dst_deps :: "deployment list"
  dst_next :: int
  dst_builds :: "(int \<times> build_config) list"
  dst_freezes :: "stored_freeze list"

definition find_dep :: "deploy_store \<Rightarrow> int \<Rightarrow> deployment option" where
  "find_dep st i = List.find (\<lambda>d. dep_id d = i) (dst_deps st)"

text \<open>\<open>UPDATE deployments SET \<dots> WHERE \<dots> RETURNING id\<close>.\<close>

definition update_deps ::
  "(deployment \<Rightarrow> bool) \<Rightarrow> (deployment \<Rightarrow> deployment) \<Rightarrow> deploy_store \<Rightarrow> int list \<times> deploy_store" where
  "update_deps P f st =
     (map dep_id (filter P (dst_deps st)),
      st\<lparr>dst_deps := map (\<lambda>d. if P d then f d else d) (dst_deps st)\<rparr>)"

subsection \<open>Enqueue\<close>

definition MAX_QUEUED_PER_SERVICE :: nat where
  "MAX_QUEUED_PER_SERVICE = 50"

definition queued_count :: "deploy_store \<Rightarrow> int \<Rightarrow> nat" where
  "queued_count st sid =
     length (filter (\<lambda>d. dep_service d = sid \<and> dep_status d \<in> {Queued, AwaitingCi}) (dst_deps st))"

definition assertMayEnqueueDeploy :: "deploy_store \<Rightarrow> authed_user \<Rightarrow> service_row \<Rightarrow> string \<Rightarrow> unit outcome" where
  "assertMayEnqueueDeploy st user svc subject =
     rbind (assertMayDeployStoredService (dst_builds st) user svc) (\<lambda>_.
       if queued_count st (svc_id svc) \<ge> MAX_QUEUED_PER_SERVICE
       then Inl (badRequest (subject @ '' already has '' @ nat_text (queued_count st (svc_id svc)) @
         '' queued deploys (max '' @ nat_text MAX_QUEUED_PER_SERVICE @ ''). Cancel one first.'') ''bad_request'')
       else Inr ())"

text \<open>The insert rechecks the cap on the state it runs in.\<close>

definition insertQueued ::
  "ms \<Rightarrow> service_row \<Rightarrow> string \<Rightarrow> string \<Rightarrow> (int \<times> ms) option \<Rightarrow> deploy_store \<Rightarrow> int outcome \<times> deploy_store" where
  "insertQueued now svc message subject review st =
     (if queued_count st (svc_id svc) < MAX_QUEUED_PER_SERVICE
      then (Inr (dst_next st),
        st\<lparr>dst_deps := dst_deps st @ [\<lparr>dep_id = dst_next st, dep_service = svc_id svc, dep_status = Queued,
              dep_message = message, dep_ci_gate = False, dep_reviewed_by = map_option fst review,
              dep_reviewed_at = map_option snd review, dep_started = None, dep_finished = None,
              dep_created = now\<rparr>],
           dst_next := dst_next st + 1\<rparr>)
      else (Inl (badRequest (subject @ '' reached the queued deploy limit (max '' @
        nat_text MAX_QUEUED_PER_SERVICE @ ''). Cancel one first.'') ''bad_request''), st))"

definition enqueueUserDeploy ::
  "ms \<Rightarrow> authed_user \<Rightarrow> service_row \<Rightarrow> string \<Rightarrow> string \<Rightarrow> bool \<Rightarrow> deploy_store \<Rightarrow> int outcome \<times> deploy_store" where
  "enqueueUserDeploy now user svc message subject selfApproval st =
     (case assertMayEnqueueDeploy st user svc subject of
        Inl e \<Rightarrow> (Inl e, st)
      | Inr _ \<Rightarrow>
          let review = (if selfApproval \<and> (svc_environment svc \<noteq> None \<or> svc_preview_parent svc \<noteq> None \<or>
                svc_from_fork svc)
              then approvalStamp (dst_db st) now svc user else None)
          in insertQueued now svc message subject review st)"

subsection \<open>Approval\<close>

definition holdForApprovalIfNeeded ::
  "service_row \<Rightarrow> deployment \<Rightarrow> deploy_store \<Rightarrow> bool \<times> deploy_store" where
  "holdForApprovalIfNeeded svc row st =
     (if dep_reviewed_at row \<noteq> None then (False, st)
      else if \<not> svc_from_fork svc \<and> svc_environment svc = None \<and> svc_preview_parent svc = None then (False, st)
      else if \<not> svc_from_fork svc \<and>
        (case lane_of (dst_db st) svc of None \<Rightarrow> True | Some lane \<Rightarrow> \<not> env_require_approval lane) then (False, st)
      else
        (case update_deps (\<lambda>d. dep_id d = dep_id row \<and> dep_status d = Queued)
                (\<lambda>d. d\<lparr>dep_status := AwaitingApproval\<rparr>) st of
           (held, st') \<Rightarrow> (held \<noteq> [], st')))"

definition dropStaleApprovals :: "ms \<Rightarrow> int \<Rightarrow> int \<Rightarrow> deploy_store \<Rightarrow> int list \<times> deploy_store" where
  "dropStaleApprovals now serviceId startedId st =
     update_deps (\<lambda>d. dep_service d = serviceId \<and>
         (dep_status d \<in> {AwaitingApproval, AwaitingCi} \<or> (dep_status d = Queued \<and> dep_ci_gate d)) \<and>
         dep_id d < startedId)
       (\<lambda>d. d\<lparr>dep_status := Cancelled, dep_finished := Some now\<rparr>) st"

datatype decision = Approve | Reject

definition not_awaiting :: http_error where
  "not_awaiting = badRequest ''This deployment is not waiting for approval'' ''not_awaiting_approval''"

definition reviewDeploy ::
  "ms \<Rightarrow> int \<Rightarrow> int \<Rightarrow> authed_user \<Rightarrow> decision \<Rightarrow> deploy_store \<Rightarrow> unit outcome \<times> deploy_store" where
  "reviewDeploy now sid depId user dec st =
     (case loadServiceForUser (dst_db st) sid user of
        Inl e \<Rightarrow> (Inl e, st)
      | Inr svc \<Rightarrow>
        if \<not> isLaneAdmin (dst_db st) svc user
        then (Inl (forbidden ''Only a workspace admin may approve or reject a deploy into this lane''), st)
        else case find_dep st depId of
          None \<Rightarrow> (Inl (notFound ''Deployment not found''), st)
        | Some dep \<Rightarrow>
            if dep_service dep \<noteq> sid then (Inl (notFound ''Deployment not found''), st)
            else if dep_status dep \<noteq> AwaitingApproval then (Inl not_awaiting, st)
            else
              (case update_deps (\<lambda>d. dep_id d = depId \<and> dep_status d = AwaitingApproval)
                 (\<lambda>d. d\<lparr>dep_status := (if dec = Approve then Queued else Cancelled),
                       dep_reviewed_by := Some (au_id user), dep_reviewed_at := Some now,
                       dep_finished := (if dec = Approve then dep_finished d else Some now)\<rparr>) st of
               (flipped, st') \<Rightarrow> (if flipped = [] then Inl not_awaiting else Inr (), st')))"

definition isCancellable :: "deploy_status \<Rightarrow> bool" where
  "isCancellable s \<longleftrightarrow> s \<in> {Queued, Building, Deploying, AwaitingCi, AwaitingApproval}"

definition cancelDeploy ::
  "ms \<Rightarrow> int \<Rightarrow> int \<Rightarrow> authed_user \<Rightarrow> deploy_store \<Rightarrow> unit outcome \<times> deploy_store" where
  "cancelDeploy now sid depId user st =
     (case loadServiceForUser (dst_db st) sid user of
        Inl e \<Rightarrow> (Inl e, st)
      | Inr svc \<Rightarrow>
        (case assertServiceRole (dst_db st) (svc_id svc) (svc_owner svc) (Some (svc_environment svc)) user Member of
           Inl e \<Rightarrow> (Inl e, st)
         | Inr _ \<Rightarrow>
           (case find_dep st depId of
              None \<Rightarrow> (Inl (notFound ''Deployment not found''), st)
            | Some dep \<Rightarrow>
                if dep_service dep \<noteq> sid then (Inl (notFound ''Deployment not found''), st)
                else if \<not> isCancellable (dep_status dep)
                then (Inl (badRequest ''Deployment is not in progress'' ''bad_request''), st)
                else
                  (case update_deps (\<lambda>d. dep_id d = depId \<and> isCancellable (dep_status d))
                     (\<lambda>d. d\<lparr>dep_status := Cancelled, dep_finished := Some now\<rparr>) st of
                   (flipped, st') \<Rightarrow>
                     (if flipped = [] then Inl (badRequest ''Deployment is not in progress'' ''bad_request'')
                      else Inr (), st')))))"

subsection \<open>Selection and claim\<close>

record claim_env =
  ce_now :: ms
  ce_concurrency :: nat
  ce_in_flight :: "int set"
  ce_blocked :: "int \<Rightarrow> bool"
  ce_interrupted :: "int \<Rightarrow> bool"
  ce_ci_hold :: "int \<Rightarrow> deploy_store \<Rightarrow> bool \<times> deploy_store"

definition is_active :: "deployment \<Rightarrow> bool" where
  "is_active d \<longleftrightarrow> dep_status d = Building \<or> dep_status d = Deploying"

definition server_key :: "service_row \<Rightarrow> int" where
  "server_key svc = (case svc_server svc of None \<Rightarrow> 0 | Some s \<Rightarrow> s)"

text \<open>Builds in flight per target server (null is this host, 0).\<close>

definition per_partition :: "claim_env \<Rightarrow> deploy_store \<Rightarrow> int \<Rightarrow> nat" where
  "per_partition ce st key =
     length (filter (\<lambda>d. is_active d \<and> \<not> ce_interrupted ce (dep_id d) \<and>
       (case find_service (dst_db st) (dep_service d) of None \<Rightarrow> False | Some s \<Rightarrow> server_key s = key))
       (dst_deps st))"

definition candidates :: "claim_env \<Rightarrow> deploy_store \<Rightarrow> (deployment \<times> service_row) list" where
  "candidates ce st =
     (let buildingServices = map dep_service
            (filter (\<lambda>d. is_active d \<and> \<not> ce_interrupted ce (dep_id d)) (dst_deps st))
      in sort_key (\<lambda>(d, s). dep_created d)
        (List.map_filter (\<lambda>d. map_option (\<lambda>s. (d, s)) (find_service (dst_db st) (dep_service d)))
          (filter (\<lambda>d. dep_status d = Queued \<and> dep_service d \<notin> set buildingServices \<and>
             \<not> ce_blocked ce (dep_service d)) (dst_deps st))))"

text \<open>
  The loop over the candidates. \<open>busy\<close> is counted once, before the loop; a row the CI
  gate holds drops older waiting rows when it now waits for CI.
\<close>

fun claim_loop ::
  "claim_env \<Rightarrow> bool \<Rightarrow> (int \<Rightarrow> nat) \<Rightarrow> (deployment \<times> service_row) list \<Rightarrow> deploy_store \<Rightarrow>
     (deployment \<times> service_row) option \<times> deploy_store" where
  "claim_loop ce frozen busy [] st = (None, st)"
| "claim_loop ce frozen busy ((row, svc) # rows) st =
     (if dep_service row \<in> ce_in_flight ce then claim_loop ce frozen busy rows st
      else if frozen \<and> freezeHolding (ce_now ce) (dst_db st) (dst_freezes st) svc \<noteq> None
      then claim_loop ce frozen busy rows st
      else case ce_ci_hold ce (dep_id row) st of
        (True, st1) \<Rightarrow>
          if (case find_dep st1 (dep_id row) of None \<Rightarrow> False | Some d \<Rightarrow> dep_status d = AwaitingCi)
          then claim_loop ce frozen busy rows
                 (snd (dropStaleApprovals (ce_now ce) (dep_service row) (dep_id row) st1))
          else claim_loop ce frozen busy rows st1
      | (False, st1) \<Rightarrow>
          (case holdForApprovalIfNeeded svc row st1 of
             (True, st2) \<Rightarrow> claim_loop ce frozen busy rows
               (snd (dropStaleApprovals (ce_now ce) (dep_service row) (dep_id row) st2))
           | (False, st2) \<Rightarrow>
               if busy (server_key svc) < ce_concurrency ce then (Some (row, svc), st2)
               else claim_loop ce frozen busy rows st2))"

definition nextClaimable ::
  "claim_env \<Rightarrow> deploy_store \<Rightarrow> (deployment \<times> service_row) option \<times> deploy_store" where
  "nextClaimable ce st =
     (let queued = candidates ce st in
      claim_loop ce (queued \<noteq> [] \<and> anyDeployFreeze (ce_now ce) (dst_freezes st))
        (per_partition ce st) queued st)"

text \<open>The atomic write: every guard is evaluated on the state the update runs in.\<close>

definition claimable :: "claim_env \<Rightarrow> deploy_store \<Rightarrow> int \<Rightarrow> deployment \<Rightarrow> bool" where
  "claimable ce st i d \<longleftrightarrow>
     dep_id d = i \<and> dep_status d = Queued \<and> \<not> ce_blocked ce (dep_service d) \<and>
     \<not> list_ex (\<lambda>a. dep_service a = dep_service d \<and> is_active a) (dst_deps st) \<and>
     (\<not> dep_ci_gate d \<or>
      \<not> list_ex (\<lambda>n. dep_service n = dep_service d \<and> dep_id n > dep_id d \<and>
          (dep_started n \<noteq> None \<or> dep_status n \<in> {Building, Deploying, Running, Superseded})) (dst_deps st))"

definition claim :: "claim_env \<Rightarrow> int \<Rightarrow> deploy_store \<Rightarrow> bool \<times> deploy_store" where
  "claim ce i st =
     (case update_deps (claimable ce st i) (\<lambda>d. d\<lparr>dep_status := Building\<rparr>) st of
        (ids, st') \<Rightarrow> (length ids = 1, st'))"

definition tick :: "claim_env \<Rightarrow> deploy_store \<Rightarrow> (deployment \<times> service_row) option \<times> deploy_store" where
  "tick ce st =
     (case nextClaimable ce st of
        (None, st1) \<Rightarrow> (None, st1)
      | (Some (row, svc), st1) \<Rightarrow>
          (case claim ce (dep_id row) st1 of
             (True, st2) \<Rightarrow> (Some (row, svc), snd (dropStaleApprovals (ce_now ce) (dep_service row) (dep_id row) st2))
           | (False, st2) \<Rightarrow> (None, st2)))"

end
