(* ===== verification/DeployLemmas.thy ===== *)
theory DeployLemmas
  imports DeployQueue
begin

text \<open>
  The library of the deploy queue: at most one deployment of a service builds at a time, and
  what a tick of the worker has checked about the row it claims.
\<close>

subsection \<open>Counting and updating rows\<close>

definition active_count :: "deploy_store \<Rightarrow> int \<Rightarrow> nat" where
  "active_count st sid = length (filter (\<lambda>d. dep_service d = sid \<and> is_active d) (dst_deps st))"

definition queue_inv :: "deploy_store \<Rightarrow> bool" where
  "queue_inv st \<longleftrightarrow> distinct (map dep_id (dst_deps st)) \<and>
     (\<forall>d \<in> set (dst_deps st). dep_id d < dst_next st) \<and> (\<forall>sid. active_count st sid \<le> 1)"

lemma update_deps_simps [simp]:
  "dst_db (snd (update_deps P f st)) = dst_db st"
  "dst_next (snd (update_deps P f st)) = dst_next st"
  "dst_freezes (snd (update_deps P f st)) = dst_freezes st"
  "dst_builds (snd (update_deps P f st)) = dst_builds st"
  "dst_deps (snd (update_deps P f st)) = map (\<lambda>d. if P d then f d else d) (dst_deps st)"
  "fst (update_deps P f st) = map dep_id (filter P (dst_deps st))"
  by (simp_all add: update_deps_def)

lemma length_filter_map_le:
  assumes "\<And>x. x \<in> set xs \<Longrightarrow> Q (g x) \<Longrightarrow> Q x"
  shows "length (filter Q (map g xs)) \<le> length (filter Q xs)"
  using assms by (induction xs) (auto simp: le_SucI)

text \<open>An update keeps the invariant when it activates at most one row per service.\<close>

lemma update_deps_inv':
  assumes inv: "queue_inv st"
    and keys: "\<And>d. dep_id (f d) = dep_id d"
    and one: "\<And>sid. active_count (snd (update_deps P f st)) sid \<le> 1"
  shows "queue_inv (snd (update_deps P f st))"
proof -
  have "map dep_id (map (\<lambda>d. if P d then f d else d) (dst_deps st)) = map dep_id (dst_deps st)"
    by (simp add: keys)
  then have "distinct (map dep_id (map (\<lambda>d. if P d then f d else d) (dst_deps st)))"
    using inv by (simp only: queue_inv_def)
  then show ?thesis
    using inv one unfolding queue_inv_def update_deps_simps by (auto simp: keys)
qed

lemma update_deps_inv:
  assumes inv: "queue_inv st"
    and keys: "\<And>d. dep_id (f d) = dep_id d" "\<And>d. dep_service (f d) = dep_service d"
    and calm: "\<And>d. d \<in> set (dst_deps st) \<Longrightarrow> P d \<Longrightarrow> is_active (f d) \<Longrightarrow> is_active d"
  shows "queue_inv (snd (update_deps P f st))"
proof (rule update_deps_inv' [OF inv keys(1)])
  fix sid
  have "active_count (snd (update_deps P f st)) sid \<le> active_count st sid"
    unfolding active_count_def update_deps_simps
    by (rule length_filter_map_le) (auto simp: keys calm split: if_splits)
  also have "\<dots> \<le> 1" using inv by (simp add: queue_inv_def)
  finally show "active_count (snd (update_deps P f st)) sid \<le> 1" .
qed

lemma holdForApproval_inv: "queue_inv st \<Longrightarrow> queue_inv (snd (holdForApprovalIfNeeded svc row st))"
  by (auto simp: holdForApprovalIfNeeded_def is_active_def split_beta intro: update_deps_inv)

lemma dropStaleApprovals_inv: "queue_inv st \<Longrightarrow> queue_inv (snd (dropStaleApprovals now sid i st))"
  by (auto simp: dropStaleApprovals_def is_active_def intro: update_deps_inv)

lemma reviewDeploy_inv: "queue_inv st \<Longrightarrow> queue_inv (snd (reviewDeploy now sid i user dec st))"
  by (auto simp: reviewDeploy_def is_active_def split_beta intro!: update_deps_inv
    split: sum.split option.split)

lemma cancelDeploy_inv: "queue_inv st \<Longrightarrow> queue_inv (snd (cancelDeploy now sid i user st))"
  by (auto simp: cancelDeploy_def is_active_def split_beta intro!: update_deps_inv
    split: sum.split option.split)

lemma insertQueued_inv:
  assumes "queue_inv st" shows "queue_inv (snd (insertQueued now svc msg subj review st))"
proof -
  have "dst_next st \<notin> dep_id ` set (dst_deps st)" using assms by (force simp: queue_inv_def)
  then show ?thesis
    using assms by (auto simp: insertQueued_def queue_inv_def active_count_def is_active_def)
qed

lemma enqueueUserDeploy_inv: "queue_inv st \<Longrightarrow> queue_inv (snd (enqueueUserDeploy now user svc msg subj sa st))"
  by (simp add: enqueueUserDeploy_def Let_def insertQueued_inv split: sum.split)

subsection \<open>The claim\<close>

lemma distinct_filter_key: "distinct (map k xs) \<Longrightarrow> length (filter (\<lambda>x. k x = i) xs) \<le> 1"
proof (induction xs)
  case (Cons x xs)
  then show ?case by (cases "k x = i") (auto simp: filter_empty_conv image_iff)
qed simp

lemma claim_state: "snd (claim ce i st) = snd (update_deps (claimable ce st i) (\<lambda>d. d\<lparr>dep_status := Building\<rparr>) st)"
  by (simp add: claim_def split_beta)

lemma claim_inv:
  assumes inv: "queue_inv st"
  shows "queue_inv (snd (claim ce i st))"
proof -
  let ?g = "\<lambda>d. if claimable ce st i d then d\<lparr>dep_status := Building\<rparr> else d"
  have ids: "distinct (map dep_id (dst_deps st))" and one: "active_count st sid \<le> 1" for sid
    using inv by (auto simp: queue_inv_def)
  have deps: "dst_deps (snd (claim ce i st)) = map ?g (dst_deps st)" by (simp add: claim_state)
  have "active_count (snd (claim ce i st)) sid \<le> 1" for sid
  proof -
    have split: "active_count (snd (claim ce i st)) sid =
        length (filter (\<lambda>d. dep_service d = sid \<and> (claimable ce st i d \<or> is_active d)) (dst_deps st))"
      by (simp add: active_count_def deps filter_map comp_def is_active_def
        cong: filter_cong conj_cong) (auto intro!: arg_cong [where f = length] filter_cong)
    show ?thesis
    proof (cases "\<exists>d \<in> set (dst_deps st). claimable ce st i d \<and> dep_service d = sid")
      case True
      then have idle: "a \<in> set (dst_deps st) \<Longrightarrow> dep_service a = sid \<Longrightarrow> \<not> is_active a" for a
        by (auto simp: claimable_def list_ex_iff)
      have "filter (\<lambda>d. dep_service d = sid \<and> (claimable ce st i d \<or> is_active d)) (dst_deps st)
          = filter (\<lambda>d. dep_id d = i \<and> dep_service d = sid \<and> claimable ce st i d) (dst_deps st)"
        using idle by (auto intro!: filter_cong simp: claimable_def)
      also have "length \<dots> \<le> length (filter (\<lambda>d. dep_id d = i) (dst_deps st))"
        by (induction "dst_deps st") (simp_all add: length_filter_conv_card card_mono Collect_mono)
      also have "\<dots> \<le> 1" using ids by (rule distinct_filter_key)
      finally show ?thesis by (simp add: split)
    next
      case False
      then have "active_count (snd (claim ce i st)) sid = active_count st sid"
        unfolding split unfolding active_count_def by (auto intro!: arg_cong [where f = length] filter_cong)
      then show ?thesis using one by simp
    qed
  qed
  then show ?thesis unfolding claim_state by (intro update_deps_inv' [OF inv]) simp_all
qed

subsection \<open>Every operation, in any order\<close>

text \<open>
  Besides the operations above: the pipeline moves an active row to any status, a CI gate moves
  a row that is not active to one that is not active, and the other tables change.
\<close>

inductive queue_step :: "deploy_store \<Rightarrow> deploy_store \<Rightarrow> bool" where
  enqueued: "queue_step st (snd (enqueueUserDeploy now user svc msg subj sa st))"
| claimed: "queue_step st (snd (claim ce i st))"
| gated: "queue_step st (snd (holdForApprovalIfNeeded svc row st))"
| dropped: "queue_step st (snd (dropStaleApprovals now sid i st))"
| reviewed: "queue_step st (snd (reviewDeploy now sid i user dec st))"
| cancelled: "queue_step st (snd (cancelDeploy now sid i user st))"
| pipeline: "queue_step st (snd (update_deps (\<lambda>d. dep_id d = i \<and> is_active d) (\<lambda>d. d\<lparr>dep_status := s\<rparr>) st))"
| ci_gate: "s \<notin> {Building, Deploying} \<Longrightarrow>
    queue_step st (snd (update_deps (\<lambda>d. dep_id d = i \<and> \<not> is_active d) (\<lambda>d. d\<lparr>dep_status := s\<rparr>) st))"
| elsewhere: "queue_step st (st\<lparr>dst_db := db, dst_builds := bcs, dst_freezes := fs\<rparr>)"

definition empty_queue :: "deploy_store \<Rightarrow> bool" where
  "empty_queue st \<longleftrightarrow> dst_deps st = []"

interpretation queue: guarded_system empty_queue queue_step queue_inv
proof
  fix st assume "empty_queue st"
  then show "queue_inv st" by (simp add: empty_queue_def queue_inv_def active_count_def)
next
  fix st st' assume "queue_step st st'" and "queue_inv st"
  then show "queue_inv st'"
  proof cases
    case (pipeline i s)
    then show ?thesis using \<open>queue_inv st\<close> by (auto intro!: update_deps_inv)
  next
    case (ci_gate s i)
    then show ?thesis using \<open>queue_inv st\<close> by (auto intro!: update_deps_inv simp: is_active_def)
  next
    case (elsewhere db bcs fs)
    then show ?thesis using \<open>queue_inv st\<close> by (simp add: queue_inv_def active_count_def)
  qed (auto intro: enqueueUserDeploy_inv claim_inv holdForApproval_inv dropStaleApprovals_inv
    reviewDeploy_inv cancelDeploy_inv)
qed

subsection \<open>What a tick has checked\<close>

text \<open>The CI gates write deployment rows only.\<close>

definition ci_rows_only :: "claim_env \<Rightarrow> bool" where
  "ci_rows_only ce \<longleftrightarrow> (\<forall>i st. dst_db (snd (ce_ci_hold ce i st)) = dst_db st \<and>
     dst_freezes (snd (ce_ci_hold ce i st)) = dst_freezes st)"

lemma holdForApproval_same [simp]:
  "dst_db (snd (holdForApprovalIfNeeded svc row st)) = dst_db st"
  "dst_freezes (snd (holdForApprovalIfNeeded svc row st)) = dst_freezes st"
  by (simp_all add: holdForApprovalIfNeeded_def split_beta)

lemma dropStale_same [simp]:
  "dst_db (snd (dropStaleApprovals now sid i st)) = dst_db st"
  "dst_freezes (snd (dropStaleApprovals now sid i st)) = dst_freezes st"
  by (simp_all add: dropStaleApprovals_def)

lemma claim_loop_picked:
  assumes "claim_loop ce frozen busy rows st = (Some (row, svc), st2)" and "ci_rows_only ce"
  shows "(row, svc) \<in> set rows \<and> dep_service row \<notin> ce_in_flight ce \<and>
    \<not> (frozen \<and> freezeHolding (ce_now ce) (dst_db st) (dst_freezes st) svc \<noteq> None) \<and>
    busy (server_key svc) < ce_concurrency ce \<and>
    (\<exists>st1. dst_db st1 = dst_db st \<and> holdForApprovalIfNeeded svc row st1 = (False, st2))"
  using assms(1)
proof (induction rows arbitrary: st)
  case (Cons r rows)
  obtain row' svc' where r: "r = (row', svc')" by (cases r)
  obtain b st1 where ci: "ce_ci_hold ce (dep_id row') st = (b, st1)" by fastforce
  have same: "dst_db st1 = dst_db st" "dst_freezes st1 = dst_freezes st"
    using assms(2) ci unfolding ci_rows_only_def by (metis snd_conv)+
  obtain h st2' where hold: "holdForApprovalIfNeeded svc' row' st1 = (h, st2')" by fastforce
  have same2: "dst_db st2' = dst_db st" "dst_freezes st2' = dst_freezes st"
    using holdForApproval_same [of svc' row' st1] hold same by simp_all
  have step: ?case if "claim_loop ce frozen busy rows s = (Some (row, svc), st2)"
      "dst_db s = dst_db st" "dst_freezes s = dst_freezes st" for s
    using Cons.IH [OF that(1)] that(2,3) by simp
  show ?case
  proof (cases "dep_service row' \<in> ce_in_flight ce \<or>
      (frozen \<and> freezeHolding (ce_now ce) (dst_db st) (dst_freezes st) svc' \<noteq> None)")
    case True
    then have "claim_loop ce frozen busy rows st = (Some (row, svc), st2)"
      using Cons.prems unfolding r by (auto split: if_splits)
    then show ?thesis by (rule step) simp_all
  next
    case False
    note free = this
    then have prems: "(case (b, st1) of
        (True, st1) \<Rightarrow>
          if (case find_dep st1 (dep_id row') of None \<Rightarrow> False | Some d \<Rightarrow> dep_status d = AwaitingCi)
          then claim_loop ce frozen busy rows
                 (snd (dropStaleApprovals (ce_now ce) (dep_service row') (dep_id row') st1))
          else claim_loop ce frozen busy rows st1
      | (False, st1) \<Rightarrow>
          (case holdForApprovalIfNeeded svc' row' st1 of
             (True, st2) \<Rightarrow> claim_loop ce frozen busy rows
               (snd (dropStaleApprovals (ce_now ce) (dep_service row') (dep_id row') st2))
           | (False, st2) \<Rightarrow>
               if busy (server_key svc') < ce_concurrency ce then (Some (row', svc'), st2)
               else claim_loop ce frozen busy rows st2)) = (Some (row, svc), st2)"
      using Cons.prems ci unfolding r claim_loop.simps by (metis (no_types, lifting))
    show ?thesis
    proof (cases b)
      case True
      then have "claim_loop ce frozen busy rows (snd (dropStaleApprovals (ce_now ce) (dep_service row') (dep_id row') st1))
          = (Some (row, svc), st2) \<or> claim_loop ce frozen busy rows st1 = (Some (row, svc), st2)"
        using prems by (simp split: if_splits)
      then show ?thesis by (elim disjE) (rule step, assumption, simp_all only: dropStale_same same)+
    next
      case False
      note nb = this
      show ?thesis
      proof (cases h)
        case True
        then have "claim_loop ce frozen busy rows (snd (dropStaleApprovals (ce_now ce) (dep_service row') (dep_id row') st2'))
          = (Some (row, svc), st2)" using prems nb hold by simp
        then show ?thesis by (rule step) (simp_all add: same2)
      next
        case False
        then have rest: "(if busy (server_key svc') < ce_concurrency ce then (Some (row', svc'), st2')
            else claim_loop ce frozen busy rows st2') = (Some (row, svc), st2)"
          using prems nb hold by simp
        show ?thesis
        proof (cases "busy (server_key svc') < ce_concurrency ce")
          case True
          then have "row = row'" "svc = svc'" "st2 = st2'" using rest by auto
          then show ?thesis using r free True hold \<open>\<not> h\<close> same by auto
        next
          case False
          then have "claim_loop ce frozen busy rows st2' = (Some (row, svc), st2)" using rest by simp
          then show ?thesis using same2 by (rule step)
        qed
      qed
    qed
  qed
qed simp

lemma freezeHolding_idle: "\<not> anyDeployFreeze now all \<Longrightarrow> freezeHolding now db all svc = None"
  by (simp add: anyDeployFreeze_def freezeHolding_def list_ex_iff Let_def filter_empty_conv)

lemma nextClaimable_picked:
  assumes "nextClaimable ce st = (Some (row, svc), st2)" and "ci_rows_only ce"
  shows "(row, svc) \<in> set (candidates ce st)"
    and "dep_service row \<notin> ce_in_flight ce"
    and "freezeHolding (ce_now ce) (dst_db st) (dst_freezes st) svc = None"
    and "per_partition ce st (server_key svc) < ce_concurrency ce"
    and "\<exists>st1. dst_db st1 = dst_db st \<and> holdForApprovalIfNeeded svc row st1 = (False, st2)"
proof -
  note picked = claim_loop_picked [OF assms(1) [unfolded nextClaimable_def Let_def] assms(2)]
  show mem: "(row, svc) \<in> set (candidates ce st)" using picked by simp
  then have "candidates ce st \<noteq> []" by auto
  then show "freezeHolding (ce_now ce) (dst_db st) (dst_freezes st) svc = None"
    using picked freezeHolding_idle by blast
qed (use claim_loop_picked [OF assms(1) [unfolded nextClaimable_def Let_def] assms(2)] in blast)+

lemma candidates_mem:
  assumes "(row, svc) \<in> set (candidates ce st)"
  shows "row \<in> set (dst_deps st)" "dep_status row = Queued" "\<not> ce_blocked ce (dep_service row)"
    "find_service (dst_db st) (dep_service row) = Some svc"
  using assms by (auto simp: candidates_def Let_def List.map_filter_def)

text \<open>A gate that does not hold an unreviewed row found no queued row to hold.\<close>

lemma holdForApproval_passes:
  assumes "holdForApprovalIfNeeded svc row st = (False, st')" and "needs_approval (dst_db st) svc"
    and "dep_reviewed_at row = None"
  shows "st' = st \<and> (\<forall>d \<in> set (dst_deps st). \<not> (dep_id d = dep_id row \<and> dep_status d = Queued))"
proof -
  have "\<not> (\<not> svc_from_fork svc \<and> svc_environment svc = None \<and> svc_preview_parent svc = None)"
    using assms(2) by (cases "svc_environment svc") (auto simp: needs_approval_def lane_of_def laneRules_def)
  moreover have "\<not> (\<not> svc_from_fork svc \<and>
      (case lane_of (dst_db st) svc of None \<Rightarrow> True | Some lane \<Rightarrow> \<not> env_require_approval lane))"
    using assms(2) by (auto simp: needs_approval_def)
  ultimately have eq: "update_deps (\<lambda>d. dep_id d = dep_id row \<and> dep_status d = Queued)
      (\<lambda>d. d\<lparr>dep_status := AwaitingApproval\<rparr>) st = ([], st')"
    using assms(1,3) by (auto simp: holdForApprovalIfNeeded_def split: prod.splits)
  then have none: "\<forall>d \<in> set (dst_deps st). \<not> (dep_id d = dep_id row \<and> dep_status d = Queued)"
    by (auto simp: update_deps_def filter_empty_conv)
  then have "map (\<lambda>d. if dep_id d = dep_id row \<and> dep_status d = Queued
      then d\<lparr>dep_status := AwaitingApproval\<rparr> else d) (dst_deps st) = dst_deps st"
    by (intro map_idI) auto
  then show ?thesis using none eq by (auto simp: update_deps_def)
qed

lemma claim_needs_queued:
  assumes "fst (claim ce i st)"
  shows "\<exists>d \<in> set (dst_deps st). dep_id d = i \<and> dep_status d = Queued"
proof -
  have "length (filter (claimable ce st i) (dst_deps st)) = 1"
    using assms by (simp add: claim_def split_beta)
  then have "filter (claimable ce st i) (dst_deps st) \<noteq> []" by auto
  then show ?thesis by (auto simp: filter_empty_conv claimable_def)
qed

lemma tick_claims:
  assumes "tick ce st = (Some (row, svc), st')" and "ci_rows_only ce"
  obtains st1 where "nextClaimable ce st = (Some (row, svc), st1)" "fst (claim ce (dep_id row) st1)"
    "st' = snd (dropStaleApprovals (ce_now ce) (dep_service row) (dep_id row) (snd (claim ce (dep_id row) st1)))"
proof -
  obtain p st1 where n: "nextClaimable ce st = (p, st1)" by fastforce
  obtain row' svc' where p: "p = Some (row', svc')"
    using assms(1) n by (cases p) (auto simp: tick_def)
  obtain b st2 where c: "claim ce (dep_id row') st1 = (b, st2)" by fastforce
  show thesis using assms(1) n p c that by (cases b) (auto simp: tick_def)
qed

end
