(* ===== verification/DeployProperties.thy ===== *)
theory DeployProperties
  imports DeployLemmas
begin

text \<open>
  The properties of the deploy gates: host privilege, freezes, protected lanes, approvals and
  the claim of the worker, with a sample panel whose only lane requires approval.
\<close>

subsection \<open>A sample panel\<close>

text \<open>
  Workspace 1 with lane 5 (protected, approval required); service 100, created by user 10 (a
  member), sits in it; user 11 is an admin of the workspace.
\<close>

definition lane5 :: environment_row where
  "lane5 = \<lparr>env_id = 5, env_workspace = 1, env_name = ''production'', env_protected = True,
     env_require_approval = True\<rparr>"

definition svc100 :: service_row where
  "svc100 = \<lparr>svc_id = 100, svc_owner = Some 10, svc_environment = Some 5, svc_preview_parent = None,
     svc_from_fork = False, svc_type = ''docker'', svc_docker_socket = False, svc_server = None\<rparr>"

definition lane_db :: panel_db where
  "lane_db = \<lparr>
     users = [\<lparr>usr_id = 10, usr_operator = False, usr_deactivated = None, usr_deactivated_by = None\<rparr>,
              \<lparr>usr_id = 11, usr_operator = False, usr_deactivated = None, usr_deactivated_by = None\<rparr>],
     members = [\<lparr>mem_workspace = 1, mem_user = 10, mem_role = Member\<rparr>,
                \<lparr>mem_workspace = 1, mem_user = 11, mem_role = Admin\<rparr>],
     services = [svc100], projects = [], databases = [], environments = [lane5],
     service_workspaces = [(100, 1)], service_projects = [], access_grants = [], workspaces = [1]\<rparr>"

definition lane_store :: deploy_store where
  "lane_store = \<lparr>dst_db = lane_db, dst_deps = [], dst_next = 1, dst_builds = [], dst_freezes = []\<rparr>"

definition panel_user :: "int \<Rightarrow> authed_user" where
  "panel_user i = \<lparr>au_id = i, au_operator = False\<rparr>"

lemmas lane_defs = lane_db_def svc100_def lane5_def panel_user_def

lemma lane_of_100: "lane_of lane_db svc100 = Some lane5"
  by (simp add: lane_of_def laneRules_def find_environment_def lane_defs)

lemma grants_100 [simp]: "grantsForUser lane_db u = []"
  by (simp add: grantsForUser_def lane_defs List.map_filter_def)

lemma lane_admin_11: "isLaneAdmin lane_db svc100 (panel_user 11)"
  by (simp add: isLaneAdmin_def lane_of_100) (simp add: find_seat_def roleAtLeast_def lane_defs)

lemma not_lane_admin_10: "\<not> isLaneAdmin lane_db svc100 (panel_user 10)"
  by (simp add: isLaneAdmin_def lane_of_100 grantRoleForService_def)
    (simp add: find_seat_def roleAtLeast_def lane_defs)

lemma needs_approval_100: "needs_approval lane_db svc100"
  by (simp add: needs_approval_def lane_of_100 lane5_def)

definition waiting_dep :: deployment where
  "waiting_dep = \<lparr>dep_id = 1, dep_service = 100, dep_status = AwaitingApproval, dep_message = ''push'',
     dep_ci_gate = False, dep_reviewed_by = None, dep_reviewed_at = None, dep_started = None,
     dep_finished = None, dep_created = 0\<rparr>"

definition approved_dep :: deployment where
  "approved_dep = waiting_dep\<lparr>dep_status := Queued, dep_reviewed_by := Some 11, dep_reviewed_at := Some 5\<rparr>"

definition plain_env :: claim_env where
  "plain_env = \<lparr>ce_now = 9, ce_concurrency = 1, ce_in_flight = {}, ce_blocked = (\<lambda>_. False),
     ce_interrupted = (\<lambda>_. False), ce_ci_hold = (\<lambda>_ st. (False, st))\<rparr>"

lemma plain_rows_only: "ci_rows_only plain_env"
  by (simp add: ci_rows_only_def plain_env_def)

subsection \<open>The worker\<close>

text \<open>
  Claim C3. A tick of the worker claims a deployment only when no freeze holds its service, the
  target server has a free build slot, and a row whose lane (or fork origin) requires approval
  has been reviewed: whichever trigger inserted the row, an unreviewed one never builds.
\<close>

theorem claimed_deploy_passed_gates:
  assumes "tick ce st = (Some (row, svc), st')" and "ci_rows_only ce"
  shows "find_service (dst_db st) (dep_service row) = Some svc \<and>
    freezeHolding (ce_now ce) (dst_db st) (dst_freezes st) svc = None \<and>
    (needs_approval (dst_db st) svc \<longrightarrow> dep_reviewed_at row \<noteq> None) \<and>
    per_partition ce st (server_key svc) < ce_concurrency ce"
proof -
  obtain st1 where n: "nextClaimable ce st = (Some (row, svc), st1)" and c: "fst (claim ce (dep_id row) st1)"
    using assms by (rule tick_claims)
  note picked = nextClaimable_picked [OF n assms(2)]
  obtain st0 where st0: "dst_db st0 = dst_db st" "holdForApprovalIfNeeded svc row st0 = (False, st1)"
    using picked(5) by blast
  have "dep_reviewed_at row \<noteq> None" if gated: "needs_approval (dst_db st) svc"
  proof
    assume "dep_reviewed_at row = None"
    with st0 gated have "\<forall>d \<in> set (dst_deps st1). \<not> (dep_id d = dep_id row \<and> dep_status d = Queued)"
      using holdForApproval_passes [OF st0(2)] by auto
    with claim_needs_queued [OF c] show False by blast
  qed
  with picked candidates_mem(4) [OF picked(1)] show ?thesis by blast
qed

theorem claimed_deploy_passed_gates_witness:
  "per_partition plain_env (lane_store\<lparr>dst_deps := [approved_dep]\<rparr>) 0 < 1"
proof -
  let ?st = "lane_store\<lparr>dst_deps := [approved_dep]\<rparr>"
  have svc: "find_service lane_db 100 = Some svc100" by (simp add: find_service_def lane_defs)
  have cand: "candidates plain_env ?st = [(approved_dep, svc100)]"
    by (simp add: candidates_def is_active_def approved_dep_def waiting_dep_def plain_env_def lane_store_def
      svc List.map_filter_def)
  have part: "per_partition plain_env ?st k = 0" for k
    by (simp add: per_partition_def lane_store_def is_active_def approved_dep_def)
  have env: "ce_ci_hold plain_env i s = (False, s)" "ce_concurrency plain_env = 1"
      "ce_in_flight plain_env = {}" "dst_freezes lane_store = []" for i s
    by (simp_all add: plain_env_def lane_store_def)
  have hold: "holdForApprovalIfNeeded svc100 approved_dep s = (False, s)" for s
    by (simp add: holdForApprovalIfNeeded_def approved_dep_def)
  have "nextClaimable plain_env ?st = (Some (approved_dep, svc100), ?st)"
    by (simp add: nextClaimable_def cand anyDeployFreeze_def part hold env)
  moreover have "fst (claim plain_env (dep_id approved_dep) ?st)"
    by (simp add: claim_def update_deps_def claimable_def plain_env_def lane_store_def is_active_def
      approved_dep_def waiting_dep_def)
  ultimately obtain st' where "tick plain_env ?st = (Some (approved_dep, svc100), st')"
    by (cases "claim plain_env (dep_id approved_dep) ?st") (auto simp: tick_def)
  from claimed_deploy_passed_gates [OF this plain_rows_only] show ?thesis
    by (simp add: server_key_def svc100_def plain_env_def)
qed



subsection \<open>Enqueue, approve, freeze\<close>

lemma enqueue_inserted:
  assumes "enqueueUserDeploy now user svc msg subj sa st = (Inr i, st')"
  shows "is_ok (assertMayDeployStoredService (dst_builds st) user svc)"
    and "i = dst_next st" and "dst_db st' = dst_db st"
    and "\<exists>review. (review \<noteq> None \<longrightarrow> sa \<and> needs_approval (dst_db st) svc \<and> isLaneAdmin (dst_db st) svc user) \<and>
      insertQueued now svc msg subj review st = (Inr i, st')"
proof -
  obtain u where ok: "assertMayEnqueueDeploy st user svc subj = Inr u"
    using assms by (cases "assertMayEnqueueDeploy st user svc subj") (auto simp: enqueueUserDeploy_def)
  show "is_ok (assertMayDeployStoredService (dst_builds st) user svc)"
    using ok by (cases "assertMayDeployStoredService (dst_builds st) user svc")
      (auto simp: assertMayEnqueueDeploy_def)
  show ins: "\<exists>review. (review \<noteq> None \<longrightarrow> sa \<and> needs_approval (dst_db st) svc \<and> isLaneAdmin (dst_db st) svc user) \<and>
      insertQueued now svc msg subj review st = (Inr i, st')"
    using assms ok by (auto simp: enqueueUserDeploy_def Let_def approvalStamp_iff split: if_splits)
  then show "i = dst_next st" "dst_db st' = dst_db st"
    by (auto simp: insertQueued_def split: if_splits)
qed

text \<open>
  Claim C24. A deploy that the enqueue path accepts was started by an operator or reaches no host
  privilege, and the queue of its service never exceeds the cap - even when the state changed
  between the check and the insert.
\<close>

theorem enqueue_guarded:
  assumes "assertMayEnqueueDeploy st0 user svc subj = Inr ()"
    and "insertQueued now svc msg subj review st = (Inr i, st')"
  shows "(au_operator user \<or> \<not> reaches_host (dst_builds st0) svc) \<and>
    queued_count st' (svc_id svc) \<le> MAX_QUEUED_PER_SERVICE"
proof
  have "is_ok (assertMayDeployStoredService (dst_builds st0) user svc)"
    using assms(1) by (cases "assertMayDeployStoredService (dst_builds st0) user svc")
      (auto simp: assertMayEnqueueDeploy_def)
  then show "au_operator user \<or> \<not> reaches_host (dst_builds st0) svc"
    by (simp add: assertMayDeployStoredService_ok)
  show "queued_count st' (svc_id svc) \<le> MAX_QUEUED_PER_SERVICE"
    using assms(2) by (auto simp: insertQueued_def queued_count_def split: if_splits)
qed

lemma enqueue_100: "assertMayEnqueueDeploy lane_store (panel_user 10) svc100 ''Service'' = Inr ()"
  by (simp add: assertMayEnqueueDeploy_def assertMayDeployStoredService_def assertMayUseHostPrivilege_def
    hostPrivilegeReasons_def queued_count_def MAX_QUEUED_PER_SERVICE_def lane_store_def)
    (simp add: svc100_def)

theorem enqueue_guarded_witness:
  "\<not> reaches_host (dst_builds lane_store) svc100"
proof -
  obtain i st' where "insertQueued 1 svc100 ''go'' ''Service'' None lane_store = (Inr i, st')"
    by (simp add: insertQueued_def queued_count_def MAX_QUEUED_PER_SERVICE_def lane_store_def)
  from enqueue_guarded [OF enqueue_100 this] show ?thesis by (simp add: panel_user_def)
qed

text \<open>
  A deploy into a gated lane by anyone but an admin of that lane - the creator of the
  service included - enters unreviewed, and the gate of the worker turns it into a waiting one.
\<close>

theorem member_deploy_waits:
  assumes "enqueueUserDeploy now user svc msg subj sa st = (Inr i, st')"
    and "queue_inv st" and "needs_approval (dst_db st) svc" and "\<not> isLaneAdmin (dst_db st) svc user"
  shows "\<exists>d. find_dep st' i = Some d \<and> dep_reviewed_at d = None \<and>
    fst (holdForApprovalIfNeeded svc d st') \<and>
    (\<exists>d'. find_dep (snd (holdForApprovalIfNeeded svc d st')) i = Some d' \<and> dep_status d' = AwaitingApproval)"
proof -
  obtain review where "review \<noteq> None \<longrightarrow> isLaneAdmin (dst_db st) svc user"
      "insertQueued now svc msg subj review st = (Inr i, st')"
    using enqueue_inserted(4) [OF assms(1)] by blast
  then have ins: "insertQueued now svc msg subj None st = (Inr i, st')"
    using assms(4) by (cases review) auto
  define d where "d = \<lparr>dep_id = i, dep_service = svc_id svc, dep_status = Queued, dep_message = msg,
    dep_ci_gate = False, dep_reviewed_by = None, dep_reviewed_at = None, dep_started = None,
    dep_finished = None, dep_created = now\<rparr>"
  have deps: "dst_deps st' = dst_deps st @ [d]" and i: "i = dst_next st"
    using ins by (auto simp: insertQueued_def d_def split: if_splits)
  have db: "dst_db st' = dst_db st" by (rule enqueue_inserted(3) [OF assms(1)])
  have fresh: "x \<in> set (dst_deps st) \<Longrightarrow> dep_id x \<noteq> i" for x
    using assms(2) i by (force simp: queue_inv_def)
  have find_app: "List.find (\<lambda>x. dep_id x = i) (map f (dst_deps st) @ [y]) = Some y"
    if "dep_id y = i" "\<And>x. dep_id (f x) = dep_id x" for f y
  proof -
    have "List.find (\<lambda>x. dep_id x = i) (map f (dst_deps st)) = None"
      unfolding find_None_iff using fresh that(2) by auto
    then show ?thesis using that(1) by (simp add: find_append)
  qed
  have found: "find_dep st' i = Some d"
    using find_app [of d id] by (simp add: find_dep_def deps d_def)
  obtain b st2 where h: "holdForApprovalIfNeeded svc d st' = (b, st2)" by fastforce
  have b: b
  proof (rule ccontr)
    assume "\<not> b"
    then have "\<forall>x \<in> set (dst_deps st'). \<not> (dep_id x = dep_id d \<and> dep_status x = Queued)"
      using holdForApproval_passes [of svc d st' st2] h assms(3) db by (auto simp: d_def)
    then show False by (simp add: deps d_def)
  qed
  have "st2 = snd (update_deps (\<lambda>x. dep_id x = dep_id d \<and> dep_status x = Queued)
      (\<lambda>x. x\<lparr>dep_status := AwaitingApproval\<rparr>) st')"
    using h b by (auto simp: holdForApprovalIfNeeded_def split: if_splits prod.splits)
  then have "find_dep st2 i = Some (d\<lparr>dep_status := AwaitingApproval\<rparr>)"
    using find_app [of "d\<lparr>dep_status := AwaitingApproval\<rparr>"
        "\<lambda>x. if dep_id x = i \<and> dep_status x = Queued then x\<lparr>dep_status := AwaitingApproval\<rparr> else x"]
    by (simp add: find_dep_def deps d_def)
  then show ?thesis using found h b by (intro exI [of _ d]) (simp add: d_def)
qed

theorem member_deploy_waits_witness:
  "\<exists>i st' d. enqueueUserDeploy 1 (panel_user 10) svc100 ''go'' ''Service'' True lane_store = (Inr i, st') \<and>
     find_dep st' i = Some d \<and> fst (holdForApprovalIfNeeded svc100 d st')"
proof -
  have empty: "empty_queue lane_store" by (simp add: empty_queue_def lane_store_def)
  have inv: "queue_inv lane_store" by (rule queue.reachable_inv [OF empty rtranclp.rtrancl_refl])
  have db: "dst_db lane_store = lane_db" by (simp add: lane_store_def)
  obtain i st' where run: "enqueueUserDeploy 1 (panel_user 10) svc100 ''go'' ''Service'' True lane_store = (Inr i, st')"
    using enqueue_100 by (simp add: enqueueUserDeploy_def Let_def insertQueued_def)
      (simp add: queued_count_def MAX_QUEUED_PER_SERVICE_def lane_store_def)
  then show ?thesis
    using member_deploy_waits [OF run inv] needs_approval_100 not_lane_admin_10 db by auto
qed

lemma find_map_key:
  assumes "\<And>x. k (f x) = k x"
  shows "List.find (\<lambda>x. k x = i) (map f xs) = map_option f (List.find (\<lambda>x. k x = i) xs)"
  by (induction xs) (simp_all add: assms)

text \<open>
  A review that succeeds was made by an admin of the lane on a waiting deploy of that
  service, settles it with the reviewer recorded, and can happen only once: a second decision
  on the same deploy is refused.
\<close>

theorem review_decides_once:
  assumes "reviewDeploy now sid i user dec st = (Inr u, st')"
  shows "(\<exists>svc. loadServiceForUser (dst_db st) sid user = Inr svc \<and> isLaneAdmin (dst_db st) svc user) \<and>
    (\<exists>d. find_dep st i = Some d \<and> dep_service d = sid \<and> dep_status d = AwaitingApproval \<and>
      find_dep st' i = Some (d\<lparr>dep_status := (if dec = Approve then Queued else Cancelled),
        dep_reviewed_by := Some (au_id user), dep_reviewed_at := Some now,
        dep_finished := (if dec = Approve then dep_finished d else Some now)\<rparr>)) \<and>
    fst (reviewDeploy now' sid i user dec' st') = Inl not_awaiting"
proof -
  let ?f = "\<lambda>d. d\<lparr>dep_status := (if dec = Approve then Queued else Cancelled),
        dep_reviewed_by := Some (au_id user), dep_reviewed_at := Some now,
        dep_finished := (if dec = Approve then dep_finished d else Some now)\<rparr>"
  let ?P = "\<lambda>d. dep_id d = i \<and> dep_status d = AwaitingApproval"
  obtain svc where svc: "loadServiceForUser (dst_db st) sid user = Inr svc" "isLaneAdmin (dst_db st) svc user"
    using assms by (auto simp: reviewDeploy_def split: sum.splits if_splits)
  obtain d where d: "find_dep st i = Some d" "dep_service d = sid" "dep_status d = AwaitingApproval"
    using assms svc by (auto simp: reviewDeploy_def split: option.splits if_splits)
  have st': "st' = snd (update_deps ?P ?f st)"
    using assms svc d by (simp add: reviewDeploy_def split_beta)
  have "dep_id d = i" using d(1) unfolding find_dep_def by (auto dest: find_Some_mem)
  moreover have "find_dep st' i = map_option (\<lambda>d. if ?P d then ?f d else d) (find_dep st i)"
    unfolding find_dep_def st' update_deps_simps by (rule find_map_key) simp
  ultimately have d': "find_dep st' i = Some (?f d)" using d by simp
  have "dst_db st' = dst_db st" by (simp add: st')
  then have "fst (reviewDeploy now' sid i user dec' st') = Inl not_awaiting"
    using svc d d' by (simp add: reviewDeploy_def)
  then show ?thesis using svc d d' by blast
qed

theorem review_decides_once_witness:
  "fst (reviewDeploy 6 100 1 (panel_user 11) Reject
     (snd (reviewDeploy 5 100 1 (panel_user 11) Approve (lane_store\<lparr>dst_deps := [waiting_dep]\<rparr>)))) = Inl not_awaiting"
proof -
  let ?st = "lane_store\<lparr>dst_deps := [waiting_dep]\<rparr>"
  have db: "dst_db lane_store = lane_db" by (simp add: lane_store_def)
  have "loadServiceForUser lane_db 100 (panel_user 11) = Inr svc100"
    by (simp add: loadServiceForUser_def find_service_def serviceWorkspaceIds_def seats_in_def lane_defs)
  then obtain st' where "reviewDeploy 5 100 1 (panel_user 11) Approve ?st = (Inr (), st')"
    using lane_admin_11 by (simp add: reviewDeploy_def db find_dep_def update_deps_def waiting_dep_def)
  from review_decides_once [OF this, of 6 Reject] this show ?thesis by simp
qed

text \<open>
  Being the creator is not enough inside a lane: a caller with no operator flag, no
  admin seat in the lane's workspace and no admin grant there may not read a protected lane's
  secrets, may not move the service out, and does not approve by starting a deploy - whatever
  role \<open>serviceRole\<close> resolves for them.
\<close>

theorem creator_is_not_lane_admin:
  assumes "lane_of db svc = Some lane" and "\<not> au_operator user"
    and "\<forall>m \<in> set (members db). \<not> (mem_workspace m = env_workspace lane \<and> mem_user m = au_id user \<and> Admin \<le> mem_role m)"
    and "\<forall>g \<in> set (grantsForUser db (au_id user)). ag_role g \<noteq> GAdmin"
  shows "(env_protected lane \<longrightarrow> \<not> is_ok (assertMaySeeLaneSecrets db svc user what)) \<and>
    (env_protected lane \<or> env_require_approval lane \<longrightarrow> svc_environment svc \<noteq> nxt \<longrightarrow>
      \<not> is_ok (assertMayLeaveLane db svc user nxt)) \<and>
    approvalStamp db now svc user = None"
proof -
  have "\<not> isLaneAdmin db svc user"
    using isLaneAdmin_in_lane [OF assms(1), of user] assms(2-4) by blast
  then show ?thesis
    using assms(1) by (auto simp: assertMaySeeLaneSecrets_def assertMayLeaveLane_def approvalStamp_iff)
qed

theorem creator_is_not_lane_admin_witness:
  "serviceRole lane_db 100 (Some 10) (Some (Some 5)) (panel_user 10) = Some Owner \<and>
   \<not> is_ok (assertMaySeeLaneSecrets lane_db svc100 (panel_user 10) ''deploy logs'')"
proof
  show "serviceRole lane_db 100 (Some 10) (Some (Some 5)) (panel_user 10) = Some Owner"
    by (simp add: serviceRole_def serviceWorkspaceIds_def seats_in_def lane_defs)
  have "\<forall>m \<in> set (members lane_db). \<not> (mem_workspace m = env_workspace lane5 \<and> mem_user m = 10 \<and> Admin \<le> mem_role m)"
    by (simp add: lane_defs less_eq_workspace_role_def)
  then show "\<not> is_ok (assertMaySeeLaneSecrets lane_db svc100 (panel_user 10) ''deploy logs'')"
    using creator_is_not_lane_admin [OF lane_of_100, of "panel_user 10" "''deploy logs''"]
    by (simp add: panel_user_def lane5_def)
qed

text \<open>
  The freeze lookup of the worker is exact: it reports a freeze exactly when one in
  force covers the service - directly, through its lane and the lane's workspace, through its
  tags and links, or through the parent it previews - and the one it reports does.
\<close>

theorem freeze_holding_exact:
  "case freezeHolding now db all svc of
     None \<Rightarrow> \<forall>f \<in> set all. freeze_active now f \<longrightarrow> \<not> freeze_covers db svc f
   | Some f \<Rightarrow> f \<in> set all \<and> freeze_active now f \<and> freeze_covers db svc f"
proof -
  let ?list = "filter (freeze_active now) all"
  have inst: "frz_scope f = ScInstance \<Longrightarrow> freeze_covers db svc f" for f by (simp add: freeze_covers_def)
  show ?thesis
  proof (cases "freezeHolding now db all svc")
    case None
    then have "List.find (freeze_covers db svc) ?list = None"
      unfolding freezeHolding_spec by (simp split: option.splits)
    then show ?thesis using None by (auto simp: find_None_iff)
  next
    case (Some f)
    then have "f \<in> set ?list \<and> freeze_covers db svc f"
      unfolding freezeHolding_spec using inst by (auto split: option.splits dest!: find_Some_mem)
    then show ?thesis using Some by simp
  qed
qed

theorem freeze_holding_exact_witness:
  "freezeHolding 0 lane_db [\<lparr>frz_id = ''a'', frz_scope = ScWorkspace, frz_target = Some 1, frz_reason = ''r'',
     frz_until = None, frz_created = 0, frz_by = None\<rparr>] svc100 \<noteq> None"
proof -
  let ?f = "\<lparr>frz_id = ''a'', frz_scope = ScWorkspace, frz_target = Some 1, frz_reason = ''r'',
     frz_until = None, frz_created = 0, frz_by = None\<rparr>"
  have "freeze_active 0 ?f" by (simp add: freeze_active_def)
  moreover have "freeze_covers lane_db svc100 ?f"
    by (simp add: freeze_covers_def family_def lane_defs)
  ultimately show ?thesis
    using freeze_holding_exact [where now = 0 and db = lane_db and all = "[?f]" and svc = svc100]
    by (cases "freezeHolding 0 lane_db [?f] svc100") simp_all
qed

end
