(* ===== verification/LoginLockout.thy ===== *)
theory LoginLockout
  imports Prelude
begin

text \<open>
  Failed-login tracking (\<open>apps/server/src/lib/loginLockout.ts\<close>): the pair tier and the account
  tier. A state is the \<open>accounts\<close> map; every operation takes the time it reads from the clock
  and the source key of the client address (\<open>lockoutSource\<close>, which is not modelled). Emails
  are given lower-cased.
\<close>

subsection \<open>State and operations\<close>

definition MAX_FAILURES_PER_IP :: nat where "MAX_FAILURES_PER_IP = 5"
definition MAX_FAILURES_PER_ACCOUNT :: nat where "MAX_FAILURES_PER_ACCOUNT = 25"
definition LOCK_MS :: ms where "LOCK_MS = 15 * 60 * 1000"
definition ACCOUNT_WINDOW_MS :: ms where "ACCOUNT_WINDOW_MS = LOCK_MS"
definition IDLE_TTL_MS :: ms where "IDLE_TTL_MS = LOCK_MS"

record source_entry =
  se_failures :: nat
  se_locked_until :: ms
  se_last_seen :: ms

type_synonym failure = "ms \<times> string"

record account_state =
  ac_sources :: "(string \<times> source_entry) list"
  ac_recent :: "failure list"
  ac_locked_until :: ms

type_synonym accounts = "(string \<times> account_state) list"

definition prune :: "ms \<Rightarrow> failure list \<Rightarrow> failure list" where
  "prune now recent = dropWhile (\<lambda>r. fst r \<le> now - ACCOUNT_WINDOW_MS) recent"

definition idle_source :: "ms \<Rightarrow> source_entry \<Rightarrow> bool" where
  "idle_source now e \<longleftrightarrow> se_locked_until e < now \<and>
     (se_failures e = 0 \<or> se_last_seen e < now - IDLE_TTL_MS)"

definition sweep_account :: "ms \<Rightarrow> account_state \<Rightarrow> account_state" where
  "sweep_account now s =
     s\<lparr>ac_recent := prune now (ac_recent s),
       ac_sources := filter (\<lambda>(k, e). \<not> idle_source now e) (ac_sources s)\<rparr>"

definition spent_account :: "ms \<Rightarrow> account_state \<Rightarrow> bool" where
  "spent_account now s \<longleftrightarrow> ac_sources s = [] \<and> ac_recent s = [] \<and> ac_locked_until s < now"

definition sweep :: "ms \<Rightarrow> accounts \<Rightarrow> accounts" where
  "sweep now accs =
     filter (\<lambda>(k, s). \<not> spent_account now s) (map (\<lambda>(k, s). (k, sweep_account now s)) accs)"

definition isLocked :: "ms \<Rightarrow> string \<Rightarrow> string \<Rightarrow> accounts \<Rightarrow> bool" where
  "isLocked now email source accs =
     (case map_of accs email of
        None \<Rightarrow> False
      | Some s \<Rightarrow>
          if ac_locked_until s > now then True
          else (case map_of (ac_sources s) source of None \<Rightarrow> False | Some e \<Rightarrow> se_locked_until e > now))"

definition fail_pair :: "ms \<Rightarrow> source_entry option \<Rightarrow> bool \<times> source_entry" where
  "fail_pair now old =
     (let e = (case old of None \<Rightarrow> \<lparr>se_failures = 0, se_locked_until = 0, se_last_seen = now\<rparr> | Some e \<Rightarrow> e);
          e1 = e\<lparr>se_failures := se_failures e + 1, se_last_seen := now\<rparr>
      in if se_failures e1 \<ge> MAX_FAILURES_PER_IP
         then (True, e1\<lparr>se_locked_until := now + LOCK_MS, se_failures := 0\<rparr>)
         else (False, e1))"

definition push_recent :: "failure \<Rightarrow> failure list \<Rightarrow> failure list" where
  "push_recent r recent =
     (let xs = recent @ [r] in if length xs > MAX_FAILURES_PER_ACCOUNT then tl xs else xs)"

definition trips :: "failure list \<Rightarrow> bool" where
  "trips recent \<longleftrightarrow> length recent \<ge> MAX_FAILURES_PER_ACCOUNT \<and> card (snd ` set recent) > 1"

definition recordFailure :: "ms \<Rightarrow> string \<Rightarrow> string \<Rightarrow> accounts \<Rightarrow> bool \<times> accounts" where
  "recordFailure now email source accs0 =
     (let accs = sweep now accs0;
          s = (case map_of accs email of
                 None \<Rightarrow> \<lparr>ac_sources = [], ac_recent = [], ac_locked_until = 0\<rparr> | Some s \<Rightarrow> s);
          (pair_locked, e) = fail_pair now (map_of (ac_sources s) source);
          sources = AList.update source e (ac_sources s);
          recent = push_recent (now, source) (ac_recent s)
      in if trips recent
         then (True, AList.update email
                \<lparr>ac_sources = sources, ac_recent = [], ac_locked_until = now + LOCK_MS\<rparr> accs)
         else (pair_locked, AList.update email
                \<lparr>ac_sources = sources, ac_recent = recent, ac_locked_until = ac_locked_until s\<rparr> accs))"

definition recordSuccess :: "ms \<Rightarrow> string \<Rightarrow> string \<Rightarrow> accounts \<Rightarrow> accounts" where
  "recordSuccess now email source accs =
     (case map_of accs email of
        None \<Rightarrow> accs
      | Some s \<Rightarrow>
          let s1 = (case map_of (ac_sources s) source of
                None \<Rightarrow> s
              | Some e \<Rightarrow>
                  if se_locked_until e \<le> now
                  then s\<lparr>ac_sources := AList.delete source (ac_sources s),
                         ac_recent := filter (\<lambda>r. snd r \<noteq> source) (ac_recent s)\<rparr>
                  else s)
          in if ac_sources s1 = [] \<and> ac_recent s1 = [] \<and> ac_locked_until s1 \<le> now
             then AList.delete email accs else AList.update email s1 accs)"

subsection \<open>The window\<close>

lemma prune_sorted: "sorted (map fst xs) \<Longrightarrow> prune now xs = filter (\<lambda>r. now - ACCOUNT_WINDOW_MS < fst r) xs"
proof (induction xs)
  case (Cons x xs)
  show ?case
  proof (cases "fst x \<le> now - ACCOUNT_WINDOW_MS")
    case True then show ?thesis using Cons by (simp add: prune_def)
  next
    case False
    then have "\<forall>r \<in> set xs. now - ACCOUNT_WINDOW_MS < fst r" using Cons.prems by auto
    then show ?thesis using False by (simp add: prune_def filter_id_conv)
  qed
qed (simp add: prune_def)

interpretation account_window: sliding_window prune fst "\<lambda>now t. now - ACCOUNT_WINDOW_MS < t"
  "\<lambda>xs. sorted (map fst xs)"
  by unfold_locales (auto simp: prune_sorted intro: sorted_filter)

text \<open>
  Every time recorded is in the past, windows are sorted and bounded, and no lock lasts longer
  than one lock period from now.
\<close>

definition account_ok :: "ms \<Rightarrow> account_state \<Rightarrow> bool" where
  "account_ok now s \<longleftrightarrow> map_ok (ac_sources s) \<and> sorted (map fst (ac_recent s)) \<and>
     (\<forall>r \<in> set (ac_recent s). fst r \<le> now) \<and> length (ac_recent s) < MAX_FAILURES_PER_ACCOUNT + 1 \<and>
     ac_locked_until s \<le> now + LOCK_MS \<and>
     (\<forall>k e. map_of (ac_sources s) k = Some e \<longrightarrow> se_locked_until e \<le> now + LOCK_MS)"

definition lockout_inv :: "ms \<Rightarrow> accounts \<Rightarrow> bool" where
  "lockout_inv now accs \<longleftrightarrow> 0 \<le> now \<and> map_ok accs \<and> (\<forall>k s. map_of accs k = Some s \<longrightarrow> account_ok now s)"

lemma lockout_invD: "lockout_inv now accs \<Longrightarrow> map_of accs k = Some s \<Longrightarrow> account_ok now s"
  by (auto simp: lockout_inv_def dest: map_of_SomeD)

lemma account_ok_later: "account_ok now s \<Longrightarrow> now \<le> now' \<Longrightarrow> account_ok now' s"
  by (fastforce simp: account_ok_def)

lemma account_ok_source:
  "account_ok now s \<Longrightarrow> map_of (ac_sources s) k = Some e \<Longrightarrow> se_locked_until e \<le> now + LOCK_MS"
  by (auto simp: account_ok_def dest: map_of_SomeD)

lemma LOCK_MS_pos [simp]: "0 < LOCK_MS" "0 \<le> LOCK_MS"
  by (simp_all add: LOCK_MS_def)

lemma account_ok_new: "0 \<le> now \<Longrightarrow> account_ok now \<lparr>ac_sources = [], ac_recent = [], ac_locked_until = 0\<rparr>"
  using LOCK_MS_pos(2) by (simp add: account_ok_def map_ok_def MAX_FAILURES_PER_ACCOUNT_def)

lemma sweep_account_source:
  "account_ok now s \<Longrightarrow> map_of (ac_sources (sweep_account now' s)) k =
     (case map_of (ac_sources s) k of None \<Rightarrow> None | Some e \<Rightarrow> if idle_source now' e then None else Some e)"
  by (auto simp: sweep_account_def account_ok_def map_of_filter_entry split: option.split)

lemma sweep_account_ok: "account_ok now s \<Longrightarrow> account_ok now (sweep_account now s)"
  using account_window.invar_prune [of "ac_recent s" now] account_window.prune_length [of "ac_recent s" now]
    account_window.prune_subset [of "ac_recent s" now] sweep_account_source [of now s now]
  by (auto simp: account_ok_def sweep_account_def [of now s] split: option.splits if_splits)

lemma map_of_sweep:
  "map_ok accs \<Longrightarrow> map_of (sweep now accs) k =
     (case map_of accs k of None \<Rightarrow> None
      | Some s \<Rightarrow> if spent_account now (sweep_account now s) then None else Some (sweep_account now s))"
  by (simp add: sweep_def map_of_filter_entry map_of_map_entry map_ok_map_snd split: option.split)

lemma sweep_inv: "lockout_inv now accs \<Longrightarrow> lockout_inv now (sweep now accs)"
  by (auto simp: lockout_inv_def map_of_sweep sweep_account_ok split: option.splits if_splits)
    (simp add: sweep_def map_ok_map_snd map_ok_filter)

lemma fail_pair_bound:
  "fail_pair now old = (b, e) \<Longrightarrow> 0 \<le> now \<Longrightarrow>
     (\<And>o'. old = Some o' \<Longrightarrow> se_locked_until o' \<le> now + LOCK_MS) \<Longrightarrow>
     se_locked_until e \<le> now + LOCK_MS \<and> (b \<longrightarrow> se_locked_until e = now + LOCK_MS) \<and>
     (\<forall>o'. old = Some o' \<longrightarrow> se_locked_until o' \<le> se_locked_until e)"
  using LOCK_MS_pos by (auto simp: fail_pair_def Let_def split: option.splits if_splits)

lemma push_recent_ok:
  assumes "sorted (map fst xs)" and "\<forall>r \<in> set xs. fst r \<le> now"
  shows "sorted (map fst (push_recent (now, s) xs))" "\<forall>r \<in> set (push_recent (now, s) xs). fst r \<le> now"
    "length xs < MAX_FAILURES_PER_ACCOUNT + 1 \<Longrightarrow> length (push_recent (now, s) xs) < MAX_FAILURES_PER_ACCOUNT + 1"
    "set (push_recent (now, s) xs) \<subseteq> insert (now, s) (set xs)"
proof -
  have srt: "sorted (map fst (xs @ [(now, s)]))" using assms by (auto simp: sorted_append)
  then have "sorted (map fst (tl (xs @ [(now, s)])))" by (metis map_tl sorted_tl)
  then show "sorted (map fst (push_recent (now, s) xs))"
    using srt by (simp only: push_recent_def Let_def split: if_split) simp
  have sub: "set (tl ys) \<subseteq> set ys" for ys :: "failure list" by (cases ys) auto
  show "\<forall>r \<in> set (push_recent (now, s) xs). fst r \<le> now"
    "set (push_recent (now, s) xs) \<subseteq> insert (now, s) (set xs)"
    using assms(2) sub [of "xs @ [(now, s)]"] by (auto simp: push_recent_def Let_def)
qed (auto simp: push_recent_def Let_def)

subsection \<open>Invariant and locks\<close>

lemma lockout_inv_update: "lockout_inv now accs \<Longrightarrow> account_ok now s \<Longrightarrow> lockout_inv now (AList.update k s accs)"
  by (auto simp: lockout_inv_def)

lemma lockout_inv_delete: "lockout_inv now accs \<Longrightarrow> lockout_inv now (AList.delete k accs)"
  by (auto simp: lockout_inv_def)

lemma lockout_inv_later: "lockout_inv now accs \<Longrightarrow> now \<le> now' \<Longrightarrow> lockout_inv now' accs"
  by (auto simp: lockout_inv_def intro: account_ok_later)

definition locked_state :: "ms \<Rightarrow> string \<Rightarrow> account_state \<Rightarrow> bool" where
  "locked_state later src s \<longleftrightarrow> ac_locked_until s > later \<or>
     (\<exists>e. map_of (ac_sources s) src = Some e \<and> se_locked_until e > later)"

lemma isLocked_iff: "isLocked later email src accs \<longleftrightarrow> (\<exists>s. map_of accs email = Some s \<and> locked_state later src s)"
  by (auto simp: isLocked_def locked_state_def split: option.splits)

lemma locked_sweep:
  assumes "account_ok now s" and "now \<le> later" and "locked_state later src s"
  shows "locked_state later src (sweep_account now s) \<and> \<not> spent_account now (sweep_account now s)"
proof -
  consider "ac_locked_until s > later"
    | e where "map_of (ac_sources s) src = Some e" "se_locked_until e > later"
    using assms(3) by (auto simp: locked_state_def)
  then show ?thesis
  proof cases
    case 1
    then have "ac_locked_until (sweep_account now s) > later" by (simp add: sweep_account_def)
    then show ?thesis using assms(2) by (simp add: locked_state_def spent_account_def)
  next
    case (2 e)
    then have "map_of (ac_sources (sweep_account now s)) src = Some e"
      using assms(2) sweep_account_source [OF assms(1), of now src] by (simp add: idle_source_def)
    then show ?thesis using 2(2) by (auto simp: locked_state_def spent_account_def)
  qed
qed

lemma locked_sweep_map:
  assumes "lockout_inv now accs" and "now \<le> later" and "isLocked later email src accs"
  shows "isLocked later email src (sweep now accs)"
proof -
  obtain s where s: "map_of accs email = Some s" "locked_state later src s"
    using assms(3) by (auto simp: isLocked_iff)
  from locked_sweep [OF lockout_invD [OF assms(1) s(1)] assms(2) s(2)] s(1) assms(1)
  show ?thesis by (simp add: isLocked_iff map_of_sweep lockout_inv_def)
qed

text \<open>What one failure does to the state of its account.\<close>

definition failed_account :: "ms \<Rightarrow> string \<Rightarrow> account_state \<Rightarrow> bool \<times> account_state" where
  "failed_account now source s =
     (let (pair_locked, e) = fail_pair now (map_of (ac_sources s) source);
          sources = AList.update source e (ac_sources s);
          recent = push_recent (now, source) (ac_recent s)
      in if trips recent
         then (True, \<lparr>ac_sources = sources, ac_recent = [], ac_locked_until = now + LOCK_MS\<rparr>)
         else (pair_locked, \<lparr>ac_sources = sources, ac_recent = recent, ac_locked_until = ac_locked_until s\<rparr>))"

definition account_at :: "accounts \<Rightarrow> string \<Rightarrow> account_state" where
  "account_at accs email = (case map_of accs email of
     None \<Rightarrow> \<lparr>ac_sources = [], ac_recent = [], ac_locked_until = 0\<rparr> | Some s \<Rightarrow> s)"

lemma recordFailure_eq:
  "recordFailure now email source accs =
     (case failed_account now source (account_at (sweep now accs) email) of
        (b, s) \<Rightarrow> (b, AList.update email s (sweep now accs)))"
  by (simp add: recordFailure_def failed_account_def account_at_def Let_def split_beta)

lemma failed_account_ok:
  assumes "account_ok now s" and "0 \<le> now" and "failed_account now source s = (b, s')"
  shows "account_ok now s'"
    and "now \<le> later \<Longrightarrow> locked_state later src s \<Longrightarrow> locked_state later src s'"
    and "b \<Longrightarrow> locked_state later source s' \<longleftrightarrow> locked_state later source s \<or> later < now + LOCK_MS"
proof -
  obtain pl e where fp: "fail_pair now (map_of (ac_sources s) source) = (pl, e)" by fastforce
  have e: "se_locked_until e \<le> now + LOCK_MS" "pl \<longrightarrow> se_locked_until e = now + LOCK_MS"
    "\<And>o'. map_of (ac_sources s) source = Some o' \<Longrightarrow> se_locked_until o' \<le> se_locked_until e"
    using fail_pair_bound [OF fp assms(2)] account_ok_source [OF assms(1)] by auto
  have srt: "sorted (map fst (ac_recent s))" "\<forall>r \<in> set (ac_recent s). fst r \<le> now"
    "length (ac_recent s) < MAX_FAILURES_PER_ACCOUNT + 1" and mok: "map_ok (ac_sources s)"
    and until: "ac_locked_until s \<le> now + LOCK_MS"
    using assms(1) by (simp_all add: account_ok_def)
  let ?src = "AList.update source e (ac_sources s)"
  let ?rec = "push_recent (now, source) (ac_recent s)"
  have bound: "\<forall>k e'. map_of ?src k = Some e' \<longrightarrow> se_locked_until e' \<le> now + LOCK_MS"
    using e(1) account_ok_source [OF assms(1)] by simp
  have s': "s' = (if trips ?rec then \<lparr>ac_sources = ?src, ac_recent = [], ac_locked_until = now + LOCK_MS\<rparr>
      else \<lparr>ac_sources = ?src, ac_recent = ?rec, ac_locked_until = ac_locked_until s\<rparr>)"
    and b: "b = (trips ?rec \<or> pl)"
    using assms(3) fp by (auto simp: failed_account_def Let_def split: if_splits)
  have srcs: "ac_sources s' = ?src" and le: "ac_locked_until s \<le> ac_locked_until s'"
    using until by (simp_all add: s')
  show "account_ok now s'"
    using push_recent_ok [OF srt(1,2), of source] srt(3) bound mok until
    by (simp add: s' account_ok_def MAX_FAILURES_PER_ACCOUNT_def)
  have kept: "locked_state later src s'" if ls: "locked_state later src s" for src
  proof (cases "ac_locked_until s > later")
    case True then show ?thesis using le by (simp add: locked_state_def)
  next
    case False
    then obtain o' where o': "map_of (ac_sources s) src = Some o'" "se_locked_until o' > later"
      using ls by (auto simp: locked_state_def)
    then show ?thesis
      using e(3) [of o'] by (cases "src = source") (auto simp: locked_state_def srcs)
  qed
  show "locked_state later src s \<Longrightarrow> locked_state later src s'" by (rule kept)
  show "b \<Longrightarrow> locked_state later source s' \<longleftrightarrow> locked_state later source s \<or> later < now + LOCK_MS"
  proof
    assume b and "locked_state later source s'"
    then show "locked_state later source s \<or> later < now + LOCK_MS"
      using e(1) unfolding locked_state_def srcs by (auto simp: s' split: if_splits)
  next
    assume b': b and "locked_state later source s \<or> later < now + LOCK_MS"
    moreover have "locked_state later source s'" if soon: "later < now + LOCK_MS"
    proof (cases "trips ?rec")
      case True then show ?thesis using soon by (simp add: s' locked_state_def)
    next
      case False then show ?thesis using soon b' e(2) by (simp add: b locked_state_def srcs)
    qed
    ultimately show "locked_state later source s'" using kept by blast
  qed
qed

lemma account_at_ok: "lockout_inv now accs \<Longrightarrow> account_ok now (account_at accs email)"
  by (auto simp: account_at_def lockout_inv_def account_ok_new split: option.split)

lemma recordFailure_inv:
  assumes "lockout_inv now accs"
  shows "lockout_inv now (snd (recordFailure now email source accs))"
proof -
  have inv: "lockout_inv now (sweep now accs)" and nn: "0 \<le> now"
    using assms sweep_inv by (auto simp: lockout_inv_def)
  obtain b s where f: "failed_account now source (account_at (sweep now accs) email) = (b, s)" by fastforce
  from failed_account_ok(1) [OF account_at_ok [OF inv] nn f] show ?thesis
    using inv by (simp add: recordFailure_eq f lockout_inv_update)
qed

lemma recordFailure_keeps_lock:
  assumes inv0: "lockout_inv now accs" and "now \<le> later" and "isLocked later email src accs"
  shows "isLocked later email src (snd (recordFailure now email' source accs))"
proof -
  have inv: "lockout_inv now (sweep now accs)" and nn: "0 \<le> now"
    using inv0 sweep_inv by (auto simp: lockout_inv_def)
  note locked = locked_sweep_map [OF assms]
  obtain b s where f: "failed_account now source (account_at (sweep now accs) email') = (b, s)" by fastforce
  show ?thesis
  proof (cases "email = email'")
    case True
    then have "locked_state later src (account_at (sweep now accs) email')"
      using locked by (auto simp: isLocked_iff account_at_def)
    from failed_account_ok(2) [OF account_at_ok [OF inv] nn f assms(2) this]
    show ?thesis by (simp add: recordFailure_eq f isLocked_iff True)
  next
    case False
    then show ?thesis using locked by (simp add: recordFailure_eq f isLocked_iff)
  qed
qed

lemma recordSuccess_inv:
  assumes "lockout_inv now accs"
  shows "lockout_inv now (recordSuccess now email source accs)"
proof (cases "map_of accs email")
  case (Some s)
  define s1 where "s1 = (case map_of (ac_sources s) source of None \<Rightarrow> s
    | Some e \<Rightarrow> if se_locked_until e \<le> now
        then s\<lparr>ac_sources := AList.delete source (ac_sources s),
               ac_recent := filter (\<lambda>r. snd r \<noteq> source) (ac_recent s)\<rparr> else s)"
  have ok: "account_ok now s" by (rule lockout_invD [OF assms Some])
  have "account_ok now (s\<lparr>ac_sources := AList.delete source (ac_sources s),
      ac_recent := filter (\<lambda>r. snd r \<noteq> source) (ac_recent s)\<rparr>)"
    using ok account_window.invar_filter [of "ac_recent s" "\<lambda>r. snd r \<noteq> source"]
    by (auto simp: account_ok_def intro: le_less_trans [OF length_filter_le])
  then have "account_ok now s1" using ok by (simp add: s1_def split: option.split)
  moreover have "recordSuccess now email source accs =
      (if ac_sources s1 = [] \<and> ac_recent s1 = [] \<and> ac_locked_until s1 \<le> now
       then AList.delete email accs else AList.update email s1 accs)"
    by (simp only: recordSuccess_def Some option.case Let_def s1_def)
  ultimately show ?thesis using assms by (simp add: lockout_inv_update lockout_inv_delete)
qed (use assms in \<open>simp add: recordSuccess_def\<close>)

lemma recordSuccess_keeps_lock:
  assumes "now \<le> later" and "isLocked later email src accs"
  shows "isLocked later email src (recordSuccess now email' source accs)"
proof -
  obtain s where s: "map_of accs email = Some s" "locked_state later src s"
    using assms(2) by (auto simp: isLocked_iff)
  show ?thesis
  proof (cases "email = email'")
    case True
    define s1 where "s1 = (case map_of (ac_sources s) source of None \<Rightarrow> s
      | Some e \<Rightarrow> if se_locked_until e \<le> now
          then s\<lparr>ac_sources := AList.delete source (ac_sources s),
                 ac_recent := filter (\<lambda>r. snd r \<noteq> source) (ac_recent s)\<rparr> else s)"
    have locked: "locked_state later src s1"
      using s(2) assms(1) by (auto simp: s1_def locked_state_def split: option.splits)
    then have "\<not> (ac_sources s1 = [] \<and> ac_recent s1 = [] \<and> ac_locked_until s1 \<le> now)"
      using assms(1) by (auto simp: locked_state_def)
    then have "recordSuccess now email' source accs = AList.update email s1 accs"
      using True s(1) by (simp only: recordSuccess_def option.case Let_def s1_def) simp
    then show ?thesis using locked by (simp add: isLocked_iff)
  next
    case False
    then show ?thesis using s by (auto simp: recordSuccess_def isLocked_iff Let_def split: option.split)
  qed
qed

subsection \<open>Runs\<close>

inductive lockout_step :: "ms \<times> accounts \<Rightarrow> ms \<times> accounts \<Rightarrow> bool" where
  failed: "t \<le> now \<Longrightarrow> lockout_step (t, accs) (now, snd (recordFailure now email source accs))"
| succeeded: "t \<le> now \<Longrightarrow> lockout_step (t, accs) (now, recordSuccess now email source accs)"

inductive_cases lockout_stepE: "lockout_step (t, accs) c"

definition fresh_start :: "ms \<times> accounts \<Rightarrow> bool" where
  "fresh_start c \<longleftrightarrow> 0 \<le> fst c \<and> snd c = []"

interpretation lockout: guarded_system fresh_start lockout_step "\<lambda>(t, accs). lockout_inv t accs"
proof
  fix c assume "fresh_start c"
  then show "case c of (t, accs) \<Rightarrow> lockout_inv t accs"
    by (cases c) (simp add: fresh_start_def lockout_inv_def)
next
  fix c c' assume "lockout_step c c'" and "case c of (t, accs) \<Rightarrow> lockout_inv t accs"
  then show "case c' of (t, accs) \<Rightarrow> lockout_inv t accs"
    by cases (auto intro: recordFailure_inv recordSuccess_inv lockout_inv_later)
qed

lemma lockout_steps_keep_lock:
  assumes "lockout_step\<^sup>*\<^sup>* c c'" and "case c of (t, accs) \<Rightarrow> lockout_inv t accs"
    and "fst c' \<le> later" and "isLocked later email src (snd c)"
  shows "fst c \<le> fst c' \<and> isLocked later email src (snd c')"
  using assms
proof (induction rule: rtranclp_induct)
  case (step d e)
  have d: "case d of (t, accs) \<Rightarrow> lockout_inv t accs"
    using lockout.steps_inv [OF step.hyps(1) step.prems(1)] .
  from step.hyps(2) have "fst d \<le> fst e" by cases auto
  with step have IH: "fst c \<le> fst d" "isLocked later email src (snd d)" by auto
  from step.hyps(2) show ?case
  proof cases
    case (failed t now accs e' s)
    then show ?thesis
      using IH d step.prems(2) recordFailure_keeps_lock [of now accs later email src e' s]
      by (auto intro: lockout_inv_later)
  next
    case (succeeded t now accs e' s)
    then show ?thesis
      using IH step.prems(2) recordSuccess_keeps_lock [of now later email src accs e' s] by auto
  qed
qed simp

subsection \<open>Properties\<close>

text \<open>
  Claim C22. A lock runs its full time: when a failed attempt reports a lock, that account and
  source stay locked for fifteen minutes, whatever attempts - failed or successful, from any
  source, on any account - and whatever sweeps come in between.
\<close>

theorem lock_runs_its_time:
  assumes "fresh_start c0" and "lockout_step\<^sup>*\<^sup>* c0 (t, accs)" and "t \<le> now"
    and "recordFailure now email source accs = (True, accs1)"
    and "lockout_step\<^sup>*\<^sup>* (now, accs1) (t', accs')" and "t' \<le> later" and "later < now + LOCK_MS"
  shows "isLocked later email source accs'"
proof -
  have inv0: "lockout_inv now accs"
    using lockout.reachable_inv [OF assms(1,2)] assms(3) by (simp add: lockout_inv_later)
  then have inv: "lockout_inv now (sweep now accs)" and nn: "0 \<le> now"
    using sweep_inv by (auto simp: lockout_inv_def)
  obtain b s where f: "failed_account now source (account_at (sweep now accs) email) = (b, s)" by fastforce
  have b and accs1: "accs1 = AList.update email s (sweep now accs)"
    using assms(4) f by (simp_all add: recordFailure_eq)
  from failed_account_ok(3) [OF account_at_ok [OF inv] nn f \<open>b\<close>]
  have "isLocked later email source accs1" using assms(7) by (simp add: accs1 isLocked_iff)
  moreover have "lockout_inv now accs1" using recordFailure_inv [OF inv0, of email source] assms(4) by simp
  ultimately show ?thesis
    using lockout_steps_keep_lock [OF assms(5)] assms(6) by simp
qed

theorem lock_runs_its_time_witness:
  "isLocked 899999 ''a'' ''s'' (recordSuccess 7 ''a'' ''t'' (snd (recordFailure 0 ''a'' ''s''
     (snd (recordFailure 0 ''a'' ''s'' (snd (recordFailure 0 ''a'' ''s'' (snd (recordFailure 0 ''a'' ''s''
       (snd (recordFailure 0 ''a'' ''s'' [])))))))))))"
proof -
  define f where "f = (\<lambda>accs. snd (recordFailure 0 ''a'' ''s'' accs))"
  have step: "lockout_step (0, accs) (0, f accs)" for accs unfolding f_def by (rule lockout_step.failed) simp
  have start: "fresh_start (0, [])" by (simp add: fresh_start_def)
  have reach: "lockout_step\<^sup>*\<^sup>* (0, []) (0, f (f (f (f []))))"
    by (meson step converse_rtranclp_into_rtranclp rtranclp.rtrancl_refl)
  have st: "f (f (f (f []))) = [(''a'', \<lparr>ac_sources = [(''s'', \<lparr>se_failures = 4, se_locked_until = 0, se_last_seen = 0\<rparr>)],
      ac_recent = [(0, ''s''), (0, ''s''), (0, ''s''), (0, ''s'')], ac_locked_until = 0\<rparr>)]"
    by (simp add: f_def recordFailure_def sweep_def sweep_account_def spent_account_def prune_def idle_source_def
      fail_pair_def push_recent_def trips_def MAX_FAILURES_PER_IP_def MAX_FAILURES_PER_ACCOUNT_def
      ACCOUNT_WINDOW_MS_def LOCK_MS_def Let_def)
  obtain accs1 where rec: "recordFailure 0 ''a'' ''s'' (f (f (f (f [])))) = (True, accs1)"
    unfolding st
    by (simp add: recordFailure_def sweep_def sweep_account_def spent_account_def prune_def idle_source_def
      fail_pair_def push_recent_def trips_def MAX_FAILURES_PER_IP_def MAX_FAILURES_PER_ACCOUNT_def
      ACCOUNT_WINDOW_MS_def LOCK_MS_def Let_def)
  have "lockout_step\<^sup>*\<^sup>* (0, accs1) (7, recordSuccess 7 ''a'' ''t'' accs1)"
    by (rule r_into_rtranclp, rule lockout_step.succeeded) simp
  from lock_runs_its_time [OF start reach _ rec this, of 899999]
  have "isLocked 899999 ''a'' ''s'' (recordSuccess 7 ''a'' ''t'' accs1)" by (simp add: LOCK_MS_def)
  moreover have "accs1 = snd (recordFailure 0 ''a'' ''s'' (f (f (f (f [])))))" using rec by simp
  ultimately show ?thesis by (simp add: f_def)
qed

text \<open>
  One noisy source cannot lock an account: a failure locks an account that was not
  locked only if the account's window held at least 24 failures of the last fifteen minutes,
  one of them from a different source.
\<close>

theorem account_lock_needs_two_sources:
  assumes inv0: "lockout_inv now accs"
    and "\<forall>s. map_of accs email = Some s \<longrightarrow> ac_locked_until s \<le> now"
    and "map_of (snd (recordFailure now email source accs)) email = Some s'" and "ac_locked_until s' > now"
  shows "\<exists>s. map_of accs email = Some s \<and>
    24 \<le> length (filter (\<lambda>r. now - ACCOUNT_WINDOW_MS < fst r) (ac_recent s)) \<and>
    (\<exists>r \<in> set (ac_recent s). now - ACCOUNT_WINDOW_MS < fst r \<and> snd r \<noteq> source)"
proof -
  let ?a = "account_at (sweep now accs) email"
  obtain b s where f: "failed_account now source ?a = (b, s)" by fastforce
  have s': "s' = s" using assms(3) f by (simp add: recordFailure_eq)
  have ok: "map_ok accs" and nn: "0 \<le> now" using inv0 by (simp_all add: lockout_inv_def)
  have "ac_locked_until ?a \<le> now"
    using assms(2) nn by (auto simp: account_at_def map_of_sweep [OF ok] sweep_account_def split: option.split)
  then have trip: "trips (push_recent (now, source) (ac_recent ?a))"
    using f assms(4) s' by (auto simp: failed_account_def Let_def split: prod.splits if_splits)
  then have long: "24 \<le> length (ac_recent ?a)"
    by (auto simp: trips_def push_recent_def MAX_FAILURES_PER_ACCOUNT_def Let_def split: if_splits)
  then obtain s0 where s0: "map_of accs email = Some s0" and a: "?a = sweep_account now s0"
    by (auto simp: account_at_def map_of_sweep [OF ok] split: option.splits if_splits)
  have recent: "ac_recent ?a = filter (\<lambda>r. now - ACCOUNT_WINDOW_MS < fst r) (ac_recent s0)"
    using lockout_invD [OF inv0 s0] by (simp add: a sweep_account_def prune_sorted account_ok_def)
  have "\<exists>r \<in> set (ac_recent ?a). snd r \<noteq> source"
  proof (rule ccontr)
    assume "\<not> ?thesis"
    then have "snd ` set (push_recent (now, source) (ac_recent ?a)) \<subseteq> {source}"
      using lockout_invD [OF inv0 s0] a
        push_recent_ok(4) [of "ac_recent ?a" now source] sweep_account_ok [of now s0]
      by (fastforce simp: account_ok_def)
    then have "card (snd ` set (push_recent (now, source) (ac_recent ?a))) \<le> 1"
      using card_mono [of "{source}"] by fastforce
    then show False using trip by (simp add: trips_def)
  qed
  then have "\<exists>r \<in> set (ac_recent s0). now - ACCOUNT_WINDOW_MS < fst r \<and> snd r \<noteq> source"
    unfolding recent set_filter by blast
  then show ?thesis using s0 long [unfolded recent] by blast
qed

definition noisy :: accounts where
  "noisy = [(''a'', \<lparr>ac_sources = [], ac_recent = replicate 24 (0, ''s1''), ac_locked_until = 0\<rparr>)]"

lemma noisy_inv: "lockout_inv 0 noisy"
  using LOCK_MS_pos(2) by (simp add: lockout_inv_def noisy_def map_ok_def account_ok_def MAX_FAILURES_PER_ACCOUNT_def)

theorem account_lock_needs_two_sources_witness:
  "\<exists>s. map_of noisy ''a'' = Some s \<and> (\<exists>r \<in> set (ac_recent s). snd r \<noteq> ''s2'')"
proof -
  let ?s = "\<lparr>ac_sources = [], ac_recent = replicate 24 (0, ''s1''), ac_locked_until = 0\<rparr>"
  have pr: "prune 0 (replicate 24 (0, ''s1'')) = replicate 24 (0, ''s1'')"
    by (simp add: prune_def ACCOUNT_WINDOW_MS_def LOCK_MS_def)
  have sw: "sweep 0 noisy = noisy"
    by (simp add: sweep_def noisy_def sweep_account_def pr spent_account_def)
  have "map_of (sweep 0 noisy) ''a'' = Some ?s" unfolding sw by (simp add: noisy_def)
  then have at: "account_at (sweep 0 noisy) ''a'' = ?s" by (simp add: account_at_def)
  have push: "push_recent (0, ''s2'') (ac_recent ?s) = replicate 24 (0, ''s1'') @ [(0, ''s2'')]"
    by (simp add: push_recent_def MAX_FAILURES_PER_ACCOUNT_def)
  have trip: "trips (push_recent (0, ''s2'') (ac_recent ?s))"
    unfolding push by (simp add: trips_def MAX_FAILURES_PER_ACCOUNT_def)
  have fa: "\<exists>src. failed_account 0 ''s2'' ?s = (True, \<lparr>ac_sources = src, ac_recent = [], ac_locked_until = 0 + LOCK_MS\<rparr>)"
    unfolding failed_account_def Let_def using trip by (simp split: prod.split)
  then obtain s' where "map_of (snd (recordFailure 0 ''a'' ''s2'' noisy)) ''a'' = Some s'" "ac_locked_until s' = LOCK_MS"
    by (auto simp: recordFailure_eq at)
  moreover have "\<forall>s. map_of noisy ''a'' = Some s \<longrightarrow> ac_locked_until s \<le> 0" by (simp add: noisy_def)
  ultimately show ?thesis
    using account_lock_needs_two_sources [OF noisy_inv, of "''a''" "''s2''" s'] by auto
qed

end
