(* ===== verification/RateLimit.thy ===== *)
theory RateLimit
  imports Prelude
begin

text \<open>
  The rejection backstop of \<open>apps/server/src/plugins/rateLimit.ts\<close>: responses that die with
  400, 401 or 403 are counted per client address, and past the cap further ones - and further
  requests - are answered with 429. The principal limiter is the \<open>@fastify/rate-limit\<close> package and
  is not modelled. The map keeps JavaScript's insertion order.
\<close>

subsection \<open>The two hooks\<close>

definition REJECTION_WINDOW_MS :: ms where "REJECTION_WINDOW_MS = 60000"
definition REJECTION_MAP_SOFT_CAP :: nat where "REJECTION_MAP_SOFT_CAP = 10000"

type_synonym rejections = "(string \<times> ms list) list"

datatype hook_result = Pass | Limited int

definition preHandlerDeath :: "nat \<Rightarrow> bool" where
  "preHandlerDeath status \<longleftrightarrow> status \<in> {400, 401, 403}"

definition live_stamps :: "ms \<Rightarrow> ms list \<Rightarrow> ms list" where
  "live_stamps now stamps = filter (\<lambda>t. now - t < REJECTION_WINDOW_MS) stamps"

definition stamps_at :: "rejections \<Rightarrow> string \<Rightarrow> ms list" where
  "stamps_at m key = (case map_of m key of None \<Rightarrow> [] | Some v \<Rightarrow> v)"

text \<open>\<open>Math.max(1, Math.ceil(x / 1000))\<close> on an integer number of milliseconds.\<close>

definition retryAfter :: "ms \<Rightarrow> ms list \<Rightarrow> int" where
  "retryAfter now stamps = max 1 (- ((- (REJECTION_WINDOW_MS - (now - hd stamps))) div 1000))"

definition evict :: "ms \<Rightarrow> rejections \<Rightarrow> rejections" where
  "evict now m =
     (if length m \<le> REJECTION_MAP_SOFT_CAP then m
      else let m1 = filter (\<lambda>(k, v). \<not> (now - (if v = [] then 0 else last v) \<ge> REJECTION_WINDOW_MS)) m
        in drop (length m1 - REJECTION_MAP_SOFT_CAP) m1)"

definition onSend :: "nat \<Rightarrow> ms \<Rightarrow> string \<Rightarrow> nat \<Rightarrow> rejections \<Rightarrow> hook_result \<times> rejections" where
  "onSend cap now ip status m =
     (if \<not> preHandlerDeath status then (Pass, m)
      else
        let stamps = live_stamps now (stamps_at m ip) in
        if length stamps \<ge> cap then (Limited (retryAfter now stamps), m)
        else (Pass, evict now (AList.update ip (stamps @ [now]) m)))"

definition onRequest :: "nat \<Rightarrow> ms \<Rightarrow> string \<Rightarrow> rejections \<Rightarrow> hook_result \<times> rejections" where
  "onRequest cap now ip m =
     (let stamps = live_stamps now (stamps_at m ip);
          m' = (if stamps = [] then AList.delete ip m else AList.update ip stamps m)
      in if length stamps < cap then (Pass, m') else (Limited (retryAfter now stamps), m'))"

subsection \<open>Invariant\<close>

interpretation rejection_window: sliding_window live_stamps id "\<lambda>now t. now - t < REJECTION_WINDOW_MS" "\<lambda>_. True"
  by unfold_locales (auto simp: live_stamps_def)

definition backstop_inv :: "nat \<Rightarrow> ms \<Rightarrow> rejections \<Rightarrow> bool" where
  "backstop_inv cap now m \<longleftrightarrow> map_ok m \<and> length m \<le> REJECTION_MAP_SOFT_CAP \<and>
     (\<forall>k v. map_of m k = Some v \<longrightarrow> length v \<le> cap \<and> (\<forall>t \<in> set v. t \<le> now))"

lemma stamps_at_inv: "backstop_inv cap now m \<Longrightarrow> length (stamps_at m k) \<le> cap \<and> (\<forall>t \<in> set (stamps_at m k). t \<le> now)"
  by (auto simp: backstop_inv_def stamps_at_def split: option.split)

lemma backstop_inv_later: "backstop_inv cap now m \<Longrightarrow> now \<le> now' \<Longrightarrow> backstop_inv cap now' m"
  by (fastforce simp: backstop_inv_def)

lemma length_update_present: "map_of m k \<noteq> None \<Longrightarrow> length (AList.update k v m) = length m"
  by (induction m) auto

lemma length_delete_le: "length (AList.delete k m) \<le> length m"
  by (simp add: AList.delete_eq)

lemma map_ok_drop: "map_ok m \<Longrightarrow> map_ok (drop n m)"
  by (simp add: map_ok_def drop_map [symmetric])

lemma map_of_drop: "map_ok m \<Longrightarrow> map_of (drop n m) k = Some v \<Longrightarrow> map_of m k = Some v"
  by (metis in_set_dropD map_of_SomeD map_ok_map_of)

lemma length_drop_to: "length (drop (length xs - n) xs) \<le> n"
  by simp

lemma evict_bounds:
  assumes "map_ok m"
  shows "map_ok (evict now m)" "length (evict now m) \<le> REJECTION_MAP_SOFT_CAP"
    "map_of (evict now m) k = Some v \<Longrightarrow> map_of m k = Some v"
proof -
  show "length (evict now m) \<le> REJECTION_MAP_SOFT_CAP"
    using length_drop_to unfolding evict_def Let_def by (simp only: split: if_split) blast
  show "map_ok (evict now m)" using assms by (simp add: evict_def Let_def map_ok_drop)
  show "map_of (evict now m) k = Some v \<Longrightarrow> map_of m k = Some v"
    using assms by (auto simp: evict_def Let_def map_of_filter_entry split: if_splits option.splits
      dest!: map_of_drop [OF map_ok_filter [OF assms]])
qed

lemma onSend_inv:
  assumes inv: "backstop_inv cap now m"
  shows "backstop_inv cap now (snd (onSend cap now ip status m))"
proof (cases "preHandlerDeath status \<and> length (live_stamps now (stamps_at m ip)) < cap")
  case True
  let ?m = "AList.update ip (live_stamps now (stamps_at m ip) @ [now]) m"
  have ok: "map_ok ?m" using inv by (simp add: backstop_inv_def)
  have stamps: "length v \<le> cap \<and> (\<forall>t \<in> set v. t \<le> now)" if "map_of ?m k = Some v" for k v
    using that True inv stamps_at_inv [OF inv, of ip] rejection_window.prune_subset [of now "stamps_at m ip"]
    by (auto simp: backstop_inv_def split: if_splits)
  have "backstop_inv cap now (evict now ?m)"
    using evict_bounds [OF ok, of now] stamps unfolding backstop_inv_def by blast
  then show ?thesis using True by (simp add: onSend_def Let_def)
qed (use inv in \<open>auto simp: onSend_def Let_def\<close>)

lemma onRequest_inv:
  assumes inv: "backstop_inv cap now m"
  shows "backstop_inv cap now (snd (onRequest cap now ip m))"
proof (cases "live_stamps now (stamps_at m ip) = []")
  case True
  have "length (AList.delete ip m) \<le> REJECTION_MAP_SOFT_CAP"
    using inv length_delete_le [of ip m] by (simp add: backstop_inv_def)
  then have "backstop_inv cap now (AList.delete ip m)" using inv by (auto simp: backstop_inv_def)
  then show ?thesis using True by (cases cap) (simp_all add: onRequest_def Let_def)
next
  case False
  let ?v = "live_stamps now (stamps_at m ip)"
  have present: "map_of m ip \<noteq> None"
    using False by (auto simp: stamps_at_def live_stamps_def split: option.splits)
  have "length ?v \<le> cap \<and> (\<forall>t \<in> set ?v. t \<le> now)"
    using stamps_at_inv [OF inv, of ip] rejection_window.prune_subset [of now "stamps_at m ip"]
      rejection_window.prune_length [of now "stamps_at m ip"] by auto
  then have "backstop_inv cap now (AList.update ip ?v m)"
    using inv length_update_present [OF present] by (auto simp: backstop_inv_def)
  then show ?thesis using False by (simp add: onRequest_def Let_def)
qed

inductive backstop_step :: "nat \<Rightarrow> ms \<times> rejections \<Rightarrow> ms \<times> rejections \<Rightarrow> bool" for cap where
  sent: "t \<le> now \<Longrightarrow> backstop_step cap (t, m) (now, snd (onSend cap now ip status m))"
| requested: "t \<le> now \<Longrightarrow> backstop_step cap (t, m) (now, snd (onRequest cap now ip m))"

definition no_rejections :: "ms \<times> rejections \<Rightarrow> bool" where
  "no_rejections c \<longleftrightarrow> snd c = []"

interpretation backstop: guarded_system no_rejections "backstop_step cap" "\<lambda>(t, m). backstop_inv cap t m" for cap
proof
  fix c assume "no_rejections c"
  then show "case c of (t, m) \<Rightarrow> backstop_inv cap t m"
    by (cases c) (simp add: no_rejections_def backstop_inv_def)
next
  fix c c' assume "backstop_step cap c c'" and "case c of (t, m) \<Rightarrow> backstop_inv cap t m"
  then show "case c' of (t, m) \<Rightarrow> backstop_inv cap t m"
    by cases (auto intro: onSend_inv onRequest_inv backstop_inv_later)
qed

subsection \<open>Property\<close>

text \<open>
  The backstop stays bounded and lets go: whatever traffic arrives, it never tracks
  more than ten thousand addresses nor more rejections of one address than the cap, and after a
  minute without a rejection every address is served again.
\<close>

theorem backstop_bounded_and_reopens:
  assumes "no_rejections c0" and "(backstop_step cap)\<^sup>*\<^sup>* c0 (t, m)"
  shows "length m \<le> REJECTION_MAP_SOFT_CAP \<and> (\<forall>k v. map_of m k = Some v \<longrightarrow> length v \<le> cap) \<and>
    (0 < cap \<longrightarrow> t + REJECTION_WINDOW_MS \<le> now \<longrightarrow> fst (onRequest cap now ip m) = Pass)"
proof -
  have inv: "backstop_inv cap t m"
    using backstop.reachable_inv [OF assms] by simp
  have "live_stamps now (stamps_at m ip) = []" if "t + REJECTION_WINDOW_MS \<le> now"
    by (rule rejection_window.prune_all_dead) (use that stamps_at_inv [OF inv, of ip] in auto)
  then show ?thesis using inv by (auto simp: backstop_inv_def onRequest_def Let_def)
qed

theorem backstop_bounded_and_reopens_witness:
  "fst (onRequest 1 61000 ''ip'' (snd (onSend 1 1000 ''ip'' 401 []))) = Pass \<and>
   fst (onRequest 1 2000 ''ip'' (snd (onSend 1 1000 ''ip'' 401 []))) \<noteq> Pass"
proof
  have "(backstop_step 1)\<^sup>*\<^sup>* (0, []) (1000, snd (onSend 1 1000 ''ip'' 401 []))"
    by (rule r_into_rtranclp, rule backstop_step.sent) simp
  moreover have "no_rejections (0, [])" by (simp add: no_rejections_def)
  ultimately show "fst (onRequest 1 61000 ''ip'' (snd (onSend 1 1000 ''ip'' 401 []))) = Pass"
    using backstop_bounded_and_reopens [of "(0, [])" 1 1000 "snd (onSend 1 1000 ''ip'' 401 [])" 61000 "''ip''"]
    by (simp add: REJECTION_WINDOW_MS_def)
  show "fst (onRequest 1 2000 ''ip'' (snd (onSend 1 1000 ''ip'' 401 []))) \<noteq> Pass"
    by (simp add: onSend_def preHandlerDeath_def stamps_at_def live_stamps_def evict_def
      REJECTION_MAP_SOFT_CAP_def onRequest_def REJECTION_WINDOW_MS_def Let_def)
qed

end
