(* ===== verification/Credentials.thy ===== *)
theory Credentials
  imports AccessModel
begin

text \<open>
  Single-use credentials: the refresh-token rotation of \<open>apps/server/src/lib/sessions.ts\<close> and the
  spending of TOTP codes of \<open>lib/totpReplay.ts\<close>. Both rest on one conditional update. Signing
  and verifying tokens, the random session ids and the TOTP arithmetic (\<open>verify\<close>) are
  arguments. \<open>Error('session_revoked')\<close> carries no status and is \<open>session_revoked\<close> here.
\<close>

subsection \<open>Sessions\<close>

record session_row =
  ses_user :: int
  ses_jti :: string
  ses_last_used :: ms
  ses_expires :: ms
  ses_revoked :: "ms option"

text \<open>A token pair as its claims: the user, the session and, in the refresh token, the generation.\<close>

record token_pair =
  tp_user :: int
  tp_jti :: string
  tp_gen :: ms

definition session_revoked :: http_error where
  "session_revoked = \<lparr>statusCode = 500, errCode = ''error'', errMessage = ''session_revoked''\<rparr>"

definition deactivated_error :: http_error where
  "deactivated_error = unauthorized ''This account has been deactivated'' ''account_deactivated''"

text \<open>Timestamp columns keep whole seconds.\<close>

definition whole_seconds :: "ms \<Rightarrow> ms" where
  "whole_seconds t = (t div 1000) * 1000"

definition issueSessionTokens ::
  "ms \<Rightarrow> ms \<Rightarrow> string \<Rightarrow> int \<Rightarrow> bool \<Rightarrow> session_row list \<Rightarrow> token_pair outcome \<times> session_row list" where
  "issueSessionTokens now ttl jti user deactivated rows =
     (if deactivated then (Inl deactivated_error, rows)
      else let expiresAt = whole_seconds now + ttl * 1000 in
        (Inr \<lparr>tp_user = user, tp_jti = jti, tp_gen = expiresAt\<rparr>,
         rows @ [\<lparr>ses_user = user, ses_jti = jti, ses_last_used = now, ses_expires = expiresAt,
           ses_revoked = None\<rparr>]))"

text \<open>The check, on one state, and the conditional update, on the state it runs in.\<close>

definition refreshCheck :: "string \<Rightarrow> ms \<Rightarrow> session_row list \<Rightarrow> bool" where
  "refreshCheck jti generation rows =
     (case List.find (\<lambda>r. ses_jti r = jti) rows of
        None \<Rightarrow> False
      | Some row \<Rightarrow> ses_revoked row = None \<and> ses_expires row = generation)"

definition rotates :: "string \<Rightarrow> ms option \<Rightarrow> session_row \<Rightarrow> bool" where
  "rotates jti generation r \<longleftrightarrow> ses_jti r = jti \<and> ses_revoked r = None \<and>
     (case generation of None \<Rightarrow> True | Some g \<Rightarrow> ses_expires r = g)"

definition nextExpiry :: "ms \<Rightarrow> ms \<Rightarrow> ms option \<Rightarrow> ms" where
  "nextExpiry now ttl generation =
     max (whole_seconds now + ttl * 1000) (case generation of None \<Rightarrow> 0 | Some g \<Rightarrow> g + 1000)"

definition refreshRotate ::
  "ms \<Rightarrow> ms \<Rightarrow> string \<Rightarrow> ms option \<Rightarrow> int \<Rightarrow> session_row list \<Rightarrow> token_pair outcome \<times> session_row list" where
  "refreshRotate now ttl jti generation user rows =
     (let expiresAt = nextExpiry now ttl generation in
      if filter (rotates jti generation) rows = [] then (Inl session_revoked, rows)
      else (Inr \<lparr>tp_user = user, tp_jti = jti, tp_gen = expiresAt\<rparr>,
        map (\<lambda>r. if rotates jti generation r
                 then r\<lparr>ses_last_used := now, ses_expires := expiresAt\<rparr> else r) rows))"

definition refreshSessionTokens ::
  "ms \<Rightarrow> ms \<Rightarrow> string \<Rightarrow> ms option \<Rightarrow> int \<Rightarrow> bool \<Rightarrow> session_row list \<Rightarrow> token_pair outcome \<times> session_row list" where
  "refreshSessionTokens now ttl jti tokenGen user deactivated rows =
     (if deactivated then (Inl deactivated_error, rows)
      else let generation = map_option whole_seconds tokenGen in
        if (case generation of None \<Rightarrow> False | Some g \<Rightarrow> \<not> refreshCheck jti g rows)
        then (Inl session_revoked, rows)
        else refreshRotate now ttl jti generation user rows)"

definition findLiveSession :: "ms \<Rightarrow> string \<Rightarrow> session_row list \<Rightarrow> session_row option" where
  "findLiveSession now jti rows =
     (case List.find (\<lambda>r. ses_jti r = jti) rows of
        None \<Rightarrow> None
      | Some row \<Rightarrow> if ses_revoked row \<noteq> None then None
          else if ses_expires row \<le> now then None else Some row)"

definition revokeAllSessions :: "ms \<Rightarrow> int \<Rightarrow> session_row list \<Rightarrow> session_row list" where
  "revokeAllSessions now userId rows =
     map (\<lambda>r. if ses_user r = userId \<and> ses_revoked r = None then r\<lparr>ses_revoked := Some now\<rparr> else r) rows"

subsection \<open>TOTP codes\<close>

record totp_row =
  tot_user :: int
  tot_secret :: "string option"
  tot_last_step :: "int option"

definition spends :: "int \<Rightarrow> string \<Rightarrow> int \<Rightarrow> totp_row \<Rightarrow> bool" where
  "spends userId secret step r \<longleftrightarrow> tot_user r = userId \<and> tot_secret r = Some secret \<and>
     (case tot_last_step r of None \<Rightarrow> True | Some l \<Rightarrow> l < step)"

definition consumeTotpCode ::
  "(string \<Rightarrow> string \<Rightarrow> ms \<Rightarrow> int option) \<Rightarrow> int \<Rightarrow> string option \<Rightarrow> string \<Rightarrow> ms \<Rightarrow> totp_row list \<Rightarrow>
     bool \<times> totp_row list" where
  "consumeTotpCode verify userId secretEncrypted code now rows =
     (case secretEncrypted of
        None \<Rightarrow> (False, rows)
      | Some secret \<Rightarrow>
          if secret = [] then (False, rows)
          else case verify secret code now of
            None \<Rightarrow> (False, rows)
          | Some step \<Rightarrow>
              (filter (spends userId secret step) rows \<noteq> [],
               map (\<lambda>r. if spends userId secret step r then r\<lparr>tot_last_step := Some step\<rparr> else r) rows))"

subsection \<open>A generation is spent for good\<close>

text \<open>
  What can happen to the session rows: rotations by generation-bearing tokens, new sessions
  under ids never used before, revocations and deletions. (A token minted before generations
  existed has none; \<open>refreshRotate\<close> accepts it, and it is not part of this relation.) A state
  is the ids used so far and the rows.
\<close>

inductive session_step :: "string set \<times> session_row list \<Rightarrow> string set \<times> session_row list \<Rightarrow> bool" where
  rotated: "session_step (used, rows) (used, snd (refreshRotate now ttl jti (Some g) user rows))"
| issued: "jti \<notin> used \<Longrightarrow> session_step (used, rows) (insert jti used, snd (issueSessionTokens now ttl jti user d rows))"
| revoked: "session_step (used, rows) (used, revokeAllSessions now userId rows)"
| deleted: "session_step (used, rows) (used, filter P rows)"

definition spent :: "string \<Rightarrow> ms \<Rightarrow> string set \<times> session_row list \<Rightarrow> bool" where
  "spent jti g c \<longleftrightarrow> jti \<in> fst c \<and>
     (\<forall>r \<in> set (snd c). ses_jti r = jti \<and> ses_revoked r = None \<longrightarrow> g < ses_expires r)"

lemma nextExpiry_greater: "g < nextExpiry now ttl (Some g)"
  by (simp add: nextExpiry_def)

lemma refreshRotate_rows:
  "snd (refreshRotate now ttl jti gen user rows) = map (\<lambda>r. if rotates jti gen r
     then r\<lparr>ses_last_used := now, ses_expires := nextExpiry now ttl gen\<rparr> else r) rows"
proof (cases "filter (rotates jti gen) rows = []")
  case True
  then have "\<forall>r \<in> set rows. \<not> rotates jti gen r" by (simp add: filter_empty_conv)
  then have "map (\<lambda>r. if rotates jti gen r
      then r\<lparr>ses_last_used := now, ses_expires := nextExpiry now ttl gen\<rparr> else r) rows = rows"
    by (intro map_idI) simp
  then show ?thesis using True by (simp add: refreshRotate_def)
qed (simp add: refreshRotate_def Let_def)

lemma refreshRotate_spends:
  assumes "is_ok (fst (refreshRotate now ttl jti (Some g) user rows))"
    and "distinct (map ses_jti rows)" and "ses_jti ` set rows \<subseteq> used"
  shows "spent jti g (used, snd (refreshRotate now ttl jti (Some g) user rows))"
proof -
  have "filter (rotates jti (Some g)) rows \<noteq> []"
    using assms(1) by (auto simp: refreshRotate_def is_ok_def Let_def split: if_splits)
  then obtain r where r: "r \<in> set rows" "rotates jti (Some g) r" by (auto simp: filter_empty_conv)
  then have jti: "ses_jti r = jti" by (simp add: rotates_def)
  have only: "x = r" if "x \<in> set rows" "ses_jti x = jti" for x
    using that r(1) jti assms(2) by (auto simp: distinct_map inj_on_def)
  have "rotates jti (Some g) x" if "x \<in> set rows" "ses_jti x = jti" for x
    using only [OF that] r(2) by simp
  moreover have "jti \<in> used" using r(1) jti assms(3) by auto
  ultimately show ?thesis unfolding spent_def refreshRotate_rows
    using nextExpiry_greater by (auto simp del: if_image_distrib split: if_splits)
qed

lemma session_step_spent: "session_step c c' \<Longrightarrow> spent jti g c \<Longrightarrow> spent jti g c'"
proof (induction rule: session_step.induct)
  case (rotated used rows now ttl j g' user)
  have "ses_jti (f r) = jti \<and> ses_revoked (f r) = None \<longrightarrow> g < ses_expires (f r)"
    if r: "r \<in> set rows" and f: "f = (\<lambda>r. if rotates j (Some g') r
      then r\<lparr>ses_last_used := now, ses_expires := nextExpiry now ttl (Some g')\<rparr> else r)"
    for r and f :: "session_row \<Rightarrow> session_row"
  proof (cases "rotates j (Some g') r")
    case True
    then have "ses_jti r = jti \<Longrightarrow> g < g'"
      using rotated r by (fastforce simp: spent_def rotates_def)
    then show ?thesis
      using True nextExpiry_greater [of g' now ttl] by (simp add: f) (use less_trans in blast)
  next
    case False then show ?thesis using rotated r by (simp add: f spent_def)
  qed
  then show ?case using rotated unfolding spent_def refreshRotate_rows by (simp del: if_image_distrib)
qed (auto simp: spent_def issueSessionTokens_def revokeAllSessions_def Let_def split: if_splits)

lemma session_steps_spent: "session_step\<^sup>*\<^sup>* c c' \<Longrightarrow> spent jti g c \<Longrightarrow> spent jti g c'"
  by (induction rule: rtranclp_induct) (auto intro: session_step_spent)

lemma spent_refused: "spent jti g (used, rows) \<Longrightarrow> filter (rotates jti (Some g)) rows = []"
  by (auto simp: spent_def rotates_def filter_empty_conv)

text \<open>
  Claim C21. A refresh token works once: after a rotation under one generation has won, no later
  rotation under that generation wins - neither the whole refresh nor its conditional update
  alone, as a request that passed the check before - whatever other refreshes, sign-ins,
  revocations and deletions come in between, and however the clock moves.
\<close>

theorem refresh_generation_single_use:
  assumes "distinct (map ses_jti rows)" and "ses_jti ` set rows \<subseteq> used"
    and "refreshRotate now ttl jti (Some g) user rows = (Inr p, rows1)"
    and "session_step\<^sup>*\<^sup>* (used, rows1) (used', rows2)"
  shows "g < tp_gen p \<and> refreshRotate now' ttl' jti (Some g) user' rows2 = (Inl session_revoked, rows2) \<and>
    (whole_seconds t = g \<longrightarrow> \<not> is_ok (fst (refreshSessionTokens now' ttl' jti (Some t) user' d rows2)))"
proof -
  have "spent jti g (used, rows1)"
    using refreshRotate_spends [OF _ assms(1,2), of now ttl jti g user] assms(3) by (simp add: is_ok_def)
  from spent_refused [of jti g used' rows2] session_steps_spent [OF assms(4) this]
  have none: "refreshRotate now' ttl' jti (Some g) user' rows2 = (Inl session_revoked, rows2)"
    by (simp add: refreshRotate_def)
  moreover have "g < tp_gen p"
    using assms(3) nextExpiry_greater by (auto simp: refreshRotate_def Let_def split: if_splits)
  ultimately show ?thesis by (auto simp: refreshSessionTokens_def is_ok_def Let_def)
qed

theorem refresh_generation_single_use_witness:
  "\<not> is_ok (fst (refreshSessionTokens 0 60 ''j'' (Some 61000) 1 False
     (snd (refreshRotate 5000 60 ''j'' (Some 61000) 1
       [\<lparr>ses_user = 1, ses_jti = ''j'', ses_last_used = 1000, ses_expires = 61000, ses_revoked = None\<rparr>]))))"
proof -
  let ?rows = "[\<lparr>ses_user = 1, ses_jti = ''j'', ses_last_used = 1000, ses_expires = 61000, ses_revoked = None\<rparr>]"
  have "distinct (map ses_jti ?rows)" "ses_jti ` set ?rows \<subseteq> {''j''}" by simp_all
  moreover obtain p rows1 where "refreshRotate 5000 60 ''j'' (Some 61000) 1 ?rows = (Inr p, rows1)"
    by (simp add: refreshRotate_def rotates_def Let_def)
  ultimately show ?thesis
    using refresh_generation_single_use [of ?rows "{''j''}" 5000 60 "''j''" 61000 1 p rows1 "{''j''}" rows1 0 60 1 61000 False]
    by (simp add: whole_seconds_def)
qed

subsection \<open>A code is spent for good\<close>

text \<open>Codes are spent, and users enrol with encrypted secrets never used before.\<close>

inductive totp_step :: "(string \<Rightarrow> string \<Rightarrow> ms \<Rightarrow> int option) \<Rightarrow>
    string set \<times> totp_row list \<Rightarrow> string set \<times> totp_row list \<Rightarrow> bool" for verify where
  consumed: "totp_step verify (used, rows) (used, snd (consumeTotpCode verify u s code now rows))"
| enrolled: "s \<notin> used \<Longrightarrow> totp_step verify (used, rows) (insert s used,
    map (\<lambda>r. if tot_user r = u then r\<lparr>tot_secret := Some s, tot_last_step := None\<rparr> else r) rows)"

definition code_spent :: "int \<Rightarrow> string \<Rightarrow> int \<Rightarrow> string set \<times> totp_row list \<Rightarrow> bool" where
  "code_spent u s step c \<longleftrightarrow> s \<in> fst c \<and> (\<forall>r \<in> set (snd c). tot_user r = u \<and> tot_secret r = Some s \<longrightarrow>
     (\<exists>l. tot_last_step r = Some l \<and> step \<le> l))"

lemma consumeTotpCode_rows:
  "snd (consumeTotpCode verify u (Some s) code now rows) =
     (if s = [] then rows else case verify s code now of None \<Rightarrow> rows
      | Some step \<Rightarrow> map (\<lambda>r. if spends u s step r then r\<lparr>tot_last_step := Some step\<rparr> else r) rows)"
  by (simp add: consumeTotpCode_def split: option.split)

lemma totp_step_spent: "totp_step verify c c' \<Longrightarrow> code_spent u s step c \<Longrightarrow> code_spent u s step c'"
proof (induction rule: totp_step.induct)
  case (consumed used rows u' s' code now)
  show ?case
  proof (cases s')
    case (Some sec)
    have old: "\<exists>l. tot_last_step r = Some l \<and> step \<le> l"
      if "r \<in> set rows" "tot_user r = u" "tot_secret r = Some s" for r
      using consumed that by (simp add: code_spent_def)
    have kept: "step \<le> st" if "spends u' sec st r" "r \<in> set rows" "tot_user r = u" "tot_secret r = Some s" for r st
      using old [OF that(2-4)] that(1) by (auto simp: spends_def)
    show ?thesis
      using consumed old kept unfolding Some consumeTotpCode_rows code_spent_def
      by (auto simp del: if_image_distrib split: option.split if_splits)
  qed (use consumed in \<open>simp add: consumeTotpCode_def\<close>)
qed (auto simp: code_spent_def)

lemma totp_steps_spent: "(totp_step verify)\<^sup>*\<^sup>* c c' \<Longrightarrow> code_spent u s step c \<Longrightarrow> code_spent u s step c'"
  by (induction rule: rtranclp_induct) (auto intro: totp_step_spent)

lemma code_stays_spent:
  assumes "consumeTotpCode verify u (Some s) code now rows = (True, rows1)"
    and "verify s code now = Some step" and "s \<in> used"
    and "(totp_step verify)\<^sup>*\<^sup>* (used, rows1) (used', rows2)"
  shows "code_spent u s step (used', rows2)"
proof -
  have "rows1 = map (\<lambda>r. if spends u s step r then r\<lparr>tot_last_step := Some step\<rparr> else r) rows"
    using assms(1,2) by (simp add: consumeTotpCode_def split: if_splits)
  moreover have "spends u s step r \<or> (\<exists>l. tot_last_step r = Some l \<and> step \<le> l)"
    if "tot_user r = u" "tot_secret r = Some s" for r
    using that by (cases "tot_last_step r") (auto simp: spends_def not_less)
  ultimately have "code_spent u s step (used, rows1)"
    using assms(3) by (auto simp: code_spent_def simp del: if_image_distrib)
  then show ?thesis by (rule totp_steps_spent [OF assms(4)])
qed

lemma spent_code_refused:
  assumes "code_spent u s step (used, rows)" and "verify s code now = Some step'" and "step' \<le> step"
  shows "fst (consumeTotpCode verify u (Some s) code now rows) = False"
proof -
  have "\<forall>r \<in> set rows. \<not> spends u s step' r"
    using assms(1,3) by (fastforce simp: code_spent_def spends_def)
  then show ?thesis using assms(2) by (simp add: consumeTotpCode_def filter_empty_conv)
qed

text \<open>
  A TOTP code works once: after a code of some step was accepted for a secret, no code
  of that step or an earlier one is accepted for it again, whatever codes are spent and whoever
  enrols in between - the drift window of the verifier cannot be replayed.
\<close>

theorem totp_code_single_use:
  assumes "consumeTotpCode verify u (Some s) code now rows = (True, rows1)"
    and "verify s code now = Some step" and "s \<in> used"
    and "(totp_step verify)\<^sup>*\<^sup>* (used, rows1) (used', rows2)"
    and "verify s code' now' = Some step'" and "step' \<le> step"
  shows "fst (consumeTotpCode verify u (Some s) code' now' rows2) = False"
  using assms(5,6) by (rule spent_code_refused [OF code_stays_spent [OF assms(1-4)]])

text \<open>The witness verifies a code against a thirty-second step, accepting one step of drift.\<close>

definition drift_verify :: "string \<Rightarrow> string \<Rightarrow> ms \<Rightarrow> int option" where
  "drift_verify s code now = (if code = ''123456'' \<and> \<bar>now div 30000 - 7\<bar> \<le> 1 then Some 7 else None)"

theorem totp_code_single_use_witness:
  "fst (consumeTotpCode drift_verify 1 (Some ''k'') ''123456'' 240000
     (snd (consumeTotpCode drift_verify 1 (Some ''k'') ''123456'' 210000
       [\<lparr>tot_user = 1, tot_secret = Some ''k'', tot_last_step = None\<rparr>]))) = False"
proof (rule totp_code_single_use [where used = "{''k''}" and used' = "{''k''}"])
  let ?rows = "[\<lparr>tot_user = 1, tot_secret = Some ''k'', tot_last_step = None\<rparr>]"
  show "drift_verify ''k'' ''123456'' 210000 = Some 7" "drift_verify ''k'' ''123456'' 240000 = Some 7"
    by (simp_all add: drift_verify_def)
  then show "consumeTotpCode drift_verify 1 (Some ''k'') ''123456'' 210000 ?rows =
      (True, snd (consumeTotpCode drift_verify 1 (Some ''k'') ''123456'' 210000 ?rows))"
    by (simp add: consumeTotpCode_def spends_def)
qed simp_all

end
