(* ===== verification/ConfigCenter.thy ===== *)
theory ConfigCenter
  imports Prelude
begin

text \<open>
  The configuration store of the kernel (\<open>apps/server/src/kernel/configCenter.ts\<close>): a database
  table behind an in-memory cache. Every operation awaits the database once, so it is split where
  it awaits: a \<open>get\<close> starts, reads its row, resumes; a write is issued, commits in the database,
  resumes. Operations of different callers interleave at these points. Writes resume in the order
  they committed, as the answers of one database connection arrive; reads resume in any order.

  \<open>JSON.parse\<close>, \<open>JSON.stringify\<close>, \<open>String\<close> and the secret encryption are the fields of a
  \<open>codec\<close>; \<open>JSON.parse\<close> throwing is \<open>None\<close>. A value is a string or other JSON data; \<open>undefined\<close>
  as an answer is \<open>None\<close>. The time stamp of a row is left out.
\<close>

subsection \<open>State\<close>

datatype 'd cvalue = Text string | Data 'd

record 'd codec =
  cx_parse :: "string \<Rightarrow> 'd cvalue option"
  cx_stringify :: "'d cvalue \<Rightarrow> string"
  cx_text :: "'d cvalue \<Rightarrow> string"
  cx_encrypt :: "int \<Rightarrow> string \<Rightarrow> string"
  cx_decrypt :: "string \<Rightarrow> string option"

record config_row =
  rw_plugin :: "string option"
  rw_value :: string
  rw_secret :: bool
  rw_category :: string
  rw_tags :: "string list"
  rw_description :: "string option"
  rw_user :: "int option"

record 'd config_def =
  cd_key :: string
  cd_default :: "'d cvalue option"
  cd_secret :: "bool option"
  cd_category :: "string option"
  cd_plugin :: "string option"
  cd_description :: "string option"
  cd_tags :: "string list option"

record set_opts =
  so_secret :: "bool option"
  so_category :: "string option"
  so_plugin :: "string option"
  so_description :: "string option"
  so_tags :: "string list option"
  so_user :: "int option"

text \<open>A write under way, and a \<open>get\<close> under way: its row is \<open>None\<close> until the database answered.\<close>

datatype 'd config_write =
    WSet string "'d cvalue" config_row
  | WDelete string
  | WPurge string

record 'd get_op =
  go_key :: string
  go_default :: "'d cvalue option"
  go_epoch :: nat
  go_row :: "config_row option option"

record 'd config_center =
  cc_defs :: "(string \<times> 'd config_def) list"
  cc_cache :: "(string \<times> ('d cvalue \<times> bool)) list"
  cc_watchers :: "(string \<times> int list) list"
  cc_epoch :: nat
  cc_rows :: "(string \<times> config_row) list"
  cc_gets :: "'d get_op list"
  cc_issued :: "'d config_write list"
  cc_committed :: "'d config_write list"

definition new_center :: "'d config_center" where
  "new_center = \<lparr>cc_defs = [], cc_cache = [], cc_watchers = [], cc_epoch = 0, cc_rows = [],
     cc_gets = [], cc_issued = [], cc_committed = []\<rparr>"

subsection \<open>Definitions\<close>

definition registerDefinition :: "'d config_def \<Rightarrow> 'd config_center \<Rightarrow> 'd config_center" where
  "registerDefinition d s = s\<lparr>cc_defs := AList.update (cd_key d) d (cc_defs s)\<rparr>"

definition getDefinition :: "string \<Rightarrow> 'd config_center \<Rightarrow> 'd config_def option" where
  "getDefinition key s = map_of (cc_defs s) key"

definition listDefinitions :: "string option \<Rightarrow> string option \<Rightarrow> 'd config_center \<Rightarrow> 'd config_def list" where
  "listDefinitions category pluginId s =
     filter (\<lambda>d. \<not> (category \<noteq> None \<and> category \<noteq> Some [] \<and> cd_category d \<noteq> category) \<and>
        \<not> (pluginId \<noteq> None \<and> cd_plugin d \<noteq> pluginId))
       (map snd (cc_defs s))"

subsection \<open>Reading\<close>

text \<open>What a row means to \<open>get\<close>.\<close>

definition row_value :: "'d codec \<Rightarrow> 'd cvalue option \<Rightarrow> config_row \<Rightarrow> 'd cvalue option" where
  "row_value cx dflt row =
     (if rw_secret row
      then (case cx_decrypt cx (rw_value row) of Some plain \<Rightarrow> Some (Text plain) | None \<Rightarrow> dflt)
      else (case cx_parse cx (rw_value row) of Some v \<Rightarrow> Some v | None \<Rightarrow> Some (Text (rw_value row))))"

definition row_answer ::
  "'d codec \<Rightarrow> string \<Rightarrow> 'd cvalue option \<Rightarrow> config_row option \<Rightarrow> 'd config_center \<Rightarrow> 'd cvalue option"
where
  "row_answer cx key dflt row s =
     (case row of
        None \<Rightarrow> (case map_of (cc_defs s) key of
            None \<Rightarrow> dflt
          | Some d \<Rightarrow> if cd_default d \<noteq> None then cd_default d else dflt)
      | Some r \<Rightarrow> row_value cx dflt r)"

text \<open>The start of \<open>get\<close>: an answer from the cache, or a read under way.\<close>

definition get_start ::
  "string \<Rightarrow> 'd cvalue option \<Rightarrow> 'd config_center \<Rightarrow> 'd cvalue option \<times> 'd config_center"
where
  "get_start key dflt s =
     (case map_of (cc_cache s) key of
        Some (v, False) \<Rightarrow> (Some v, s)
      | _ \<Rightarrow> (None, s\<lparr>cc_gets := cc_gets s @
          [\<lparr>go_key = key, go_default = dflt, go_epoch = cc_epoch s, go_row = None\<rparr>]\<rparr>))"

definition get_read :: "'d get_op \<Rightarrow> 'd config_center \<Rightarrow> 'd config_center" where
  "get_read g s = s\<lparr>cc_gets := remove1 g (cc_gets s) @ [g\<lparr>go_row := Some (map_of (cc_rows s) (go_key g))\<rparr>]\<rparr>"

text \<open>The rest of \<open>get\<close>, with the row it read: its answer and what it publishes.\<close>

definition get_publish ::
  "'d codec \<Rightarrow> 'd get_op \<Rightarrow> config_row option \<Rightarrow> 'd config_center \<Rightarrow> 'd config_center"
where
  "get_publish cx g row s =
     (case row of
        None \<Rightarrow> s
      | Some r \<Rightarrow>
          if rw_secret r \<or> go_epoch g \<noteq> cc_epoch s then s
          else (case row_value cx None r of
              None \<Rightarrow> s
            | Some v \<Rightarrow> s\<lparr>cc_cache := AList.update (go_key g) (v, False) (cc_cache s)\<rparr>))"

definition get_finish ::
  "'d codec \<Rightarrow> 'd get_op \<Rightarrow> config_row option \<Rightarrow> 'd config_center \<Rightarrow> 'd cvalue option \<times> 'd config_center"
where
  "get_finish cx g row s =
     (row_answer cx (go_key g) (go_default g) row s,
      get_publish cx g row (s\<lparr>cc_gets := remove1 g (cc_gets s)\<rparr>))"

text \<open>A \<open>get\<close> nothing interleaves with, and \<open>getSecret\<close>.\<close>

definition get_now ::
  "'d codec \<Rightarrow> string \<Rightarrow> 'd cvalue option \<Rightarrow> 'd config_center \<Rightarrow> 'd cvalue option"
where
  "get_now cx key dflt s =
     (case map_of (cc_cache s) key of
        Some (v, False) \<Rightarrow> Some v
      | _ \<Rightarrow> row_answer cx key dflt (map_of (cc_rows s) key) s)"

definition getSecret :: "'d codec \<Rightarrow> string \<Rightarrow> 'd config_center \<Rightarrow> string option" where
  "getSecret cx key s =
     (case map_of (cc_rows s) key of
        None \<Rightarrow> None
      | Some r \<Rightarrow> if \<not> rw_secret r then Some (rw_value r) else cx_decrypt cx (rw_value r))"

subsection \<open>Writing\<close>

text \<open>\<open>a ?? b\<close>.\<close>

definition coalesce :: "'a option \<Rightarrow> 'a option \<Rightarrow> 'a option" where
  "coalesce a b = (if a \<noteq> None then a else b)"

definition storedValue :: "'d codec \<Rightarrow> int \<Rightarrow> bool \<Rightarrow> 'd cvalue \<Rightarrow> string" where
  "storedValue cx iv isSecret value =
     (if isSecret then cx_encrypt cx iv (cx_text cx value)
      else (case value of
          Text t \<Rightarrow> if cx_parse cx t \<noteq> None then cx_stringify cx value else t
        | Data d \<Rightarrow> cx_stringify cx value))"

definition set_row ::
  "'d codec \<Rightarrow> int \<Rightarrow> string \<Rightarrow> 'd cvalue \<Rightarrow> set_opts \<Rightarrow> 'd config_center \<Rightarrow> config_row"
where
  "set_row cx iv key value opts s =
     (let def = map_of (cc_defs s) key;
          isSecret = the (coalesce (coalesce (so_secret opts) (Option.bind def cd_secret)) (Some False))
      in \<lparr>rw_plugin = coalesce (so_plugin opts) (Option.bind def cd_plugin),
          rw_value = storedValue cx iv isSecret value,
          rw_secret = isSecret,
          rw_category = the (coalesce (coalesce (so_category opts) (Option.bind def cd_category)) (Some ''general'')),
          rw_tags = the (coalesce (coalesce (so_tags opts) (Option.bind def cd_tags)) (Some [])),
          rw_description = coalesce (so_description opts) (Option.bind def cd_description),
          rw_user = so_user opts\<rparr>)"

definition plugin_prefix :: "string \<Rightarrow> string" where
  "plugin_prefix pluginId = ''plugin:'' @ pluginId @ '':''"

definition set_start ::
  "'d codec \<Rightarrow> int \<Rightarrow> string \<Rightarrow> 'd cvalue \<Rightarrow> set_opts \<Rightarrow> 'd config_center \<Rightarrow> 'd config_center"
where
  "set_start cx iv key value opts s =
     s\<lparr>cc_issued := cc_issued s @ [WSet key value (set_row cx iv key value opts s)]\<rparr>"

definition delete_start :: "string \<Rightarrow> 'd config_center \<Rightarrow> 'd config_center" where
  "delete_start key s = s\<lparr>cc_cache := AList.delete key (cc_cache s), cc_issued := cc_issued s @ [WDelete key]\<rparr>"

definition evict_prefix :: "string \<Rightarrow> 'd config_center \<Rightarrow> 'd config_center" where
  "evict_prefix prefix s = s\<lparr>cc_cache := filter (\<lambda>(k, v). \<not> starts_with k prefix) (cc_cache s)\<rparr>"

definition purge_start :: "string \<Rightarrow> 'd config_center \<Rightarrow> 'd config_center" where
  "purge_start pluginId s =
     (evict_prefix (plugin_prefix pluginId) s)\<lparr>cc_issued := cc_issued s @ [WPurge pluginId]\<rparr>"

text \<open>What the database does: an upsert, a delete by key, a delete by plugin or key prefix.\<close>

definition purged :: "string \<Rightarrow> string \<times> config_row \<Rightarrow> bool" where
  "purged pluginId e \<longleftrightarrow> rw_plugin (snd e) = Some pluginId \<or> starts_with (fst e) (plugin_prefix pluginId)"

fun db_write :: "'d config_write \<Rightarrow> (string \<times> config_row) list \<Rightarrow> (string \<times> config_row) list" where
  "db_write (WSet key value row) rows = AList.update key row rows"
| "db_write (WDelete key) rows = AList.delete key rows"
| "db_write (WPurge pluginId) rows = filter (\<lambda>e. \<not> purged pluginId e) rows"

definition commit_write :: "'d config_write \<Rightarrow> 'd config_center \<Rightarrow> 'd config_center" where
  "commit_write w s =
     s\<lparr>cc_rows := db_write w (cc_rows s), cc_issued := remove1 w (cc_issued s),
       cc_committed := cc_committed s @ [w]\<rparr>"

text \<open>The rest of a write: the epoch, the cache, and for \<open>set\<close> the watchers it calls.\<close>

fun finish_cache :: "'d config_write \<Rightarrow> 'd config_center \<Rightarrow> 'd config_center" where
  "finish_cache (WSet key value row) s =
     (if \<not> rw_secret row then s\<lparr>cc_cache := AList.update key (value, False) (cc_cache s)\<rparr>
      else s\<lparr>cc_cache := AList.delete key (cc_cache s)\<rparr>)"
| "finish_cache (WDelete key) s = s\<lparr>cc_cache := AList.delete key (cc_cache s)\<rparr>"
| "finish_cache (WPurge pluginId) s = evict_prefix (plugin_prefix pluginId) s"

definition finish_write :: "'d config_write \<Rightarrow> 'd config_center \<Rightarrow> 'd config_center" where
  "finish_write w s = finish_cache w (s\<lparr>cc_epoch := cc_epoch s + 1, cc_committed := tl (cc_committed s)\<rparr>)"

fun called_watchers :: "'d config_write \<Rightarrow> 'd config_center \<Rightarrow> (int \<times> 'd cvalue) list" where
  "called_watchers (WSet key value row) s =
     map (\<lambda>cb. (cb, value)) (case map_of (cc_watchers s) key of None \<Rightarrow> [] | Some cbs \<Rightarrow> cbs)"
| "called_watchers _ s = []"

definition purge_count :: "string \<Rightarrow> 'd config_center \<Rightarrow> nat" where
  "purge_count pluginId s = length (filter (purged pluginId) (cc_rows s))"

subsection \<open>Watchers and scoped access\<close>

definition watch :: "string \<Rightarrow> int \<Rightarrow> 'd config_center \<Rightarrow> 'd config_center" where
  "watch key cb s =
     (let cbs = (case map_of (cc_watchers s) key of None \<Rightarrow> [] | Some cbs \<Rightarrow> cbs) in
      s\<lparr>cc_watchers := AList.update key (if cb \<in> set cbs then cbs else cbs @ [cb]) (cc_watchers s)\<rparr>)"

definition unwatch :: "string \<Rightarrow> int \<Rightarrow> 'd config_center \<Rightarrow> 'd config_center" where
  "unwatch key cb s =
     (case map_of (cc_watchers s) key of
        None \<Rightarrow> s
      | Some cbs \<Rightarrow>
          let cbs' = removeAll cb cbs in
          s\<lparr>cc_watchers := (if cbs' = [] then AList.delete key (cc_watchers s)
            else AList.update key cbs' (cc_watchers s))\<rparr>)"

definition scoped_opts :: "string \<Rightarrow> set_opts \<Rightarrow> set_opts" where
  "scoped_opts pluginId opts = opts\<lparr>so_plugin := Some pluginId, so_category := Some (''plugin:'' @ pluginId)\<rparr>"

definition scoped_set ::
  "'d codec \<Rightarrow> int \<Rightarrow> string \<Rightarrow> string \<Rightarrow> 'd cvalue \<Rightarrow> set_opts \<Rightarrow> 'd config_center \<Rightarrow> 'd config_center"
where
  "scoped_set cx iv pluginId key value opts =
     set_start cx iv (plugin_prefix pluginId @ key) value (scoped_opts pluginId opts)"

definition scoped_get ::
  "'d codec \<Rightarrow> string \<Rightarrow> string \<Rightarrow> 'd cvalue option \<Rightarrow> 'd config_center \<Rightarrow> 'd cvalue option"
where
  "scoped_get cx pluginId key = get_now cx (plugin_prefix pluginId @ key)"

subsection \<open>Interleavings\<close>

text \<open>
  A row is \<open>owned\<close> when the plugin it names is also in its key, as every row of a scoped store
  is. With \<open>scoped\<close> the relation admits only writes of such rows.
\<close>

definition owned :: "string \<Rightarrow> config_row \<Rightarrow> bool" where
  "owned key row \<longleftrightarrow> (case rw_plugin row of None \<Rightarrow> True | Some p \<Rightarrow> starts_with key (plugin_prefix p))"

inductive config_step :: "'d codec \<Rightarrow> bool \<Rightarrow> 'd config_center \<Rightarrow> 'd config_center \<Rightarrow> bool" for cx scoped where
  define_key: "config_step cx scoped s (registerDefinition d s)"
| watch_key: "config_step cx scoped s (watch key cb s)"
| unwatch_key: "config_step cx scoped s (unwatch key cb s)"
| get_start: "config_step cx scoped s (snd (get_start key dflt s))"
| get_read: "g \<in> set (cc_gets s) \<Longrightarrow> go_row g = None \<Longrightarrow> config_step cx scoped s (get_read g s)"
| get_finish: "g \<in> set (cc_gets s) \<Longrightarrow> go_row g = Some row \<Longrightarrow>
    config_step cx scoped s (snd (get_finish cx g row s))"
| set_start: "(scoped \<longrightarrow> owned key (set_row cx iv key value opts s)) \<Longrightarrow>
    config_step cx scoped s (set_start cx iv key value opts s)"
| delete_start: "config_step cx scoped s (delete_start key s)"
| purge_start: "config_step cx scoped s (purge_start pluginId s)"
| commit: "w \<in> set (cc_issued s) \<Longrightarrow> config_step cx scoped s (commit_write w s)"
| finish: "cc_committed s = w # ws \<Longrightarrow> config_step cx scoped s (finish_write w s)"

text \<open>The keys a write decides, and what the last committed one leaves in the table.\<close>

fun touches :: "string \<Rightarrow> 'd config_write \<Rightarrow> bool" where
  "touches k (WSet key value row) = (k = key)"
| "touches k (WDelete key) = (k = key)"
| "touches k (WPurge pluginId) = starts_with k (plugin_prefix pluginId)"

fun leaves :: "'d config_write \<Rightarrow> config_row option" where
  "leaves (WSet key value row) = Some row"
| "leaves (WDelete key) = None"
| "leaves (WPurge pluginId) = None"

definition settled :: "string \<Rightarrow> 'd config_center \<Rightarrow> bool" where
  "settled k s \<longleftrightarrow> list_all (\<lambda>w. \<not> touches k w) (cc_committed s)"

definition good_write :: "'d codec \<Rightarrow> 'd config_write \<Rightarrow> bool" where
  "good_write cx w \<longleftrightarrow> (case w of
      WSet key value row \<Rightarrow> owned key row \<and> (rw_secret row \<or> row_value cx None row = Some value)
    | _ \<Rightarrow> True)"

definition cache_entry_ok :: "'d codec \<Rightarrow> config_row option \<Rightarrow> 'd cvalue \<times> bool \<Rightarrow> bool" where
  "cache_entry_ok cx row e \<longleftrightarrow> (case row of
      None \<Rightarrow> False | Some r \<Rightarrow> \<not> rw_secret r \<and> row_value cx None r = Some (fst e))"

definition config_ok :: "'d codec \<Rightarrow> 'd config_center \<Rightarrow> bool" where
  "config_ok cx s \<longleftrightarrow>
     map_ok (cc_rows s) \<and>
     (\<forall>k row. map_of (cc_rows s) k = Some row \<longrightarrow> owned k row) \<and>
     (\<forall>w \<in> set (cc_issued s) \<union> set (cc_committed s). good_write cx w) \<and>
     (\<forall>k w. List.find (touches k) (rev (cc_committed s)) = Some w \<longrightarrow> map_of (cc_rows s) k = leaves w) \<and>
     (\<forall>k e. map_of (cc_cache s) k = Some e \<longrightarrow> \<not> snd e \<and>
        (settled k s \<longrightarrow> cache_entry_ok cx (map_of (cc_rows s) k) e)) \<and>
     (\<forall>g \<in> set (cc_gets s). go_epoch g \<le> cc_epoch s \<and>
        (\<forall>row. go_row g = Some row \<and> go_epoch g = cc_epoch s \<and> settled (go_key g) s \<longrightarrow>
           row = map_of (cc_rows s) (go_key g)))"

lemma config_okI:
  assumes "map_ok (cc_rows s)"
    and "\<And>k row. map_of (cc_rows s) k = Some row \<Longrightarrow> owned k row"
    and "\<And>w. w \<in> set (cc_issued s) \<union> set (cc_committed s) \<Longrightarrow> good_write cx w"
    and "\<And>k w. List.find (touches k) (rev (cc_committed s)) = Some w \<Longrightarrow> map_of (cc_rows s) k = leaves w"
    and "\<And>k e. map_of (cc_cache s) k = Some e \<Longrightarrow> \<not> snd e"
    and "\<And>k e. map_of (cc_cache s) k = Some e \<Longrightarrow> settled k s \<Longrightarrow> cache_entry_ok cx (map_of (cc_rows s) k) e"
    and "\<And>g. g \<in> set (cc_gets s) \<Longrightarrow> go_epoch g \<le> cc_epoch s"
    and "\<And>g row. g \<in> set (cc_gets s) \<Longrightarrow> go_row g = Some row \<Longrightarrow> go_epoch g = cc_epoch s \<Longrightarrow>
      settled (go_key g) s \<Longrightarrow> row = map_of (cc_rows s) (go_key g)"
  shows "config_ok cx s"
  using assms unfolding config_ok_def by blast

lemma config_okD:
  assumes "config_ok cx s"
  shows "map_ok (cc_rows s)"
    and "map_of (cc_rows s) k = Some row \<Longrightarrow> owned k row"
    and "w \<in> set (cc_issued s) \<union> set (cc_committed s) \<Longrightarrow> good_write cx w"
    and "List.find (touches k) (rev (cc_committed s)) = Some w \<Longrightarrow> map_of (cc_rows s) k = leaves w"
    and "map_of (cc_cache s) k = Some e \<Longrightarrow> \<not> snd e"
    and "map_of (cc_cache s) k = Some e \<Longrightarrow> settled k s \<Longrightarrow> cache_entry_ok cx (map_of (cc_rows s) k) e"
    and "g \<in> set (cc_gets s) \<Longrightarrow> go_epoch g \<le> cc_epoch s"
    and "g \<in> set (cc_gets s) \<Longrightarrow> go_row g = Some row' \<Longrightarrow> go_epoch g = cc_epoch s \<Longrightarrow>
      settled (go_key g) s \<Longrightarrow> row' = map_of (cc_rows s) (go_key g)"
  using assms unfolding config_ok_def by blast+

text \<open>Operations that leave the table and the queues alone and only drop cache entries.\<close>

lemma config_ok_shrink:
  assumes ok: "config_ok cx s"
    and same: "cc_rows t = cc_rows s" "cc_committed t = cc_committed s" "cc_epoch t = cc_epoch s"
    and issued: "\<And>w. w \<in> set (cc_issued t) \<Longrightarrow> w \<in> set (cc_issued s) \<or> good_write cx w"
    and cache: "\<And>k e. map_of (cc_cache t) k = Some e \<Longrightarrow> map_of (cc_cache s) k = Some e"
    and gets: "\<And>g. g \<in> set (cc_gets t) \<Longrightarrow> g \<in> set (cc_gets s) \<or> go_epoch g = cc_epoch s \<and> (\<forall>row. go_row g = Some row \<longrightarrow> row = map_of (cc_rows s) (go_key g))"
  shows "config_ok cx t"
proof (rule config_okI)
  show "map_ok (cc_rows t)" using config_okD(1) [OF ok] same by simp
  show "owned k row" if "map_of (cc_rows t) k = Some row" for k row
    using that config_okD(2) [OF ok] same by simp
  show "good_write cx w" if "w \<in> set (cc_issued t) \<union> set (cc_committed t)" for w
    using that issued config_okD(3) [OF ok] same by auto
  show "map_of (cc_rows t) k = leaves w" if "List.find (touches k) (rev (cc_committed t)) = Some w" for k w
    using that config_okD(4) [OF ok] same by simp
  show "\<not> snd e" if "map_of (cc_cache t) k = Some e" for k e
    by (rule config_okD(5) [OF ok cache [OF that]])
  show "cache_entry_ok cx (map_of (cc_rows t) k) e" if "map_of (cc_cache t) k = Some e" "settled k t" for k e
    using config_okD(6) [OF ok cache [OF that(1)]] that(2) same by (simp add: settled_def)
  show "go_epoch g \<le> cc_epoch t" if "g \<in> set (cc_gets t)" for g
    using gets [OF that] config_okD(7) [OF ok, of g] same by auto
  show "row = map_of (cc_rows t) (go_key g)"
    if "g \<in> set (cc_gets t)" "go_row g = Some row" "go_epoch g = cc_epoch t" "settled (go_key g) t" for g row
    using gets [OF that(1)] config_okD(8) [OF ok, of g row] that same by (auto simp: settled_def)
qed

lemma map_of_filter_keys: "map_of (filter (\<lambda>(k, v). P k) m) k = Some e \<Longrightarrow> map_of m k = Some e"
  by (simp add: map_of_filter_key split: if_splits)

lemma get_finish_ok:
  assumes ok: "config_ok cx s" and g: "g \<in> set (cc_gets s)" "go_row g = Some row"
  shows "config_ok cx (snd (get_finish cx g row s))"
proof -
  let ?s = "s\<lparr>cc_gets := remove1 g (cc_gets s)\<rparr>"
  have ok': "config_ok cx ?s"
    by (rule config_ok_shrink [OF ok]) (auto dest: set_remove1_subset [THEN subsetD])
  show ?thesis
  proof (cases "\<exists>r v. row = Some r \<and> \<not> rw_secret r \<and> go_epoch g = cc_epoch s \<and> row_value cx None r = Some v")
    case False
    then have "get_publish cx g row ?s = ?s"
      by (auto simp: get_publish_def split: option.split)
    then show ?thesis using ok' by (simp add: get_finish_def)
  next
    case True
    then obtain r v where r: "row = Some r" "\<not> rw_secret r" "go_epoch g = cc_epoch s" "row_value cx None r = Some v"
      by blast
    let ?t = "?s\<lparr>cc_cache := AList.update (go_key g) (v, False) (cc_cache s)\<rparr>"
    have pub: "get_publish cx g row ?s = ?t" using r by (simp add: get_publish_def)
    have now: "row = map_of (cc_rows s) (go_key g)" if "settled (go_key g) s"
      using config_okD(8) [OF ok g r(3) that] .
    have "config_ok cx ?t"
    proof (rule config_okI)
      show "\<not> snd e" if "map_of (cc_cache ?t) k = Some e" for k e
        using that config_okD(5) [OF ok'] by (auto split: if_splits)
      show "cache_entry_ok cx (map_of (cc_rows ?t) k) e" if "map_of (cc_cache ?t) k = Some e" "settled k ?t" for k e
      proof (cases "k = go_key g")
        case True
        then have "map_of (cc_rows s) (go_key g) = Some r" using that(2) now r(1) by (simp add: settled_def)
        moreover have "e = (v, False)" using that(1) True by simp
        ultimately show ?thesis using True r by (simp add: cache_entry_ok_def)
      next
        case False
        then show ?thesis using that config_okD(6) [OF ok', of k e] by (simp add: settled_def)
      qed
    qed (use config_okD [OF ok'] in \<open>simp_all add: settled_def\<close>)
    then show ?thesis by (simp add: get_finish_def pub)
  qed
qed

lemma find_append_Some: "List.find P (xs @ ys) = (if List.find P xs \<noteq> None then List.find P xs else List.find P ys)"
  by (simp add: find_append split: option.split)

lemma db_write_touched: "touches k w \<Longrightarrow> map_ok rows \<Longrightarrow> map_of (db_write w rows) k = leaves w"
  by (cases w) (auto simp: purged_def map_of_eq_None_iff)

lemma db_write_other:
  assumes "\<not> touches k w" and "map_ok rows" and "\<And>row. map_of rows k = Some row \<Longrightarrow> owned k row"
  shows "map_of (db_write w rows) k = map_of rows k"
proof (cases w)
  case (WPurge p)
  have "map_of (filter (\<lambda>(k, v). \<not> purged p (k, v)) rows) k = map_of rows k"
    using assms by (auto simp: map_of_filter_entry WPurge purged_def owned_def split: option.split)
  then show ?thesis by (simp add: WPurge case_prod_unfold)
qed (use assms in auto)

lemma db_write_map_ok: "map_ok rows \<Longrightarrow> map_ok (db_write w rows)"
  by (cases w) auto

lemma commit_ok:
  assumes ok: "config_ok cx s" and w: "w \<in> set (cc_issued s)"
  shows "config_ok cx (commit_write w s)"
proof -
  let ?t = "commit_write w s"
  note rows_ok = config_okD(1) [OF ok]
  have good: "good_write cx w" using config_okD(3) [OF ok] w by simp
  have same: "map_of (cc_rows ?t) k = map_of (cc_rows s) k \<and> settled k s" if "settled k ?t" for k
    using that db_write_other [of k w, OF _ rows_ok config_okD(2) [OF ok]] by (simp add: commit_write_def settled_def)
  show ?thesis
  proof (rule config_okI)
    show "map_ok (cc_rows ?t)" by (simp add: commit_write_def db_write_map_ok rows_ok)
    show "owned k row" if row: "map_of (cc_rows ?t) k = Some row" for k row
    proof (cases "touches k w")
      case True
      then have "leaves w = Some row" using row db_write_touched [OF True rows_ok] by (simp add: commit_write_def)
      then show ?thesis using good True by (cases w) (auto simp: good_write_def)
    next
      case False
      then show ?thesis using row db_write_other [OF False rows_ok] config_okD(2) [OF ok, of k] by (simp add: commit_write_def)
    qed
    show "good_write cx v" if "v \<in> set (cc_issued ?t) \<union> set (cc_committed ?t)" for v
      using that good config_okD(3) [OF ok, of v] by (auto simp: commit_write_def dest: set_remove1_subset [THEN subsetD])
    show "map_of (cc_rows ?t) k = leaves v" if f: "List.find (touches k) (rev (cc_committed ?t)) = Some v" for k v
    proof (cases "touches k w")
      case True
      then show ?thesis using f db_write_touched [OF True rows_ok] by (simp add: commit_write_def)
    next
      case False
      then show ?thesis using f db_write_other [OF False rows_ok config_okD(2) [OF ok]] config_okD(4) [OF ok, of k v]
        by (simp add: commit_write_def)
    qed
    show "\<not> snd e" if "map_of (cc_cache ?t) k = Some e" for k e
      using that config_okD(5) [OF ok] by (simp add: commit_write_def)
    show "cache_entry_ok cx (map_of (cc_rows ?t) k) e" if "map_of (cc_cache ?t) k = Some e" "settled k ?t" for k e
      using same [OF that(2)] that(1) config_okD(6) [OF ok, of k e] by (simp add: commit_write_def)
    show "go_epoch g \<le> cc_epoch ?t" if "g \<in> set (cc_gets ?t)" for g
      using that config_okD(7) [OF ok] by (simp add: commit_write_def)
    show "row = map_of (cc_rows ?t) (go_key g)"
      if "g \<in> set (cc_gets ?t)" "go_row g = Some row" "go_epoch g = cc_epoch ?t" "settled (go_key g) ?t" for g row
      using same [OF that(4)] that(1-3) config_okD(8) [OF ok, of g row] by (simp add: commit_write_def)
  qed
qed

lemma finish_cache_same [simp]:
  "cc_rows (finish_cache w s) = cc_rows s" "cc_committed (finish_cache w s) = cc_committed s"
  "cc_epoch (finish_cache w s) = cc_epoch s" "cc_gets (finish_cache w s) = cc_gets s"
  "cc_issued (finish_cache w s) = cc_issued s" "cc_defs (finish_cache w s) = cc_defs s"
  by (cases w; simp add: evict_prefix_def)+

text \<open>What finishing a write leaves in the cache.\<close>

definition cached_by :: "'d config_write \<Rightarrow> ('d cvalue \<times> bool) option" where
  "cached_by w = (case w of WSet key value row \<Rightarrow> if rw_secret row then None else Some (value, False) | _ \<Rightarrow> None)"

lemma finish_cache_cache:
  "map_of (cc_cache (finish_cache w s)) k =
     (if touches k w then cached_by w else map_of (cc_cache s) k)"
  by (cases w) (simp_all add: cached_by_def evict_prefix_def map_of_filter_key)

lemma finish_ok:
  assumes ok: "config_ok cx s" and q: "cc_committed s = w # ws"
  shows "config_ok cx (finish_write w s)"
proof -
  let ?t = "finish_write w s"
  have t: "cc_rows ?t = cc_rows s" "cc_committed ?t = ws" "cc_epoch ?t = cc_epoch s + 1"
    "cc_gets ?t = cc_gets s" "cc_issued ?t = cc_issued s"
    by (simp_all add: finish_write_def q)
  have cache: "map_of (cc_cache ?t) k = (if touches k w then cached_by w else map_of (cc_cache s) k)" for k
    by (simp add: finish_write_def finish_cache_cache)
  have good: "good_write cx w" using config_okD(3) [OF ok, of w] q by simp
  have head: "map_of (cc_rows s) k = leaves w" if "settled k ?t" "touches k w" for k
  proof (rule config_okD(4) [OF ok])
    have "List.find (touches k) (rev ws) = None"
      using that(1) by (auto simp: settled_def t find_None_filter list_all_iff filter_empty_conv)
    then show "List.find (touches k) (rev (cc_committed s)) = Some w"
      using that(2) by (simp add: q find_append_Some)
  qed
  show ?thesis
  proof (rule config_okI)
    show "map_ok (cc_rows ?t)" using config_okD(1) [OF ok] by (simp add: t)
    show "owned k row" if "map_of (cc_rows ?t) k = Some row" for k row
      using that config_okD(2) [OF ok] by (simp add: t)
    show "good_write cx v" if "v \<in> set (cc_issued ?t) \<union> set (cc_committed ?t)" for v
      using that config_okD(3) [OF ok, of v] by (auto simp: t q)
    show "map_of (cc_rows ?t) k = leaves v" if "List.find (touches k) (rev (cc_committed ?t)) = Some v" for k v
      using that config_okD(4) [OF ok, of k v] by (simp add: t q find_append_Some)
    show "\<not> snd e" if "map_of (cc_cache ?t) k = Some e" for k e
      using that config_okD(5) [OF ok, of k e] by (auto simp: cache cached_by_def split: if_splits config_write.splits)
    show "cache_entry_ok cx (map_of (cc_rows ?t) k) e" if e: "map_of (cc_cache ?t) k = Some e" and quiet: "settled k ?t" for k e
    proof (cases "touches k w")
      case True
      then show ?thesis using e head [OF quiet True] good
        by (auto simp: cache t cached_by_def good_write_def cache_entry_ok_def split: if_splits config_write.splits)
    next
      case False
      then have "settled k s" using quiet by (simp add: settled_def t q)
      then show ?thesis using e False config_okD(6) [OF ok, of k e] by (simp add: cache t)
    qed
    show "go_epoch g \<le> cc_epoch ?t" if "g \<in> set (cc_gets ?t)" for g
      using that config_okD(7) [OF ok, of g] by (simp add: t)
    show "row = map_of (cc_rows ?t) (go_key g)"
      if "g \<in> set (cc_gets ?t)" "go_row g = Some row" "go_epoch g = cc_epoch ?t" "settled (go_key g) ?t" for g row
      using that config_okD(7) [OF ok, of g] by (simp add: t)
  qed
qed

text \<open>What the codec is assumed to do: JSON text of a value parses back to it, secrets decrypt.\<close>

definition codec_ok :: "'d codec \<Rightarrow> bool" where
  "codec_ok cx \<longleftrightarrow> (\<forall>v. cx_parse cx (cx_stringify cx v) = Some v) \<and>
     (\<forall>iv t. cx_decrypt cx (cx_encrypt cx iv t) = Some t)"

lemma set_row_value:
  "codec_ok cx \<Longrightarrow> row_value cx dflt (set_row cx iv key value opts s) =
     (if rw_secret (set_row cx iv key value opts s) then Some (Text (cx_text cx value)) else Some value)"
  by (cases "value") (auto simp: set_row_def Let_def row_value_def storedValue_def codec_ok_def split: option.split)

lemma set_start_ok:
  assumes "codec_ok cx" and "config_ok cx s" and "owned key (set_row cx iv key value opts s)"
  shows "config_ok cx (set_start cx iv key value opts s)"
  by (rule config_ok_shrink [OF assms(2)])
    (use assms(1,3) set_row_value [OF assms(1), of None iv key "value" opts s] in
      \<open>auto simp: set_start_def good_write_def\<close>)

lemma delete_start_ok: "config_ok cx s \<Longrightarrow> config_ok cx (delete_start key s)"
  by (erule config_ok_shrink) (auto simp: delete_start_def good_write_def split: if_splits)

lemma purge_start_ok: "config_ok cx s \<Longrightarrow> config_ok cx (purge_start p s)"
  by (erule config_ok_shrink) (auto simp: purge_start_def evict_prefix_def good_write_def dest: map_of_filter_keys)

lemma get_start_ok: "config_ok cx s \<Longrightarrow> config_ok cx (snd (get_start key dflt s))"
  by (erule config_ok_shrink) (auto simp: get_start_def split: option.splits prod.splits bool.splits)

lemma get_read_ok:
  assumes "config_ok cx s" and "g \<in> set (cc_gets s)" "go_row g = None"
  shows "config_ok cx (get_read g s)"
proof -
  let ?g = "g\<lparr>go_row := Some (map_of (cc_rows s) (go_key g))\<rparr>"
  let ?u = "s\<lparr>cc_gets := remove1 g (cc_gets s)\<rparr>"
  have u: "config_ok cx ?u"
    by (rule config_ok_shrink [OF assms(1)]) (auto dest: set_remove1_subset [THEN subsetD])
  have old: "go_epoch g \<le> cc_epoch s" by (rule config_okD(7) [OF assms(1,2)])
  show ?thesis
    by (rule config_okI; use config_okD [OF u] old in \<open>auto simp: get_read_def settled_def\<close>)
qed

lemma define_ok: "config_ok cx s \<Longrightarrow> config_ok cx (registerDefinition d s)"
  by (erule config_ok_shrink) (auto simp: registerDefinition_def)

lemma watch_ok: "config_ok cx s \<Longrightarrow> config_ok cx (watch key cb s)"
  by (erule config_ok_shrink) (auto simp: watch_def Let_def)

lemma unwatch_ok: "config_ok cx s \<Longrightarrow> config_ok cx (unwatch key cb s)"
  by (erule config_ok_shrink) (auto simp: unwatch_def Let_def split: option.splits)

lemmas config_preserved = define_ok watch_ok unwatch_ok get_start_ok get_read_ok get_finish_ok
  delete_start_ok purge_start_ok commit_ok finish_ok

lemma new_center_ok: "config_ok cx new_center"
  by (simp add: config_ok_def new_center_def)

interpretation config: guarded_system "\<lambda>s. s = new_center" "\<lambda>s t. codec_ok cx \<and> config_step cx True s t" "config_ok cx" for cx
proof
  fix s :: "'a config_center" assume "s = new_center"
  then show "config_ok cx s" by (simp add: new_center_ok)
next
  fix s t :: "'a config_center" assume st: "codec_ok cx \<and> config_step cx True s t" and ok: "config_ok cx s"
  from st have "config_step cx True s t" by simp
  then show "config_ok cx t"
    by cases (use st ok in \<open>auto intro: config_preserved set_start_ok\<close>)
qed

lemma reachable_ok:
  assumes "codec_ok cx" and "(config_step cx True)\<^sup>*\<^sup>* new_center s"
  shows "config_ok cx s"
  using assms config.reachable_inv [OF refl, of cx s] by simp

end
