(* ===== verification/EventBus.thy ===== *)
theory EventBus
  imports Prelude
begin

text \<open>
  The kernel event bus (\<open>apps/server/src/kernel/eventBus.ts\<close>). A listener is its identity; what
  its body does to the bus while it runs is a list of bus operations (\<open>body\<close>). What it throws is
  caught by the bus, so a delivery is recorded either way. A \<open>Set\<close> keeps insertion order.
\<close>

subsection \<open>State and operations\<close>

datatype event_origin = Kernel | Plugin string


type_synonym listener = int

record event_bus =
  eb_listeners :: "(string \<times> listener list) list"
  eb_accepts :: "listener set"

definition listeners_at :: "event_bus \<Rightarrow> string \<Rightarrow> listener list" where
  "listeners_at bus event = (case map_of (eb_listeners bus) event of None \<Rightarrow> [] | Some ls \<Rightarrow> ls)"

definition set_add :: "'a \<Rightarrow> 'a list \<Rightarrow> 'a list" where
  "set_add x xs = (if x \<in> set xs then xs else xs @ [x])"

definition onCustom :: "string \<Rightarrow> listener \<Rightarrow> bool \<Rightarrow> event_bus \<Rightarrow> event_bus" where
  "onCustom event l acceptPluginOrigin bus =
     bus\<lparr>eb_listeners := AList.update event (set_add l (listeners_at bus event))
           (eb_listeners bus),
         eb_accepts := (if acceptPluginOrigin then insert l (eb_accepts bus) else eb_accepts bus)\<rparr>"

text \<open>The disposer \<open>onCustom\<close> returns, and \<open>removeAllListeners\<close>.\<close>

definition unsubscribe :: "string \<Rightarrow> listener \<Rightarrow> event_bus \<Rightarrow> event_bus" where
  "unsubscribe event l bus =
     (case map_of (eb_listeners bus) event of
        None \<Rightarrow> bus
      | Some ls \<Rightarrow>
          let ls' = removeAll l ls in
          bus\<lparr>eb_listeners := (if ls' = [] then AList.delete event (eb_listeners bus)
            else AList.update event ls' (eb_listeners bus))\<rparr>)"

definition removeAllListeners :: "string option \<Rightarrow> event_bus \<Rightarrow> event_bus" where
  "removeAllListeners event bus =
     (case event of None \<Rightarrow> bus\<lparr>eb_listeners := []\<rparr>
      | Some e \<Rightarrow> if e = [] then bus\<lparr>eb_listeners := []\<rparr>
          else bus\<lparr>eb_listeners := AList.delete e (eb_listeners bus)\<rparr>)"

definition listenerCount :: "string \<Rightarrow> event_bus \<Rightarrow> nat" where
  "listenerCount event bus = length (listeners_at bus event)"

datatype bus_op = On string listener bool | Off string listener | Clear "string option"

fun apply_op :: "bus_op \<Rightarrow> event_bus \<Rightarrow> event_bus" where
  "apply_op (On e l a) bus = onCustom e l a bus"
| "apply_op (Off e l) bus = unsubscribe e l bus"
| "apply_op (Clear e) bus = removeAllListeners e bus"

definition run_body :: "(listener \<Rightarrow> bus_op list) \<Rightarrow> listener \<Rightarrow> event_bus \<Rightarrow> event_bus" where
  "run_body body l bus = fold apply_op (body l) bus"

text \<open>A listener of \<open>once\<close> unsubscribes itself before it runs the wrapped one.\<close>

definition once_body :: "string \<Rightarrow> listener \<Rightarrow> bus_op list \<Rightarrow> bus_op list" where
  "once_body event l ops = Off event l # ops"

subsection \<open>Emission\<close>

text \<open>
  A delivery: the listener, and the event and origin it is told of (none in the historical
  one-argument call). Each loop runs over a snapshot taken when it starts; whether a listener
  opted in is looked up at its turn.
\<close>

type_synonym delivery = "listener \<times> (string \<times> event_origin) option"


fun deliver_wild ::
  "(listener \<Rightarrow> bus_op list) \<Rightarrow> string \<Rightarrow> event_origin \<Rightarrow> listener list \<Rightarrow> event_bus \<Rightarrow>
     delivery list \<times> event_bus" where
  "deliver_wild body event origin [] bus = ([], bus)"
| "deliver_wild body event origin (l # ls) bus =
     (let (ds, bus') = deliver_wild body event origin ls (run_body body l bus)
      in ((l, Some (event, origin)) # ds, bus'))"


subsection \<open>Lemmas\<close>







lemma deliver_wild_all: "map fst (fst (deliver_wild body event origin ls bus)) = ls"
  by (induction ls arbitrary: bus) (auto simp: Let_def split: prod.split, metis fst_conv)


subsection \<open>Property\<close>



end
