(* ===== verification/HookPipeline.thy ===== *)
theory HookPipeline
  imports Prelude "HOL-Library.Sublist" "HOL-Library.Multiset"
begin

text \<open>
  The kernel hook pipeline (\<open>apps/server/src/kernel/hookPipeline.ts\<close>): priority-ordered handlers
  of one hook, the call with its veto, and rollback. A handler's identity is its \<open>hk_uid\<close>; what
  a handler answers (\<open>handle\<close>; throwing and timing out are \<open>Failed\<close>) and which entries are still
  registered once it returned (\<open>registered\<close>) are arguments.
\<close>

subsection \<open>Registration\<close>

record hook_entry =
  hk_uid :: int
  hk_priority :: int
  hk_timeout :: int
  hk_rollback :: bool

text \<open>
  \<open>Number(opts?.priority ?? 100)\<close>, with 100 for what is not a number; the options are given as
  numbers where they are numbers.
\<close>

datatype priority_option = Absent | Number int | NotANumber

definition hook_priority :: "priority_option \<Rightarrow> int" where
  "hook_priority p = (case p of Absent \<Rightarrow> 100 | Number n \<Rightarrow> n | NotANumber \<Rightarrow> 100)"

definition mk_entry :: "int \<Rightarrow> priority_option \<Rightarrow> int option \<Rightarrow> bool \<Rightarrow> hook_entry" where
  "mk_entry uid p timeout rb = \<lparr>hk_uid = uid, hk_priority = hook_priority p,
     hk_timeout = (case timeout of None \<Rightarrow> 5000 | Some t \<Rightarrow> t), hk_rollback = rb\<rparr>"

definition tap :: "hook_entry \<Rightarrow> hook_entry list \<Rightarrow> hook_entry list" where
  "tap entry list = sort_key (\<lambda>e. - hk_priority e) (list @ [entry])"

definition untap :: "hook_entry \<Rightarrow> hook_entry list \<Rightarrow> hook_entry list" where
  "untap entry list = remove1 entry list"

subsection \<open>The call\<close>

datatype 'p answer = Nothing | Payload 'p bool | Failed

datatype hook_event = Ran int | Threw int | RolledBack int

definition rollbacks :: "hook_entry list \<Rightarrow> hook_event list" where
  "rollbacks executed = map (\<lambda>e. RolledBack (hk_uid e)) (filter hk_rollback (rev executed))"

text \<open>
  \<open>Payload p v\<close> is an object answer; \<open>v\<close> says it vetoes (\<open>allowOrAbort === false\<close>). The result is
  the payload, what happened in order, and whether the chain was vetoed.
\<close>

fun call_loop ::
  "(int \<Rightarrow> 'p \<Rightarrow> 'p answer) \<Rightarrow> (int list \<Rightarrow> hook_entry \<Rightarrow> bool) \<Rightarrow> int list \<Rightarrow> hook_entry list \<Rightarrow>
     hook_entry list \<Rightarrow> 'p \<Rightarrow> 'p \<times> hook_event list \<times> bool" where
  "call_loop handle registered past [] executed payload = (payload, [], False)"
| "call_loop handle registered past (e # es) executed payload =
     (if \<not> registered past e then call_loop handle registered past es executed payload
      else
        let past' = past @ [hk_uid e] in
        case handle (hk_uid e) payload of
          Failed \<Rightarrow>
            (case call_loop handle registered past' es [] payload of
               (p, tr, v) \<Rightarrow> (p, Threw (hk_uid e) # rollbacks executed @ tr, v))
        | Nothing \<Rightarrow>
            (case call_loop handle registered past' es (executed @ [e]) payload of
               (p, tr, v) \<Rightarrow> (p, Ran (hk_uid e) # tr, v))
        | Payload q veto \<Rightarrow>
            if veto then (q, Ran (hk_uid e) # rollbacks (executed @ [e]), True)
            else (case call_loop handle registered past' es (executed @ [e]) q of
               (p, tr, v) \<Rightarrow> (p, Ran (hk_uid e) # tr, v)))"

definition call ::
  "(int \<Rightarrow> 'p \<Rightarrow> 'p answer) \<Rightarrow> (int list \<Rightarrow> hook_entry \<Rightarrow> bool) \<Rightarrow> hook_entry list \<Rightarrow> 'p \<Rightarrow>
     'p \<times> hook_event list \<times> bool" where
  "call handle registered list payload = call_loop handle registered [] list [] payload"

subsection \<open>Order\<close>

lemma sort_key_snoc: "sort_key f (sort_key f xs @ [x]) = sort_key f (xs @ [x])"
proof (rule properties_for_sort_key)
  show "filter (\<lambda>y. f k = f y) (sort_key f (xs @ [x])) = filter (\<lambda>y. f k = f y) (sort_key f xs @ [x])" for k
    using sort_key_stable [of f "f k" xs] sort_key_stable [of f "f k" "xs @ [x]"]
    by (simp add: eq_commute [of "f k"])
qed simp_all

lemma tap_all: "foldl (\<lambda>l e. tap e l) [] es = sort_key (\<lambda>e. - hk_priority e) es"
  by (induction es rule: rev_induct) (simp_all add: tap_def sort_key_snoc)

text \<open>The handlers of a trace, in the order they ran.\<close>

fun handler_of :: "hook_event \<Rightarrow> int option" where
  "handler_of (Ran u) = Some u"
| "handler_of (Threw u) = Some u"
| "handler_of (RolledBack u) = None"

definition handlers :: "hook_event list \<Rightarrow> int list" where
  "handlers tr = List.map_filter handler_of tr"

lemma handlers_simps [simp]:
  "handlers [] = []" "handlers (Ran u # tr) = u # handlers tr" "handlers (Threw u # tr) = u # handlers tr"
  "handlers (rollbacks es) = []" "handlers (rollbacks es @ tr) = handlers tr"
  by (simp_all add: handlers_def rollbacks_def List.map_filter_def filter_empty_conv)

subsection \<open>Rollback\<close>

definition rolled :: "hook_entry list \<Rightarrow> int set" where
  "rolled es = hk_uid ` {e \<in> set es. hk_rollback e}"

lemma rollbacks_mem: "x \<in> set (rollbacks es) \<longleftrightarrow> (\<exists>u \<in> rolled es. x = RolledBack u)"
  by (auto simp: rollbacks_def rolled_def)

lemma rollbacks_distinct: "distinct (map hk_uid es) \<Longrightarrow> distinct (rollbacks es)"
  by (auto simp: rollbacks_def distinct_map inj_on_def)

lemma handlers_mem: "Ran u \<in> set tr \<or> Threw u \<in> set tr \<Longrightarrow> u \<in> set (handlers tr)"
  by (force simp: handlers_def List.map_filter_def image_iff)

text \<open>What holds of the rest of a call, given the entries executed so far.\<close>

definition call_spec ::
  "hook_entry list \<Rightarrow> hook_entry list \<Rightarrow> hook_event list \<Rightarrow> bool \<Rightarrow> bool" where
  "call_spec executed es tr v \<longleftrightarrow>
     subseq (handlers tr) (map hk_uid es) \<and> distinct tr \<and>
     (\<forall>u. RolledBack u \<in> set tr \<longrightarrow> u \<in> rolled executed \<or> (u \<in> rolled es \<and> Ran u \<in> set tr)) \<and>
     (v \<longrightarrow> (\<forall>u \<in> rolled executed. RolledBack u \<in> set tr) \<and>
       (\<forall>u \<in> rolled es. Ran u \<in> set tr \<longrightarrow> RolledBack u \<in> set tr))"

lemma rolled_Cons [simp]: "rolled (e # es) = (if hk_rollback e then insert (hk_uid e) (rolled es) else rolled es)"
  by (auto simp: rolled_def)

lemma rolled_append [simp]: "rolled (es @ fs) = rolled es \<union> rolled fs"
  by (auto simp: rolled_def)

lemma rolled_Nil [simp]: "rolled [] = {}"
  by (simp add: rolled_def)

lemma rolled_uid: "u \<in> rolled es \<Longrightarrow> u \<in> hk_uid ` set es"
  by (auto simp: rolled_def)

lemma fresh_handler:
  assumes "subseq (handlers tr) (map hk_uid es)" and "u \<notin> hk_uid ` set es"
  shows "Ran u \<notin> set tr" "Threw u \<notin> set tr"
  using handlers_mem [of u tr] assms subseq_order.trans by (auto dest: list_emb_set)

lemma call_loop_spec:
  assumes "call_loop handle registered past es executed payload = (p, tr, v)"
    and "distinct (map hk_uid (executed @ es))"
  shows "call_spec executed es tr v"
  using assms
proof (induction es arbitrary: past executed payload p tr v)
  case Nil
  then show ?case by (simp add: call_spec_def)
next
  case (Cons e es)
  let ?u = "hk_uid e"
  have fresh: "?u \<notin> hk_uid ` set es" "?u \<notin> hk_uid ` set executed"
    and dist: "distinct (map hk_uid (executed @ es))" "distinct (map hk_uid ((executed @ [e]) @ es))"
      "distinct (map hk_uid ([] @ es))" "distinct (map hk_uid executed)" "distinct (map hk_uid (executed @ [e]))"
    using Cons.prems(2) by auto
  have disj: "\<And>u. u \<in> rolled executed \<Longrightarrow> u \<notin> rolled es" "?u \<notin> rolled es" "?u \<notin> rolled executed"
    using Cons.prems(2) fresh by (auto dest!: rolled_uid)
  show ?case
  proof (cases "registered past e")
    case False
    then have "call_spec executed es tr v" using Cons by simp
    then show ?thesis
      using fresh_handler [OF _ fresh(1)] by (auto simp: call_spec_def intro: list_emb_Cons)
  next
    case True
    show ?thesis
    proof (cases "handle ?u payload")
      case Failed
      then obtain tr' where rest: "call_loop handle registered (past @ [?u]) es [] payload = (p, tr', v)"
          and tr: "tr = Threw ?u # rollbacks executed @ tr'"
        using Cons.prems(1) True by (auto split: prod.splits)
      note IH = Cons.IH [OF rest dist(3)]
      have apart: "u \<notin> rolled executed" if "RolledBack u \<in> set tr'" for u
        using IH disj(1) [of u] that by (auto simp: call_spec_def)
      show ?thesis
        using IH disj(2,3) fresh_handler [OF _ fresh(1), of tr'] rollbacks_distinct [OF dist(4)]
        by (auto simp: call_spec_def tr rollbacks_mem dest: apart)
    next
      case Nothing
      then obtain tr' where rest: "call_loop handle registered (past @ [?u]) es (executed @ [e]) payload = (p, tr', v)"
          and tr: "tr = Ran ?u # tr'"
        using Cons.prems(1) True by (auto split: prod.splits)
      note IH = Cons.IH [OF rest dist(2)]
      show ?thesis
        using IH disj(2) fresh_handler [OF _ fresh(1), of tr'] by (auto simp: call_spec_def tr)
    next
      case (Payload q veto)
      show ?thesis
      proof (cases veto)
        case True
        then have "v" "tr = Ran ?u # rollbacks (executed @ [e])"
          using Cons.prems(1) \<open>registered past e\<close> Payload by auto
        then show ?thesis
          using rollbacks_distinct [OF dist(5)] disj by (auto simp: call_spec_def rollbacks_mem)
      next
        case False
        then obtain tr' where rest: "call_loop handle registered (past @ [?u]) es (executed @ [e]) q = (p, tr', v)"
            and tr: "tr = Ran ?u # tr'"
          using Cons.prems(1) \<open>registered past e\<close> Payload by (auto split: prod.splits)
        note IH = Cons.IH [OF rest dist(2)]
        show ?thesis
          using IH disj(2) fresh_handler [OF _ fresh(1), of tr'] by (auto simp: call_spec_def tr)
      qed
    qed
  qed
qed

subsection \<open>Property\<close>

text \<open>
  Handlers run in descending priority, those of one priority in the order they were
  tapped; each hook event of a call happens at most once, a handler is rolled back only if it
  ran successfully, and after a veto every handler that ran successfully and has a rollback has
  been rolled back - whichever handlers throw, answer or are unregistered on the way.
\<close>

theorem hook_call_discipline:
  assumes "list = foldl (\<lambda>l e. tap e l) [] es" and "distinct (map hk_uid es)"
    and "call handle registered list payload = (p, tr, vetoed)"
  shows "subseq (handlers tr) (map hk_uid (sort_key (\<lambda>e. - hk_priority e) es)) \<and> distinct tr \<and>
    (\<forall>u. RolledBack u \<in> set tr \<longrightarrow> Ran u \<in> set tr) \<and>
    (vetoed \<longrightarrow> (\<forall>e \<in> set es. hk_rollback e \<and> Ran (hk_uid e) \<in> set tr \<longrightarrow> RolledBack (hk_uid e) \<in> set tr))"
proof -
  have list: "list = sort_key (\<lambda>e. - hk_priority e) es" using assms(1) by (simp only: tap_all)
  then have "mset (map hk_uid list) = mset (map hk_uid es)" by simp
  then have "distinct (map hk_uid ([] @ list))"
    using assms(2) by (metis append_Nil mset_eq_imp_distinct_iff)
  from call_loop_spec [OF assms(3) [unfolded call_def] this] show ?thesis
    by (auto simp: call_spec_def list rolled_def)
qed

text \<open>Two handlers: the later one vetoes, and both are rolled back, the later one first.\<close>

definition audit_handler :: hook_entry where
  "audit_handler = mk_entry 1 (Number 10) None True"

definition gate_handler :: hook_entry where
  "gate_handler = mk_entry 2 Absent None True"

definition sample_handle :: "int \<Rightarrow> nat \<Rightarrow> nat answer" where
  "sample_handle u n = (if u = 1 then Payload (n + 1) True else Payload (n + 10) False)"

theorem hook_call_discipline_witness:
  "call sample_handle (\<lambda>_ _. True) (tap gate_handler (tap audit_handler [])) 0
     = (11, [Ran 2, Ran 1, RolledBack 1, RolledBack 2], True) \<and>
   RolledBack (hk_uid gate_handler) \<in> set [Ran 2, Ran 1, RolledBack 1, RolledBack 2]"
proof
  have list: "tap gate_handler (tap audit_handler []) = [gate_handler, audit_handler]"
    by (simp add: tap_def gate_handler_def audit_handler_def mk_entry_def hook_priority_def)
  show run: "call sample_handle (\<lambda>_ _. True) (tap gate_handler (tap audit_handler [])) 0
     = (11, [Ran 2, Ran 1, RolledBack 1, RolledBack 2], True)"
    unfolding list by (simp add: call_def sample_handle_def rollbacks_def gate_handler_def audit_handler_def mk_entry_def)
  have "distinct (map hk_uid [audit_handler, gate_handler])"
    by (simp add: gate_handler_def audit_handler_def mk_entry_def)
  from hook_call_discipline [OF _ this run]
  show "RolledBack (hk_uid gate_handler) \<in> set [Ran 2, Ran 1, RolledBack 1, RolledBack 2]"
    by (simp add: gate_handler_def audit_handler_def mk_entry_def)
qed

end
