(* ===== verification/Registries.thy ===== *)
theory Registries
  imports Prelude
begin

text \<open>
  The two kernel registries: services and typed drivers (\<open>kernel/serviceRegistry.ts\<close>) and menu
  items (\<open>kernel/menuRegistry.ts\<close>). A registered object is its identity; the name of a driver
  object is \<open>name_of\<close>. Both keep their entries in a map read through the \<open>keyed_store\<close> laws.
\<close>

subsection \<open>Services and typed drivers\<close>

type_synonym obj = int

datatype driver_kind = DomainProvider | BuildCache | Orchestrator | EgressIp

fun driver_prefix :: "driver_kind \<Rightarrow> string" where
  "driver_prefix DomainProvider = ''domain:''"
| "driver_prefix BuildCache = ''build-cache:''"
| "driver_prefix Orchestrator = ''orchestrator:''"
| "driver_prefix EgressIp = ''egress-ip:''"

fun driver_label :: "driver_kind \<Rightarrow> string" where
  "driver_label DomainProvider = ''Domain provider''"
| "driver_label BuildCache = ''Build cache''"
| "driver_label Orchestrator = ''Orchestrator''"
| "driver_label EgressIp = ''Egress IP driver''"

record registry =
  reg_services :: "(string \<times> obj) list"
  reg_index :: "driver_kind \<Rightarrow> obj list"

definition empty_registry :: registry where
  "empty_registry = \<lparr>reg_services = [], reg_index = (\<lambda>_. [])\<rparr>"

definition reg_register :: "string \<Rightarrow> obj \<Rightarrow> registry \<Rightarrow> string + registry" where
  "reg_register name service r =
     (if map_of (reg_services r) name \<noteq> None
      then Inl (''Service '' @ quoted name @ '' is already registered'')
      else Inr (r\<lparr>reg_services := AList.update name service (reg_services r)\<rparr>))"

definition reg_get :: "string \<Rightarrow> registry \<Rightarrow> string + obj" where
  "reg_get name r =
     (case map_of (reg_services r) name of
        None \<Rightarrow> Inl (''Service '' @ quoted name @ '' is not registered in the kernel registry'')
      | Some s \<Rightarrow> Inr s)"

definition reg_getOptional :: "string \<Rightarrow> registry \<Rightarrow> obj option" where
  "reg_getOptional name r = map_of (reg_services r) name"

definition reg_unregister :: "string \<Rightarrow> registry \<Rightarrow> bool \<times> registry" where
  "reg_unregister name r =
     (case map_of (reg_services r) name of
        None \<Rightarrow> (False, r)
      | Some service \<Rightarrow>
          (True, r\<lparr>reg_services := AList.delete name (reg_services r),
             reg_index := (\<lambda>k. if starts_with name (driver_prefix k)
               then remove1 service (reg_index r k) else reg_index r k)\<rparr>))"

definition reg_clear :: "registry \<Rightarrow> registry" where
  "reg_clear r = empty_registry"

definition registerDriver :: "(obj \<Rightarrow> string) \<Rightarrow> driver_kind \<Rightarrow> obj \<Rightarrow> registry \<Rightarrow> string + registry" where
  "registerDriver name_of k d r =
     (if list_ex (\<lambda>x. name_of x = name_of d) (reg_index r k)
      then Inl (driver_label k @ '' '' @ quoted (name_of d) @ '' is already registered'')
      else rbind (reg_register (driver_prefix k @ name_of d) d r) (\<lambda>r1.
        Inr (r1\<lparr>reg_index := (reg_index r1)(k := reg_index r1 k @ [d])\<rparr>)))"

definition getDriver :: "driver_kind \<Rightarrow> string \<Rightarrow> registry \<Rightarrow> obj option" where
  "getDriver k name r = reg_getOptional (driver_prefix k @ name) r"

definition listDrivers :: "driver_kind \<Rightarrow> registry \<Rightarrow> obj list" where
  "listDrivers k r = reg_index r k"

text \<open>Compute, proxy and storage drivers are plain services under a prefix; they have no index.\<close>

datatype plain_kind = Compute | Proxy | Storage

fun plain_prefix :: "plain_kind \<Rightarrow> string" where
  "plain_prefix Compute = ''compute:''"
| "plain_prefix Proxy = ''proxy:''"
| "plain_prefix Storage = ''storage:''"

definition registerPlain :: "(obj \<Rightarrow> string) \<Rightarrow> plain_kind \<Rightarrow> obj \<Rightarrow> registry \<Rightarrow> string + registry" where
  "registerPlain name_of k d r = reg_register (plain_prefix k @ name_of d) d r"

definition getPlain :: "plain_kind \<Rightarrow> string \<Rightarrow> registry \<Rightarrow> obj option" where
  "getPlain k name r = reg_getOptional (plain_prefix k @ name) r"

subsection \<open>Every listed driver resolves\<close>

definition registry_ok :: "(obj \<Rightarrow> string) \<Rightarrow> registry \<Rightarrow> bool" where
  "registry_ok name_of r \<longleftrightarrow>
     (\<forall>k. distinct (map name_of (reg_index r k)) \<and>
       (\<forall>d \<in> set (reg_index r k). getDriver k (name_of d) r = Some d))"

inductive registry_step :: "(obj \<Rightarrow> string) \<Rightarrow> registry \<Rightarrow> registry \<Rightarrow> bool" for name_of where
  register: "reg_register n s r = Inr r' \<Longrightarrow> registry_step name_of r r'"
| register_driver: "registerDriver name_of k d r = Inr r' \<Longrightarrow> registry_step name_of r r'"
| unregister: "registry_step name_of r (snd (reg_unregister n r))"
| clear: "registry_step name_of r (reg_clear r)"

lemma prefix_conflict: "driver_prefix k @ n = driver_prefix k' @ n' \<longleftrightarrow> k = k' \<and> n = n'"
  by (cases k; cases k') auto

lemma register_ok:
  assumes "registry_ok name_of r" and "reg_register n s r = Inr r'"
  shows "registry_ok name_of r'"
proof -
  have r': "r' = r\<lparr>reg_services := AList.update n s (reg_services r)\<rparr>" and free: "map_of (reg_services r) n = None"
    using assms(2) by (auto simp: reg_register_def split: if_splits)
  have "getDriver k (name_of d) r' = Some d" if "getDriver k (name_of d) r = Some d" for k d
    using that jsmap.put_fresh_preserves [OF free] by (simp add: r' getDriver_def reg_getOptional_def)
  then show ?thesis using assms(1) by (simp add: registry_ok_def r')
qed

lemma registerDriver_ok:
  assumes ok: "registry_ok name_of r" and reg: "registerDriver name_of k d r = Inr r'"
  shows "registry_ok name_of r'"
proof -
  obtain r1 where new: "\<not> list_ex (\<lambda>x. name_of x = name_of d) (reg_index r k)"
      and r1: "reg_register (driver_prefix k @ name_of d) d r = Inr r1"
      and r': "r' = r1\<lparr>reg_index := (reg_index r1)(k := reg_index r1 k @ [d])\<rparr>"
    using reg by (cases "reg_register (driver_prefix k @ name_of d) d r")
      (auto simp: registerDriver_def split: if_splits)
  have idx: "reg_index r1 = reg_index r" and svc: "map_of (reg_services r1) (driver_prefix k @ name_of d) = Some d"
    using r1 by (auto simp: reg_register_def split: if_splits)
  have "registry_ok name_of r1" by (rule register_ok [OF ok r1])
  then show ?thesis
    using new svc by (auto simp: registry_ok_def r' idx getDriver_def reg_getOptional_def list_ex_iff)
qed

lemma unregister_ok:
  assumes ok: "registry_ok name_of r"
  shows "registry_ok name_of (snd (reg_unregister n r))"
proof (cases "map_of (reg_services r) n")
  case (Some s)
  let ?r = "snd (reg_unregister n r)"
  have idx: "reg_index ?r k = (if starts_with n (driver_prefix k) then remove1 s (reg_index r k) else reg_index r k)" for k
    by (simp add: reg_unregister_def Some)
  have names: "distinct (map name_of (reg_index ?r k))" for k
  proof -
    have "distinct (map name_of (reg_index r k))" using ok by (simp add: registry_ok_def)
    then have "distinct (reg_index r k)" "inj_on name_of (set (reg_index r k))" by (simp_all add: distinct_map)
    then show ?thesis by (auto simp: idx distinct_map intro: inj_on_subset dest: set_remove1_subset [THEN subsetD])
  qed
  have "getDriver k (name_of d) ?r = Some d" if d: "d \<in> set (reg_index ?r k)" for k d
  proof -
    have mem: "d \<in> set (reg_index r k)" using d by (auto simp: idx dest: set_remove1_subset [THEN subsetD] split: if_splits)
    then have get: "map_of (reg_services r) (driver_prefix k @ name_of d) = Some d"
      using ok by (simp add: registry_ok_def getDriver_def reg_getOptional_def)
    have "distinct (reg_index r k)" using ok by (simp add: registry_ok_def distinct_map)
    then have "n \<noteq> driver_prefix k @ name_of d"
      using d get Some by (auto simp: idx)
    then show ?thesis using get by (simp add: getDriver_def reg_getOptional_def reg_unregister_def Some)
  qed
  then show ?thesis using names by (simp add: registry_ok_def)
qed (use ok in \<open>simp add: reg_unregister_def\<close>)

interpretation drivers: guarded_system "\<lambda>r. r = empty_registry" "registry_step name_of" "registry_ok name_of" for name_of
proof
  fix r assume "r = empty_registry"
  then show "registry_ok name_of r" by (simp add: registry_ok_def empty_registry_def)
next
  fix r r' assume "registry_step name_of r r'" and "registry_ok name_of r"
  then show "registry_ok name_of r'"
  proof cases
    case clear
    then show ?thesis by (simp add: reg_clear_def registry_ok_def empty_registry_def)
  qed (auto intro: register_ok registerDriver_ok unregister_ok)
qed

text \<open>
  Claim C26. The list indexes and the service map never disagree: in every reachable registry each
  listed driver is what its name resolves to and is listed once; after a driver name is
  unregistered no driver of that name is listed or resolved, and the name is free for a
  replacement.
\<close>

theorem driver_index_agrees:
  assumes "(registry_step name_of)\<^sup>*\<^sup>* empty_registry r"
  shows "distinct (map name_of (listDrivers k r)) \<and>
    (\<forall>d \<in> set (listDrivers k r). getDriver k (name_of d) r = Some d) \<and>
    (let r' = snd (reg_unregister (driver_prefix k @ n) r) in
      getDriver k n r' = None \<and> (\<forall>d \<in> set (listDrivers k r'). name_of d \<noteq> n) \<and>
      (\<forall>d. name_of d = n \<longrightarrow> is_ok (registerDriver name_of k d r')))"
proof -
  have ok: "registry_ok name_of r" by (rule drivers.reachable_inv [OF refl assms])
  let ?r = "snd (reg_unregister (driver_prefix k @ n) r)"
  have ok': "registry_ok name_of ?r" by (rule unregister_ok [OF ok])
  have gone: "getDriver k n ?r = None"
    by (simp add: getDriver_def reg_getOptional_def reg_unregister_def split: option.split)
  then have unlisted: "\<forall>d \<in> set (listDrivers k ?r). name_of d \<noteq> n"
    using ok' by (auto simp: registry_ok_def listDrivers_def)
  have "is_ok (registerDriver name_of k d ?r)" if "name_of d = n" for d
    using gone unlisted that
    by (auto simp: registerDriver_def list_ex_iff listDrivers_def getDriver_def reg_getOptional_def reg_register_def is_ok_def)
  then show ?thesis using ok gone unlisted by (simp add: registry_ok_def listDrivers_def Let_def)
qed

theorem driver_index_agrees_witness:
  "\<exists>r. (registry_step (\<lambda>_. ''cf''))\<^sup>*\<^sup>* empty_registry r \<and> listDrivers DomainProvider r = [1] \<and>
     listDrivers DomainProvider (snd (reg_unregister ''domain:cf'' r)) = []"
proof -
  obtain r where run: "registerDriver (\<lambda>_. ''cf'') DomainProvider 1 empty_registry = Inr r"
    by (simp add: registerDriver_def reg_register_def empty_registry_def)
  then have list: "listDrivers DomainProvider r = [1]"
    by (auto simp: registerDriver_def reg_register_def empty_registry_def listDrivers_def)
  have reach: "(registry_step (\<lambda>_. ''cf''))\<^sup>*\<^sup>* empty_registry r"
    by (rule r_into_rtranclp, rule registry_step.register_driver [OF run])
  from driver_index_agrees [OF this, of DomainProvider "''cf''"]
  have "set (listDrivers DomainProvider (snd (reg_unregister ''domain:cf'' r))) = {}"
    by (simp add: Let_def)
  then show ?thesis using reach list by auto
qed

subsection \<open>Menu items\<close>

record menu_item =
  mi_id :: string
  mi_plugin :: "string option"
  mi_slot :: string
  mi_admin :: bool
  mi_order :: "int option"

type_synonym menu = "((string option \<times> string) \<times> menu_item) list"

definition itemKey :: "menu_item \<Rightarrow> string option \<times> string" where
  "itemKey item = (mi_plugin item, mi_id item)"

definition registerMenuItem :: "menu_item \<Rightarrow> menu \<Rightarrow> menu" where
  "registerMenuItem item m = AList.update (itemKey item) item m"

definition disposeMenuItem :: "menu_item \<Rightarrow> menu \<Rightarrow> menu" where
  "disposeMenuItem item m = AList.delete (itemKey item) m"

definition unregisterMenuItem :: "string \<Rightarrow> menu \<Rightarrow> bool \<times> menu" where
  "unregisterMenuItem i m =
     (list_ex (\<lambda>(k, item). mi_id item = i) m, filter (\<lambda>(k, item). mi_id item \<noteq> i) m)"

definition getItemsForSlot :: "string \<Rightarrow> bool option \<Rightarrow> menu \<Rightarrow> menu_item list" where
  "getItemsForSlot slot isOp m =
     sort_key (\<lambda>item. case mi_order item of None \<Rightarrow> 100 | Some n \<Rightarrow> n)
       (filter (\<lambda>item. mi_slot item = slot \<and> \<not> (mi_admin item \<and> isOp \<noteq> Some True)) (map snd m))"

definition getAllItems :: "menu \<Rightarrow> menu_item list" where
  "getAllItems m = map snd m"

definition getPluginMenus :: "string \<Rightarrow> menu \<Rightarrow> menu_item list" where
  "getPluginMenus pluginId m = filter (\<lambda>item. mi_plugin item = Some pluginId) (map snd m)"

definition purgePluginMenus :: "string \<Rightarrow> menu \<Rightarrow> nat \<times> menu" where
  "purgePluginMenus pluginId m =
     (length (filter (\<lambda>(k, item). mi_plugin item = Some pluginId) m),
      filter (\<lambda>(k, item). mi_plugin item \<noteq> Some pluginId) m)"

subsection \<open>What a menu promises\<close>

text \<open>A menu the operations can build: one entry per key, each under the key of its own item.\<close>

definition menu_ok :: "menu \<Rightarrow> bool" where
  "menu_ok m \<longleftrightarrow> distinct (map fst m) \<and> (\<forall>(k, item) \<in> set m. k = itemKey item)"

inductive menu_step :: "menu \<Rightarrow> menu \<Rightarrow> bool" where
  register: "menu_step m (registerMenuItem item m)"
| dispose: "menu_step m (disposeMenuItem item m)"
| unregister: "menu_step m (snd (unregisterMenuItem i m))"
| purge: "menu_step m (snd (purgePluginMenus p m))"

lemma update_entry: "e \<in> set (AList.update k v xs) \<Longrightarrow> e = (k, v) \<or> e \<in> set xs"
  by (induction xs) (auto split: if_splits)

lemma registerMenuItem_ok: "menu_ok m \<Longrightarrow> menu_ok (registerMenuItem item m)"
  by (auto simp: menu_ok_def registerMenuItem_def distinct_update dest!: update_entry)

lemma filter_ok: "menu_ok m \<Longrightarrow> menu_ok (filter P m)"
  by (auto simp: menu_ok_def distinct_map_filter)

interpretation menus: guarded_system "\<lambda>m. m = []" menu_step menu_ok
proof
  fix m m' assume "menu_step m m'" and "menu_ok m"
  then show "menu_ok m'"
    by cases (simp_all add: registerMenuItem_ok filter_ok disposeMenuItem_def AList.delete_eq
      unregisterMenuItem_def purgePluginMenus_def)
qed (simp add: menu_ok_def)

lemma slot_sorted: "sorted (map (\<lambda>item. case mi_order item of None \<Rightarrow> 100 | Some n \<Rightarrow> n) (getItemsForSlot slot isOp m))"
  by (simp add: getItemsForSlot_def)

lemma slot_members:
  "set (getItemsForSlot slot isOp m) =
     {item \<in> set (getAllItems m). mi_slot item = slot \<and> (mi_admin item \<longrightarrow> isOp = Some True)}"
  by (auto simp: getItemsForSlot_def getAllItems_def)

lemma listed_is_registered:
  assumes "menu_ok m" and "item \<in> set (getAllItems m)"
  shows "map_of m (itemKey item) = Some item"
  using assms by (force simp: menu_ok_def getAllItems_def)

lemma purge_keeps:
  assumes "menu_ok m" and "mi_plugin item \<noteq> Some p"
  shows "map_of (snd (purgePluginMenus p m)) (itemKey item) = map_of m (itemKey item)"
  using assms unfolding menu_ok_def purgePluginMenus_def
  by (induction m) (auto simp: itemKey_def)

lemma purge_removes: "getPluginMenus p (snd (purgePluginMenus p m)) = []"
  by (auto simp: getPluginMenus_def purgePluginMenus_def filter_empty_conv)

lemma purge_counts: "fst (purgePluginMenus p m) = length (getPluginMenus p m)"
  by (simp add: getPluginMenus_def purgePluginMenus_def filter_map comp_def case_prod_unfold)

text \<open>
  In every menu the operations can build, an item is listed in its slot exactly while it
  is what its (plugin, id) pair resolves to and, for an admin item, the caller is an operator; the
  slot is sorted by order. Disposing or purging one plugin's items removes all of them from every
  slot and leaves every item of every other plugin, even one with the same id.
\<close>

theorem menu_owned_by_plugin:
  assumes "menu_step\<^sup>*\<^sup>* [] m"
  shows "(item \<in> set (getItemsForSlot slot isOp m) \<longleftrightarrow>
      map_of m (itemKey item) = Some item \<and> mi_slot item = slot \<and> (mi_admin item \<longrightarrow> isOp = Some True)) \<and>
    sorted (map (\<lambda>i. case mi_order i of None \<Rightarrow> 100 | Some n \<Rightarrow> n) (getItemsForSlot slot isOp m)) \<and>
    getPluginMenus p (snd (purgePluginMenus p m)) = [] \<and>
    fst (purgePluginMenus p m) = length (getPluginMenus p m) \<and>
    (mi_plugin item \<noteq> Some p \<longrightarrow>
      map_of (snd (purgePluginMenus p m)) (itemKey item) = map_of m (itemKey item)) \<and>
    (mi_plugin other \<noteq> mi_plugin item \<longrightarrow>
      map_of (disposeMenuItem other m) (itemKey item) = map_of m (itemKey item))"
proof -
  have ok: "menu_ok m" by (rule menus.reachable_inv [OF refl assms])
  have "item \<in> set (getAllItems m) \<longleftrightarrow> map_of m (itemKey item) = Some item"
    using listed_is_registered [OF ok] map_of_SomeD by (force simp: getAllItems_def)
  then have listed: "item \<in> set (getItemsForSlot slot isOp m) \<longleftrightarrow>
      map_of m (itemKey item) = Some item \<and> mi_slot item = slot \<and> (mi_admin item \<longrightarrow> isOp = Some True)"
    by (auto simp: slot_members)
  have kept: "map_of (snd (purgePluginMenus p m)) (itemKey item) = map_of m (itemKey item)"
    if "mi_plugin item \<noteq> Some p"
    by (rule purge_keeps [OF ok that])
  show ?thesis
    using listed kept slot_sorted
    by (simp add: purge_removes purge_counts disposeMenuItem_def itemKey_def delete_conv')
qed

theorem menu_owned_by_plugin_witness:
  "\<exists>a b. itemKey a \<noteq> itemKey b \<and> mi_id a = mi_id b \<and>
     b \<in> set (getItemsForSlot ''nav'' None (snd (purgePluginMenus ''p'' (registerMenuItem b (registerMenuItem a [])))))"
proof -
  define a b where "a = \<lparr>mi_id = ''x'', mi_plugin = Some ''p'', mi_slot = ''nav'', mi_admin = False, mi_order = None\<rparr>"
    and "b = a\<lparr>mi_plugin := Some ''q''\<rparr>"
  have "menu_step\<^sup>*\<^sup>* [] (snd (purgePluginMenus ''p'' (registerMenuItem b (registerMenuItem a []))))"
    by (meson menu_step.intros r_into_rtranclp rtranclp.rtrancl_into_rtrancl)
  from menu_owned_by_plugin [OF this, of b "''nav''" None "''p''" a]
  have "b \<in> set (getItemsForSlot ''nav'' None (snd (purgePluginMenus ''p'' (registerMenuItem b (registerMenuItem a [])))))"
    by (simp add: a_def b_def purgePluginMenus_def registerMenuItem_def itemKey_def)
  then show ?thesis by (intro exI [of _ a] exI [of _ b]) (simp add: a_def b_def itemKey_def)
qed

end
