(* ===== verification/BuildSlots.thy ===== *)
theory BuildSlots
  imports Prelude
begin

text \<open>
  The build-slot semaphore (\<open>apps/server/src/engine/buildSlots.ts\<close>). Both \<open>acquire\<close> and the
  pump that follows a release await the capacity of the key, so both are split there: an acquire
  starts and resumes with an answer, a pump starts and resumes with an answer, and anything may
  run in between. A build is its id; a queued resolver is the id of the build it wakes.
\<close>

subsection \<open>State and operations\<close>

datatype slot_key = Panel | Server int

definition buildSlotKey :: "int option \<Rightarrow> slot_key" where
  "buildSlotKey serverId = (case serverId of None \<Rightarrow> Panel | Some i \<Rightarrow> Server i)"

text \<open>What \<open>capacity(key)\<close> settles to: a whole number, another number, or an exception.\<close>

datatype capacity_answer = Whole int | NotWhole | Raises

fun clampCapacity :: "capacity_answer \<Rightarrow> nat" where
  "clampCapacity (Whole n) = (if n \<ge> 1 then nat (min n 8) else 1)"
| "clampCapacity NotWhole = 1"
| "clampCapacity Raises = 1"

record slots =
  sl_active :: "(slot_key \<times> nat) list"
  sl_queues :: "(slot_key \<times> int list) list"
  sl_acquiring :: "(int \<times> slot_key) list"
  sl_holders :: "(int \<times> slot_key) list"
  sl_pumps :: "slot_key list"

definition createBuildSlots :: slots where
  "createBuildSlots = \<lparr>sl_active = [], sl_queues = [], sl_acquiring = [], sl_holders = [], sl_pumps = []\<rparr>"

definition active_at :: "slot_key \<Rightarrow> slots \<Rightarrow> nat" where
  "active_at key s = (case map_of (sl_active s) key of None \<Rightarrow> 0 | Some n \<Rightarrow> n)"

definition queue_at :: "slot_key \<Rightarrow> slots \<Rightarrow> int list" where
  "queue_at key s = (case map_of (sl_queues s) key of None \<Rightarrow> [] | Some q \<Rightarrow> q)"

definition usage :: "slot_key \<Rightarrow> slots \<Rightarrow> nat \<times> nat" where
  "usage key s = (active_at key s, length (queue_at key s))"

definition acquire_start :: "int \<Rightarrow> slot_key \<Rightarrow> slots \<Rightarrow> slots" where
  "acquire_start i key s = s\<lparr>sl_acquiring := sl_acquiring s @ [(i, key)]\<rparr>"

text \<open>The rest of \<open>acquire\<close>: what \<open>onWait\<close> is told, if it is called, and the state.\<close>

definition acquire_resume :: "int \<Rightarrow> slot_key \<Rightarrow> capacity_answer \<Rightarrow> slots \<Rightarrow> nat option \<times> slots" where
  "acquire_resume i key answer s =
     (let queue = queue_at key s;
          used = active_at key s;
          s = s\<lparr>sl_acquiring := remove1 (i, key) (sl_acquiring s)\<rparr>
      in if queue = [] \<and> used < clampCapacity answer
         then (None, s\<lparr>sl_queues := AList.update key queue (sl_queues s),
                sl_active := AList.update key (used + 1) (sl_active s),
                sl_holders := sl_holders s @ [(i, key)]\<rparr>)
         else (Some (used + length queue),
                s\<lparr>sl_queues := AList.update key (queue @ [i]) (sl_queues s)\<rparr>))"

text \<open>The returned function: a second call does nothing. The pump it starts returns at once
  when nobody waits.\<close>

definition release :: "int \<Rightarrow> slot_key \<Rightarrow> slots \<Rightarrow> slots" where
  "release i key s =
     (if (i, key) \<notin> set (sl_holders s) then s
      else s\<lparr>sl_holders := remove1 (i, key) (sl_holders s),
             sl_active := AList.update key ((case map_of (sl_active s) key of None \<Rightarrow> 1 | Some n \<Rightarrow> n) - 1) (sl_active s),
             sl_pumps := (if queue_at key s = [] then sl_pumps s else sl_pumps s @ [key])\<rparr>)"

fun pump_loop :: "nat \<Rightarrow> int list \<Rightarrow> nat \<Rightarrow> int list \<times> nat \<times> int list" where
  "pump_loop cap [] used = ([], used, [])"
| "pump_loop cap (i # queue) used =
     (if used < cap then (case pump_loop cap queue (used + 1) of (woken, u, q) \<Rightarrow> (i # woken, u, q))
      else ([], used, i # queue))"

definition pump_resume :: "slot_key \<Rightarrow> capacity_answer \<Rightarrow> slots \<Rightarrow> slots" where
  "pump_resume key answer s =
     (case pump_loop (clampCapacity answer) (queue_at key s) (active_at key s) of (woken, used, queue) \<Rightarrow>
        s\<lparr>sl_pumps := remove1 key (sl_pumps s),
          sl_active := (if woken = [] then sl_active s else AList.update key used (sl_active s)),
          sl_queues := AList.update key queue (sl_queues s),
          sl_holders := sl_holders s @ map (\<lambda>i. (i, key)) woken\<rparr>)"

text \<open>
  Interleavings. \<open>answers key a\<close> says which answers \<open>capacity\<close> may give; a build that starts
  has an id of its own.
\<close>

definition builds :: "slots \<Rightarrow> int set" where
  "builds s = fst ` set (sl_acquiring s) \<union> fst ` set (sl_holders s) \<union> (\<Union>k. set (queue_at k s))"

inductive slot_step :: "(slot_key \<Rightarrow> capacity_answer \<Rightarrow> bool) \<Rightarrow> slots \<Rightarrow> slots \<Rightarrow> bool" for answers where
  start: "i \<notin> builds s \<Longrightarrow> slot_step answers s (acquire_start i key s)"
| resume: "(i, key) \<in> set (sl_acquiring s) \<Longrightarrow> answers key a \<Longrightarrow>
    slot_step answers s (snd (acquire_resume i key a s))"
| release: "slot_step answers s (release i key s)"
| pump: "key \<in> set (sl_pumps s) \<Longrightarrow> answers key a \<Longrightarrow> slot_step answers s (pump_resume key a s)"

subsection \<open>The invariant\<close>

definition slots_held :: "slot_key \<Rightarrow> slots \<Rightarrow> nat" where
  "slots_held key s = length (filter (\<lambda>h. snd h = key) (sl_holders s))"

definition slots_ok :: "(slot_key \<Rightarrow> capacity_answer \<Rightarrow> bool) \<Rightarrow> slots \<Rightarrow> bool" where
  "slots_ok answers s \<longleftrightarrow>
     (\<forall>key. active_at key s = slots_held key s) \<and>
     (\<forall>key. queue_at key s \<noteq> [] \<longrightarrow> 0 < active_at key s \<or> key \<in> set (sl_pumps s)) \<and>
     (\<forall>key c. (\<forall>a. answers key a \<longrightarrow> clampCapacity a \<le> c) \<longrightarrow> active_at key s \<le> c)"

lemma clampCapacity_bounds: "1 \<le> clampCapacity a \<and> clampCapacity a \<le> 8"
  by (cases a) auto

lemma pump_loop_spec:
  "pump_loop cap queue used = (woken, u, q) \<Longrightarrow>
     queue = woken @ q \<and> u = used + length woken \<and> (q \<noteq> [] \<longrightarrow> cap \<le> u) \<and> (woken \<noteq> [] \<longrightarrow> u \<le> cap)"
proof (induction cap queue used arbitrary: woken u q rule: pump_loop.induct)
  case (2 cap i queue used)
  show ?case
  proof (cases "used < cap")
    case True
    obtain w' u' q' where rec: "pump_loop cap queue (used + 1) = (w', u', q')" by (cases "pump_loop cap queue (used + 1)")
    then have out: "woken = i # w'" "u = u'" "q = q'" using 2(2) True by auto
    from 2(1) [OF True rec] True show ?thesis by (cases "w' = []") (auto simp: out)
  next
    case False
    then show ?thesis using 2(2) by auto
  qed
qed simp

lemma active_at_update [simp]:
  "active_at k (s\<lparr>sl_active := AList.update key n m\<rparr>) = (if k = key then n else active_at k (s\<lparr>sl_active := m\<rparr>))"
  by (simp add: active_at_def)

lemma queue_at_update [simp]:
  "queue_at k (s\<lparr>sl_queues := AList.update key q m\<rparr>) = (if k = key then q else queue_at k (s\<lparr>sl_queues := m\<rparr>))"
  by (simp add: queue_at_def)

lemma slots_okI:
  assumes "\<And>key. active_at key s = slots_held key s"
    and "\<And>key. queue_at key s \<noteq> [] \<Longrightarrow> 0 < active_at key s \<or> key \<in> set (sl_pumps s)"
    and "\<And>key c. (\<forall>a. answers key a \<longrightarrow> clampCapacity a \<le> c) \<Longrightarrow> active_at key s \<le> c"
  shows "slots_ok answers s"
  using assms unfolding slots_ok_def by blast

lemma slots_okD:
  assumes "slots_ok answers s"
  shows "active_at key s = slots_held key s"
    and "queue_at key s \<noteq> [] \<Longrightarrow> 0 < active_at key s \<or> key \<in> set (sl_pumps s)"
    and "(\<forall>a. answers key a \<longrightarrow> clampCapacity a \<le> c) \<Longrightarrow> active_at key s \<le> c"
  using assms unfolding slots_ok_def by blast+

text \<open>What each operation does to one key.\<close>

lemma acquire_resume_at:
  "active_at k (snd (acquire_resume i key a s)) =
     (if k = key \<and> queue_at key s = [] \<and> active_at key s < clampCapacity a then active_at k s + 1 else active_at k s)"
  "queue_at k (snd (acquire_resume i key a s)) =
     (if k = key \<and> \<not> (queue_at key s = [] \<and> active_at key s < clampCapacity a) then queue_at k s @ [i] else queue_at k s)"
  "slots_held k (snd (acquire_resume i key a s)) =
     (if k = key \<and> queue_at key s = [] \<and> active_at key s < clampCapacity a then slots_held k s + 1 else slots_held k s)"
  "sl_pumps (snd (acquire_resume i key a s)) = sl_pumps s"
  by (auto simp: acquire_resume_def Let_def active_at_def queue_at_def slots_held_def)

lemma filter_remove1_length:
  "x \<in> set xs \<Longrightarrow> length (filter P (remove1 x xs)) = (if P x then length (filter P xs) - 1 else length (filter P xs))"
proof (induction xs)
  case (Cons a xs)
  then show ?case by (cases "filter P xs") (auto simp: filter_empty_conv)
qed simp

lemma release_at:
  assumes "(i, key) \<in> set (sl_holders s)" and "active_at key s = slots_held key s"
  shows "active_at k (release i key s) = (if k = key then active_at k s - 1 else active_at k s)"
    and "queue_at k (release i key s) = queue_at k s"
    and "slots_held k (release i key s) = (if k = key then slots_held k s - 1 else slots_held k s)"
    and "set (sl_pumps (release i key s)) = (if queue_at key s = [] then set (sl_pumps s) else insert key (set (sl_pumps s)))"
proof -
  have "0 < slots_held key s" using assms(1) by (force simp: slots_held_def filter_empty_conv)
  then obtain n where "map_of (sl_active s) key = Some n" using assms(2) by (auto simp: active_at_def split: option.splits)
  then show "active_at k (release i key s) = (if k = key then active_at k s - 1 else active_at k s)"
    using assms(1) by (simp add: release_def active_at_def)
qed (use assms(1) in \<open>simp_all add: release_def queue_at_def slots_held_def filter_remove1_length\<close>)

lemma pump_resume_at:
  assumes "pump_loop (clampCapacity a) (queue_at key s) (active_at key s) = (woken, u, q)"
  shows "active_at k (pump_resume key a s) = (if k = key then u else active_at k s)"
    and "queue_at k (pump_resume key a s) = (if k = key then q else queue_at k s)"
    and "slots_held k (pump_resume key a s) = (if k = key then slots_held k s + length woken else slots_held k s)"
    and "sl_pumps (pump_resume key a s) = remove1 key (sl_pumps s)"
proof -
  note spec = pump_loop_spec [OF assms]
  have eq: "pump_resume key a s = s\<lparr>sl_pumps := remove1 key (sl_pumps s),
      sl_active := (if woken = [] then sl_active s else AList.update key u (sl_active s)),
      sl_queues := AList.update key q (sl_queues s),
      sl_holders := sl_holders s @ map (\<lambda>i. (i, key)) woken\<rparr>"
    by (simp add: pump_resume_def assms)
  show "active_at k (pump_resume key a s) = (if k = key then u else active_at k s)"
    using spec by (cases "woken = []") (simp_all add: eq active_at_def)
  have "filter (\<lambda>h. snd h = k) (map (\<lambda>i. (i, key)) woken) = (if k = key then map (\<lambda>i. (i, key)) woken else [])"
    by (simp add: filter_map comp_def)
  then show "slots_held k (pump_resume key a s) = (if k = key then slots_held k s + length woken else slots_held k s)"
    by (simp add: eq slots_held_def)
  show "queue_at k (pump_resume key a s) = (if k = key then q else queue_at k s)"
    "sl_pumps (pump_resume key a s) = remove1 key (sl_pumps s)"
    by (simp_all add: eq queue_at_def)
qed

lemma acquire_resume_ok:
  assumes ok: "slots_ok answers s" and a: "answers key a"
  shows "slots_ok answers (snd (acquire_resume i key a s))"
proof (rule slots_okI)
  let ?t = "snd (acquire_resume i key a s)"
  show "active_at k ?t = slots_held k ?t" for k
    using slots_okD(1) [OF ok] by (simp add: acquire_resume_at)
  show "0 < active_at k ?t \<or> k \<in> set (sl_pumps ?t)" if "queue_at k ?t \<noteq> []" for k
    using that slots_okD(2) [OF ok, of k] clampCapacity_bounds [of a]
    by (cases "queue_at k s = []") (auto simp: acquire_resume_at split: if_splits)
  show "active_at k ?t \<le> c" if "\<forall>a. answers k a \<longrightarrow> clampCapacity a \<le> c" for k c
    using that a slots_okD(3) [OF ok that] by (auto simp: acquire_resume_at intro: le_trans [OF Suc_leI])
qed

lemma release_ok:
  assumes ok: "slots_ok answers s"
  shows "slots_ok answers (release i key s)"
proof (cases "(i, key) \<in> set (sl_holders s)")
  case True
  note at = release_at [OF True slots_okD(1) [OF ok]]
  show ?thesis
  proof (rule slots_okI)
    show "active_at k (release i key s) = slots_held k (release i key s)" for k
      using slots_okD(1) [OF ok] by (simp add: at)
    show "0 < active_at k (release i key s) \<or> k \<in> set (sl_pumps (release i key s))"
      if "queue_at k (release i key s) \<noteq> []" for k
      using that slots_okD(2) [OF ok, of k] by (auto simp: at)
    show "active_at k (release i key s) \<le> c" if "\<forall>a. answers k a \<longrightarrow> clampCapacity a \<le> c" for k c
      using slots_okD(3) [OF ok that] by (auto simp: at)
  qed
qed (use ok in \<open>simp add: release_def\<close>)

lemma pump_resume_ok:
  assumes ok: "slots_ok answers s" and a: "answers key a"
  shows "slots_ok answers (pump_resume key a s)"
proof -
  obtain woken u q where run: "pump_loop (clampCapacity a) (queue_at key s) (active_at key s) = (woken, u, q)"
    by (cases "pump_loop (clampCapacity a) (queue_at key s) (active_at key s)")
  note at = pump_resume_at [OF run] and spec = pump_loop_spec [OF run]
  show ?thesis
  proof (rule slots_okI)
    show "active_at k (pump_resume key a s) = slots_held k (pump_resume key a s)" for k
      using slots_okD(1) [OF ok] spec by (simp add: at)
    show "0 < active_at k (pump_resume key a s) \<or> k \<in> set (sl_pumps (pump_resume key a s))"
      if "queue_at k (pump_resume key a s) \<noteq> []" for k
      using that slots_okD(2) [OF ok, of k] spec clampCapacity_bounds [of a]
      by (cases "k = key") (auto simp: at)
    show "active_at k (pump_resume key a s) \<le> c" if c: "\<forall>a. answers k a \<longrightarrow> clampCapacity a \<le> c" for k c
    proof (cases "k = key \<and> woken \<noteq> []")
      case True
      then have "u \<le> clampCapacity a" "clampCapacity a \<le> c" using spec c a by auto
      then show ?thesis using True by (simp add: at)
    next
      case False
      then show ?thesis using slots_okD(3) [OF ok c] spec by (auto simp: at)
    qed
  qed
qed

interpretation slots: guarded_system "\<lambda>s. s = createBuildSlots" "slot_step answers" "slots_ok answers" for answers
proof
  fix s assume "s = createBuildSlots"
  then show "slots_ok answers s"
    by (simp add: slots_ok_def createBuildSlots_def active_at_def queue_at_def slots_held_def)
next
  fix s t assume "slot_step answers s t" and ok: "slots_ok answers s"
  then show "slots_ok answers t"
  proof cases
    case (start i key)
    have "active_at k t = active_at k s" "queue_at k t = queue_at k s" "slots_held k t = slots_held k s" "sl_pumps t = sl_pumps s" for k
      by (simp_all add: start acquire_start_def active_at_def queue_at_def slots_held_def)
    then show ?thesis using ok unfolding slots_ok_def by simp (metis ok slots_okD(1))
  qed (auto intro: acquire_resume_ok release_ok pump_resume_ok ok)
qed

subsection \<open>Properties\<close>

text \<open>
  Claim C27. However acquires, releases and pumps interleave, the builds that hold a slot of a key
  are counted exactly, never exceed the largest capacity the key was ever given, and never exceed
  eight; and a second release of a slot changes nothing.
\<close>

theorem slots_never_oversubscribed:
  assumes "(slot_step answers)\<^sup>*\<^sup>* createBuildSlots s"
  shows "fst (usage key s) = length (filter (\<lambda>h. snd h = key) (sl_holders s)) \<and>
    fst (usage key s) \<le> 8 \<and>
    ((\<forall>a. answers key a \<longrightarrow> clampCapacity a \<le> c) \<longrightarrow> fst (usage key s) \<le> c) \<and>
    (i \<notin> fst ` set (sl_holders s) \<longrightarrow> release i key s = s)"
proof -
  have ok: "slots_ok answers s" by (rule slots.reachable_inv [OF refl assms])
  have "active_at key s \<le> 8" by (rule slots_okD(3) [OF ok]) (simp add: clampCapacity_bounds)
  moreover have "release i key s = s" if "i \<notin> fst ` set (sl_holders s)"
    using that by (force simp: release_def)
  ultimately show ?thesis
    using slots_okD(1) [OF ok, of key] slots_okD(3) [OF ok, of key c] by (simp add: usage_def slots_held_def)
qed

text \<open>
  Claim C20. No wake-up is lost: a build waits only while another build holds a slot of its key or
  a pump of the key is under way, and a pump wakes the longest-waiting builds, in order, until
  nobody waits or the key is at its capacity.
\<close>

theorem no_lost_wakeup:
  assumes "(slot_step answers)\<^sup>*\<^sup>* createBuildSlots s"
  shows "(0 < snd (usage key s) \<longrightarrow> (\<exists>i. (i, key) \<in> set (sl_holders s)) \<or> key \<in> set (sl_pumps s)) \<and>
    (let t = pump_resume key a s in
      (\<exists>woken. queue_at key s = woken @ queue_at key t \<and>
         sl_holders t = sl_holders s @ map (\<lambda>i. (i, key)) woken) \<and>
      (queue_at key t = [] \<or> clampCapacity a \<le> active_at key t))"
proof -
  have ok: "slots_ok answers s" by (rule slots.reachable_inv [OF refl assms])
  obtain woken u q where run: "pump_loop (clampCapacity a) (queue_at key s) (active_at key s) = (woken, u, q)"
    by (cases "pump_loop (clampCapacity a) (queue_at key s) (active_at key s)")
  note at = pump_resume_at [OF run] and spec = pump_loop_spec [OF run]
  have "\<exists>i. (i, key) \<in> set (sl_holders s)" if "0 < active_at key s"
    using that slots_okD(1) [OF ok, of key] by (auto simp: slots_held_def filter_empty_conv)
  moreover have "sl_holders (pump_resume key a s) = sl_holders s @ map (\<lambda>i. (i, key)) woken"
    by (simp add: pump_resume_def run)
  ultimately show ?thesis
    using slots_okD(2) [OF ok, of key] spec by (auto simp: usage_def at Let_def)
qed

text \<open>A run: capacity one, a second build waits, the first releases, the pump wakes the second.\<close>

definition two_builds :: slots where
  "two_builds = snd (acquire_resume 2 Panel (Whole 1) (acquire_start 2 Panel
     (snd (acquire_resume 1 Panel (Whole 1) (acquire_start 1 Panel createBuildSlots)))))"

lemma two_builds_eq:
  "two_builds = \<lparr>sl_active = [(Panel, 1)], sl_queues = [(Panel, [2])], sl_acquiring = [],
     sl_holders = [(1, Panel)], sl_pumps = []\<rparr>"
  by (simp add: two_builds_def acquire_resume_def acquire_start_def createBuildSlots_def active_at_def queue_at_def Let_def)

lemma two_builds_reachable: "(slot_step (\<lambda>_ a. a = Whole 1))\<^sup>*\<^sup>* createBuildSlots two_builds"
proof -
  let ?step = "slot_step (\<lambda>_ a. a = Whole 1)"
  let ?a = "acquire_start 1 Panel createBuildSlots"
  let ?b = "snd (acquire_resume 1 Panel (Whole 1) ?a)"
  let ?c = "acquire_start 2 Panel ?b"
  have "?step createBuildSlots ?a"
    by (rule slot_step.start) (simp add: builds_def createBuildSlots_def queue_at_def)
  moreover have "?step ?a ?b"
    by (rule slot_step.resume) (simp_all add: acquire_start_def createBuildSlots_def)
  moreover have "?step ?b ?c"
    by (rule slot_step.start)
      (simp add: builds_def acquire_resume_def acquire_start_def createBuildSlots_def active_at_def queue_at_def Let_def)
  moreover have "?step ?c two_builds"
    unfolding two_builds_def by (rule slot_step.resume) (simp_all add: acquire_start_def)
  ultimately show ?thesis by (meson converse_rtranclp_into_rtranclp rtranclp.rtrancl_refl)
qed

theorem slots_never_oversubscribed_witness:
  "usage Panel two_builds = (1, 1) \<and> fst (usage Panel two_builds) \<le> 1 \<and> release 2 Panel two_builds = two_builds"
  using slots_never_oversubscribed [OF two_builds_reachable, of Panel 1 2]
  by (simp add: usage_def two_builds_eq active_at_def queue_at_def)

theorem no_lost_wakeup_witness:
  "(\<exists>i. (i, Panel) \<in> set (sl_holders two_builds)) \<and>
   sl_holders (pump_resume Panel (Whole 1) (release 1 Panel two_builds)) = [(2, Panel)]"
  using no_lost_wakeup [OF two_builds_reachable, of Panel "Whole 1"]
  by (simp add: usage_def two_builds_eq active_at_def queue_at_def release_def pump_resume_def)

end
