(* ===== verification/Glob.thy ===== *)
theory Glob
  imports Prelude "HOL-Library.Sublist"
begin

text \<open>
  The watch-path globs of webhooks (\<open>apps/server/src/lib/glob.ts\<close>): the regular expression a
  pattern compiles to, the bounded matcher that replaced it, and the patterns a webhook accepts.
  Texts are \<open>string\<close>s, so code units above 255 are not represented; no operation singles any
  of them out.
\<close>

subsection \<open>The regular expression\<close>

text \<open>
  The pieces \<open>globToRegExp\<close> emits, their source text, and the language each denotes in a
  JavaScript regular expression without flags: \<open>.\<close> matches no line terminator.
\<close>

datatype piece = PLit char | PSeg | PSegs | PDeep | PDir

definition slash :: char where "slash = CHR 0x2F"

definition line_end :: "char \<Rightarrow> bool" where
  "line_end c \<longleftrightarrow> c = CHR 0x0A \<or> c = CHR 0x0D"

definition rx_special :: "char \<Rightarrow> bool" where
  "rx_special c \<longleftrightarrow> c \<in> set (''.+^${}()|[]'' @ [CHR 0x5C])"

fun piece_text :: "piece \<Rightarrow> string" where
  "piece_text PDir = ''(?:.*/)?''"
| "piece_text PDeep = ''(?:.*)''"
| "piece_text PSegs = ''[^/]*''"
| "piece_text PSeg = ''[^/]''"
| "piece_text (PLit c) = (if rx_special c then [CHR 0x5C, c] else [c])"

fun piece_matches :: "piece \<Rightarrow> string \<Rightarrow> bool" where
  "piece_matches PDir t \<longleftrightarrow> t = [] \<or> (last t = slash \<and> list_all (\<lambda>c. \<not> line_end c) (butlast t))"
| "piece_matches PDeep t \<longleftrightarrow> list_all (\<lambda>c. \<not> line_end c) t"
| "piece_matches PSegs t \<longleftrightarrow> list_all (\<lambda>c. c \<noteq> slash) t"
| "piece_matches PSeg t \<longleftrightarrow> (\<exists>c. t = [c] \<and> c \<noteq> slash)"
| "piece_matches (PLit d) t \<longleftrightarrow> t = [d]"

definition is_star :: "char \<Rightarrow> bool" where "is_star c \<longleftrightarrow> c = CHR 0x2A"
definition is_quest :: "char \<Rightarrow> bool" where "is_quest c \<longleftrightarrow> c = CHR 0x3F"

definition strip_slashes :: "string \<Rightarrow> string" where
  "strip_slashes = dropWhile (\<lambda>c. c = slash)"

fun compile_glob :: "string \<Rightarrow> piece list" where
  "compile_glob [] = []"
| "compile_glob (c # cs) =
     (if is_star c then
        (case cs of
           [] \<Rightarrow> PSegs # compile_glob cs
         | d # ds \<Rightarrow>
             if is_star d then
               (case ds of
                  [] \<Rightarrow> PDeep # compile_glob ds
                | e # es \<Rightarrow> if e = slash then PDir # compile_glob es else PDeep # compile_glob ds)
             else PSegs # compile_glob cs)
      else if is_quest c then PSeg # compile_glob cs
      else PLit c # compile_glob cs)"

definition globToRegExp :: "string \<Rightarrow> string" where
  "globToRegExp pattern = ''^(?:'' @ concat (map piece_text (compile_glob (strip_slashes pattern))) @ '')$''"

text \<open>\<open>globToRegExp(pattern).test(text)\<close>: some split of the text over the pieces.\<close>

fun splits_over :: "('a \<Rightarrow> string \<Rightarrow> bool) \<Rightarrow> 'a list \<Rightarrow> string \<Rightarrow> bool" where
  "splits_over m [] t \<longleftrightarrow> t = []"
| "splits_over m (p # ps) t \<longleftrightarrow>
     list_ex (\<lambda>i. m p (take i t) \<and> splits_over m ps (drop i t)) [0..<Suc (length t)]"

definition regexp_test :: "string \<Rightarrow> string \<Rightarrow> bool" where
  "regexp_test pattern t = splits_over piece_matches (compile_glob (strip_slashes pattern)) t"

subsection \<open>The bounded matcher\<close>

datatype glob_token = Lit char | Any1 | Star1 | Star2 | StarDir

fun tokenizeGlob :: "string \<Rightarrow> glob_token list" where
  "tokenizeGlob [] = []"
| "tokenizeGlob (c # cs) =
     (if is_star c then
        (case cs of
           [] \<Rightarrow> Star1 # tokenizeGlob cs
         | d # ds \<Rightarrow>
             if is_star d then
               (case ds of
                  [] \<Rightarrow> Star2 # tokenizeGlob ds
                | e # es \<Rightarrow> if e = slash then StarDir # tokenizeGlob es else Star2 # tokenizeGlob ds)
             else Star1 # tokenizeGlob cs)
      else if is_quest c then Any1 # tokenizeGlob cs
      else Lit c # tokenizeGlob cs)"

text \<open>
  The loops run \<open>j\<close> from the end of the text down, so a row is computed from the text's tail. A
  row has one entry per suffix, the whole text first and the empty one last; \<open>nxt\<close> is the row
  of the tokens after this one.
\<close>

fun row_dir :: "string \<Rightarrow> bool list \<Rightarrow> bool list \<times> bool" where
  "row_dir (c # cs) (b # bs) =
     (case row_dir cs bs of (cur, afterSlash) \<Rightarrow>
        let afterSlash' = (if c = slash \<and> hd bs then True else afterSlash)
        in ((b \<or> afterSlash') # cur, afterSlash'))"
| "row_dir _ nxt = ([hd nxt], False)"

fun row_star :: "bool \<Rightarrow> string \<Rightarrow> bool list \<Rightarrow> bool list" where
  "row_star deep (c # cs) (b # bs) =
     (let cur = row_star deep cs bs in (b \<or> (deep \<or> c \<noteq> slash) \<and> hd cur) # cur)"
| "row_star deep _ nxt = [hd nxt]"

fun row_one :: "(char \<Rightarrow> bool) \<Rightarrow> string \<Rightarrow> bool list \<Rightarrow> bool list" where
  "row_one ok (c # cs) (b # bs) = (ok c \<and> hd bs) # row_one ok cs bs"
| "row_one ok _ nxt = [False]"

fun token_row :: "glob_token \<Rightarrow> string \<Rightarrow> bool list \<Rightarrow> bool list" where
  "token_row StarDir t nxt = fst (row_dir t nxt)"
| "token_row Star2 t nxt = row_star True t nxt"
| "token_row Star1 t nxt = row_star False t nxt"
| "token_row (Lit d) t nxt = row_one (\<lambda>c. c = d) t nxt"
| "token_row Any1 t nxt = row_one (\<lambda>c. c \<noteq> slash) t nxt"

definition globMatches :: "string \<Rightarrow> string \<Rightarrow> bool" where
  "globMatches pattern t =
     hd (foldr (\<lambda>tok nxt. token_row tok t nxt) (tokenizeGlob pattern) (replicate (length t) False @ [True]))"

subsection \<open>Watch paths\<close>

fun count_pairs :: "string \<Rightarrow> nat" where
  "count_pairs (c # d # cs) = (if is_star c \<and> is_star d then Suc (count_pairs cs) else count_pairs (d # cs))"
| "count_pairs _ = 0"

definition isSafeWatchPath :: "string \<Rightarrow> bool" where
  "isSafeWatchPath pattern =
     (if length pattern = 0 \<or> length pattern > 256 then False
      else count_pairs pattern \<le> 4 \<and>
        length (filter (\<lambda>c. is_quest c \<or> is_star c) pattern) \<le> 16)"

definition MAX_MATCH_INPUT :: nat where "MAX_MATCH_INPUT = 4096"

definition matchesAny :: "string \<Rightarrow> string list \<Rightarrow> bool" where
  "matchesAny path patterns =
     (let clean = strip_slashes path in
      if length clean > MAX_MATCH_INPUT then True
      else list_ex (\<lambda>p. isSafeWatchPath p \<and> globMatches (strip_slashes p) clean) patterns)"

text \<open>\<open>String.trim\<close> and \<open>split\<close> on a newline or a comma.\<close>

definition js_space :: "char \<Rightarrow> bool" where
  "js_space c \<longleftrightarrow> c \<in> set [CHR 0x09, CHR 0x0A, CHR 0x0B, CHR 0x0C, CHR 0x0D, CHR 0x20, CHR 0xA0]"

definition js_trim :: "string \<Rightarrow> string" where
  "js_trim s = rev (dropWhile js_space (rev (dropWhile js_space s)))"

fun split_on :: "(char \<Rightarrow> bool) \<Rightarrow> string \<Rightarrow> string list" where
  "split_on sep [] = [[]]"
| "split_on sep (c # cs) =
     (if sep c then [] # split_on sep cs
      else (case split_on sep cs of [] \<Rightarrow> [[c]] | w # ws \<Rightarrow> (c # w) # ws))"

definition parseWatchPaths :: "string option \<Rightarrow> string list" where
  "parseWatchPaths raw =
     (case raw of
        None \<Rightarrow> []
      | Some s \<Rightarrow> if s = [] then []
          else take 32 (filter isSafeWatchPath (map js_trim (split_on (\<lambda>c. c = CHR 0x0A \<or> c = CHR 0x2C) s))))"

subsection \<open>What a row holds\<close>

text \<open>The declarative reading of the tokens, and its three recursions on the text.\<close>

fun token_matches :: "glob_token \<Rightarrow> string \<Rightarrow> bool" where
  "token_matches StarDir t \<longleftrightarrow> t = [] \<or> last t = slash"
| "token_matches Star2 t \<longleftrightarrow> True"
| "token_matches Star1 t \<longleftrightarrow> list_all (\<lambda>c. c \<noteq> slash) t"
| "token_matches Any1 t \<longleftrightarrow> (\<exists>c. t = [c] \<and> c \<noteq> slash)"
| "token_matches (Lit d) t \<longleftrightarrow> t = [d]"

lemma splits_over_Cons:
  "splits_over m (p # ps) t \<longleftrightarrow> (\<exists>u v. t = u @ v \<and> m p u \<and> splits_over m ps v)"
proof
  assume "splits_over m (p # ps) t"
  then show "\<exists>u v. t = u @ v \<and> m p u \<and> splits_over m ps v"
    by (auto simp: list_ex_iff) (metis append_take_drop_id)+
next
  assume "\<exists>u v. t = u @ v \<and> m p u \<and> splits_over m ps v"
  then obtain u v where "t = u @ v" "m p u" "splits_over m ps v" by blast
  then show "splits_over m (p # ps) t"
    by (auto simp: list_ex_iff intro!: bexI [of _ "length u"])
qed

declare splits_over.simps(2) [simp del]

text \<open>The row of a predicate on the rest of the text.\<close>

definition row_of :: "(string \<Rightarrow> bool) \<Rightarrow> string \<Rightarrow> bool list" where
  "row_of P t = map P (rev (suffixes t))"

lemma row_of_simps [simp]: "row_of P [] = [P []]" "row_of P (c # cs) = P (c # cs) # row_of P cs"
  by (simp_all add: row_of_def)

lemma row_of_not_Nil [simp]: "row_of P t \<noteq> []"
  by (cases t) simp_all

lemma hd_row_of [simp]: "hd (row_of P t) = P t"
  by (cases t) simp_all

lemma row_of_base: "replicate (length t) False @ [True] = row_of (\<lambda>v. v = []) t"
  by (induction t) simp_all

definition then_matches :: "(string \<Rightarrow> bool) \<Rightarrow> (string \<Rightarrow> bool) \<Rightarrow> string \<Rightarrow> bool" where
  "then_matches A B t \<longleftrightarrow> (\<exists>u v. t = u @ v \<and> A u \<and> B v)"

lemma then_Nil: "then_matches A B [] \<longleftrightarrow> A [] \<and> B []"
  by (simp add: then_matches_def)

lemma then_Cons: "then_matches A B (c # cs) \<longleftrightarrow> A [] \<and> B (c # cs) \<or> then_matches (\<lambda>u. A (c # u)) B cs"
  by (auto simp: then_matches_def Cons_eq_append_conv)

lemma then_single: "then_matches (\<lambda>u. \<exists>c. u = [c] \<and> ok c) B (a # t) \<longleftrightarrow> ok a \<and> B t"
  by (auto simp: then_matches_def intro: exI [of _ "[a]"])

lemma row_one_row: "row_one ok t (row_of B t) = row_of (then_matches (\<lambda>u. \<exists>c. u = [c] \<and> ok c) B) t"
  by (induction t) (simp_all add: then_Nil then_single)

lemma row_star_row:
  "row_star deep t (row_of B t) = row_of (then_matches (list_all (\<lambda>c. deep \<or> c \<noteq> slash)) B) t"
proof (induction t)
  case (Cons c cs)
  have "then_matches (\<lambda>u. (deep \<or> c \<noteq> slash) \<and> list_all (\<lambda>c. deep \<or> c \<noteq> slash) u) B cs \<longleftrightarrow>
      (deep \<or> c \<noteq> slash) \<and> then_matches (list_all (\<lambda>c. deep \<or> c \<noteq> slash)) B cs"
    by (auto simp: then_matches_def)
  then show ?case using Cons by (simp add: then_Cons Let_def)
qed (simp add: then_Nil)

definition after_slash :: "(string \<Rightarrow> bool) \<Rightarrow> string \<Rightarrow> bool" where
  "after_slash B t \<longleftrightarrow> (\<exists>u v. t = u @ slash # v \<and> B v)"

lemma after_slash_simps: "after_slash B [] = False"
  "after_slash B (c # cs) \<longleftrightarrow> c = slash \<and> B cs \<or> after_slash B cs"
  by (auto simp: after_slash_def Cons_eq_append_conv)

lemma row_dir_row: "row_dir t (row_of B t) = (row_of (\<lambda>v. B v \<or> after_slash B v) t, after_slash B t)"
  by (induction t) (auto simp: after_slash_simps Let_def)

lemma dir_then: "then_matches (token_matches StarDir) B t \<longleftrightarrow> B t \<or> after_slash B t"
proof
  assume "then_matches (token_matches StarDir) B t"
  then obtain u v where "t = u @ v" "u = [] \<or> last u = slash" "B v" by (auto simp: then_matches_def)
  then show "B t \<or> after_slash B t"
    unfolding after_slash_def by (cases u rule: rev_cases) auto
next
  assume "B t \<or> after_slash B t"
  then show "then_matches (token_matches StarDir) B t"
  proof
    assume "B t" then show ?thesis unfolding then_matches_def by (intro exI [of _ "[]"] exI [of _ t]) simp
  next
    assume "after_slash B t"
    then obtain u v where "t = u @ slash # v" "B v" by (auto simp: after_slash_def)
    then show ?thesis unfolding then_matches_def by (intro exI [of _ "u @ [slash]"] exI [of _ v]) simp
  qed
qed

lemma token_row_row: "token_row tok t (row_of B t) = row_of (then_matches (token_matches tok) B) t"
proof (cases tok)
  case StarDir
  have "then_matches (token_matches StarDir) B = (\<lambda>v. B v \<or> after_slash B v)"
    by (rule ext) (rule dir_then)
  then show ?thesis by (simp only: StarDir token_row.simps row_dir_row fst_conv)
next
  case (Lit d)
  have "token_matches (Lit d) = (\<lambda>u. \<exists>c. u = [c] \<and> c = d)" by (rule ext) simp
  then show ?thesis by (simp only: Lit token_row.simps row_one_row)
next
  case Any1
  have "token_matches Any1 = (\<lambda>u. \<exists>c. u = [c] \<and> c \<noteq> slash)" by (rule ext) simp
  then show ?thesis by (simp only: Any1 token_row.simps row_one_row)
next
  case Star1
  have "token_matches Star1 = list_all (\<lambda>c. False \<or> c \<noteq> slash)" by (rule ext) simp
  then show ?thesis by (simp only: Star1 token_row.simps row_star_row)
next
  case Star2
  have "token_matches Star2 = list_all (\<lambda>c. True \<or> c \<noteq> slash)" by (rule ext) (simp add: list_all_iff)
  then show ?thesis by (simp only: Star2 token_row.simps row_star_row)
qed

lemma globMatches_tokens: "globMatches pattern t \<longleftrightarrow> splits_over token_matches (tokenizeGlob pattern) t"
proof -
  have "foldr (\<lambda>tok nxt. token_row tok t nxt) toks (replicate (length t) False @ [True])
      = row_of (splits_over token_matches toks) t" for toks
  proof (induction toks)
    case Nil
    have "splits_over token_matches [] = (\<lambda>v. v = [])" by (rule ext) simp
    then show ?case by (simp add: row_of_base)
  next
    case (Cons tok toks)
    have "then_matches (token_matches tok) (splits_over token_matches toks) = splits_over token_matches (tok # toks)"
      by (rule ext) (simp add: then_matches_def splits_over_Cons)
    then show ?case by (simp only: foldr.simps comp_apply Cons.IH token_row_row)
  qed
  then show ?thesis by (simp add: globMatches_def)
qed

subsection \<open>The matcher and the regular expression\<close>

text \<open>Both compile a pattern by the same folding rules, so the two lists go in step.\<close>

fun token_of :: "piece \<Rightarrow> glob_token" where
  "token_of PDir = StarDir"
| "token_of PDeep = Star2"
| "token_of PSegs = Star1"
| "token_of PSeg = Any1"
| "token_of (PLit c) = Lit c"

lemma tokenize_compile: "tokenizeGlob src = map token_of (compile_glob src)"
  by (induction src rule: compile_glob.induct) (auto split: list.split)

lemma piece_token:
  "list_all (\<lambda>c. \<not> line_end c) u \<Longrightarrow> piece_matches p u \<longleftrightarrow> token_matches (token_of p) u"
  by (cases p) (auto simp: list_all_iff dest: in_set_butlastD)

lemma splits_over_map:
  assumes "\<And>p u. list_all ok u \<Longrightarrow> m p u \<longleftrightarrow> m' (f p) u" and "list_all ok t"
  shows "splits_over m ps t \<longleftrightarrow> splits_over m' (map f ps) t"
  using assms(2)
proof (induction ps arbitrary: t)
  case (Cons p ps)
  have "m p u \<and> splits_over m ps v \<longleftrightarrow> m' (f p) u \<and> splits_over m' (map f ps) v" if "t = u @ v" for u v
    using Cons that assms(1) by auto
  then show ?case by (auto simp: splits_over_Cons)
qed simp

lemma splits_over_mono:
  assumes "\<And>p u. m p u \<Longrightarrow> m' (f p) u"
  shows "splits_over m ps t \<Longrightarrow> splits_over m' (map f ps) t"
  using assms by (induction ps arbitrary: t) (simp, unfold list.map splits_over_Cons, blast)

lemma piece_implies_token: "piece_matches p u \<Longrightarrow> token_matches (token_of p) u"
  by (cases p) auto

text \<open>
  Claim C28. The bounded matcher and the regular expression it replaced accept the same paths,
  for every pattern and every path without a line terminator; with one, the matcher accepts
  whatever the expression accepts.
\<close>

theorem matcher_agrees_with_regexp:
  "(list_all (\<lambda>c. \<not> line_end c) t \<longrightarrow> globMatches (strip_slashes pattern) t = regexp_test pattern t) \<and>
   (regexp_test pattern t \<longrightarrow> globMatches (strip_slashes pattern) t)"
proof -
  have "globMatches (strip_slashes pattern) t = regexp_test pattern t" if "list_all (\<lambda>c. \<not> line_end c) t"
    using splits_over_map [where ok = "\<lambda>c. \<not> line_end c" and m = piece_matches and f = token_of, OF piece_token that]
    by (simp add: regexp_test_def globMatches_tokens tokenize_compile)
  moreover have "globMatches (strip_slashes pattern) t" if "regexp_test pattern t"
    using splits_over_mono [where m = piece_matches and f = token_of and m' = token_matches] piece_implies_token that
    by (simp add: regexp_test_def globMatches_tokens tokenize_compile)
  ultimately show ?thesis by blast
qed

theorem matcher_agrees_with_regexp_witness: "regexp_test ''/a/**/*.ts'' ''a/b.ts''"
proof -
  have "globMatches (strip_slashes ''/a/**/*.ts'') ''a/b.ts''"
    by (simp add: globMatches_def strip_slashes_def is_star_def is_quest_def slash_def)
  moreover have "list_all (\<lambda>c. \<not> line_end c) ''a/b.ts''" by (simp add: line_end_def)
  ultimately show ?thesis using matcher_agrees_with_regexp [of "''a/b.ts''" "''/a/**/*.ts''"] by simp
qed

text \<open>
  The two are not the same on every path: \<open>**\<close> of the matcher crosses a newline, the
  expression's \<open>.*\<close> does not, so a changed file whose name holds a newline triggers a deploy
  under the matcher only.
\<close>

lemma matcher_crosses_newlines:
  "globMatches ''**'' [CHR 0x61, CHR 0x0A, CHR 0x62] \<and> \<not> regexp_test ''**'' [CHR 0x61, CHR 0x0A, CHR 0x62]"
  by (simp add: globMatches_def regexp_test_def strip_slashes_def is_star_def is_quest_def slash_def
      line_end_def splits_over_Cons)

text \<open>
  A path is matched by a list of patterns exactly if it is too long to be matched within the
  budget or one pattern within the budget matches it, leading slashes ignored on both sides.
\<close>

lemma matchesAny_exact:
  "matchesAny path patterns \<longleftrightarrow>
     4096 < length (strip_slashes path) \<or>
     (\<exists>p \<in> set patterns. isSafeWatchPath p \<and>
        splits_over token_matches (tokenizeGlob (strip_slashes p)) (strip_slashes path))"
  by (auto simp: matchesAny_def Let_def MAX_MATCH_INPUT_def globMatches_tokens list_ex_iff)

text \<open>
  Whatever a watch-paths field holds, at most 32 patterns come out, each one a trimmed
  part of the field within the budget (1 to 256 characters, at most 16 wildcards and 4 double
  stars), and no part within the budget is lost before the 32nd.
\<close>

theorem watch_paths_bounded:
  "length (parseWatchPaths raw) \<le> 32 \<and>
   (\<forall>p \<in> set (parseWatchPaths raw). 0 < length p \<and> length p \<le> 256 \<and> count_pairs p \<le> 4 \<and>
      length (filter (\<lambda>c. is_quest c \<or> is_star c) p) \<le> 16) \<and>
   (raw = Some s \<longrightarrow> length (parseWatchPaths raw) < 32 \<longrightarrow>
      (\<forall>w \<in> set (split_on (\<lambda>c. c = CHR 0x0A \<or> c = CHR 0x2C) s).
         isSafeWatchPath (js_trim w) \<longrightarrow> js_trim w \<in> set (parseWatchPaths raw)))"
proof -
  have safe: "isSafeWatchPath p" if "p \<in> set (parseWatchPaths raw)" for p
    using that by (auto simp: parseWatchPaths_def dest: in_set_takeD split: option.splits if_splits)
  have "0 < length p \<and> length p \<le> 256 \<and> count_pairs p \<le> 4 \<and>
      length (filter (\<lambda>c. is_quest c \<or> is_star c) p) \<le> 16" if "p \<in> set (parseWatchPaths raw)" for p
    using safe [OF that] by (simp add: isSafeWatchPath_def split: if_splits)
  moreover have "js_trim w \<in> set (parseWatchPaths raw)"
    if "raw = Some s" "length (parseWatchPaths raw) < 32"
      "w \<in> set (split_on (\<lambda>c. c = CHR 0x0A \<or> c = CHR 0x2C) s)" "isSafeWatchPath (js_trim w)" for w
  proof (cases "s = []")
    case True
    then show ?thesis using that by (simp add: js_trim_def isSafeWatchPath_def)
  next
    case False
    then show ?thesis using that by (auto simp: parseWatchPaths_def)
  qed
  moreover have "length (parseWatchPaths raw) \<le> 32"
    by (simp add: parseWatchPaths_def split: option.split)
  ultimately show ?thesis by blast
qed

theorem watch_paths_bounded_witness:
  "parseWatchPaths (Some ''src/**,docs'') = [''src/**'', ''docs''] \<and>
   ''docs'' \<in> set (parseWatchPaths (Some ''src/**,docs''))"
proof
  have parts: "split_on (\<lambda>c. c = CHR 0x0A \<or> c = CHR 0x2C) ''src/**,docs'' = [''src/**'', ''docs'']" by simp
  have trims: "js_trim ''src/**'' = ''src/**''" "js_trim ''docs'' = ''docs''"
    by (simp_all add: js_trim_def js_space_def)
  have safe: "isSafeWatchPath ''src/**''" "isSafeWatchPath ''docs''"
    by (simp_all add: isSafeWatchPath_def is_star_def is_quest_def)
  show run: "parseWatchPaths (Some ''src/**,docs'') = [''src/**'', ''docs'']"
    by (simp only: parseWatchPaths_def parts option.case list.map trims filter.simps safe) simp
  show "''docs'' \<in> set (parseWatchPaths (Some ''src/**,docs''))"
    using watch_paths_bounded [of "Some ''src/**,docs''" "''src/**,docs''"] safe trims(2)
    by (simp add: run parts)
qed

end
