(* ===== verification/RestartLimit.thy ===== *)
theory RestartLimit
  imports Prelude
begin

text \<open>
  The restart-loop limit (\<open>apps/server/src/lib/restartLimit.ts\<close>): the settings rows that hold the
  limits, the in-memory history of observed restarts, and the pass that stops a looping service.
  What Docker or PM2 reports for a service is an argument; a row's key is the service id, its
  \<open>trippedAt\<close> the time in milliseconds. Rows of the services table are keyed by id.
\<close>

subsection \<open>State\<close>

record limit_config =
  maxRestarts :: int
  windowMinutes :: int

record stored_limit = limit_config +
  trippedAt :: "ms option"

datatype service_type = Docker | Pm2 | OtherType
datatype orchestrator = Swarm | OtherOrchestrator
datatype service_status = Running | Stopped | OtherStatus

record limited_service =
  sv_type :: service_type
  sv_server :: "int option"
  sv_orchestrator :: orchestrator
  sv_runtime :: "string option"
  sv_status :: service_status
  sv_asleep :: "ms option"

record restart_history =
  rh_counts :: "(string \<times> int) list"
  rh_restarts :: "ms list"

record limit_state =
  ls_rows :: "(int \<times> stored_limit) list"
  ls_services :: "(int \<times> limited_service) list"
  ls_history :: "(int \<times> restart_history) list"

definition valid_limit :: "limit_config \<Rightarrow> bool" where
  "valid_limit c \<longleftrightarrow> 2 \<le> maxRestarts c \<and> maxRestarts c \<le> 100 \<and> 1 \<le> windowMinutes c \<and> windowMinutes c \<le> 1440"

definition config_of :: "stored_limit \<Rightarrow> limit_config" where
  "config_of r = \<lparr>maxRestarts = maxRestarts r, windowMinutes = windowMinutes r\<rparr>"

definition with_trip :: "limit_config \<Rightarrow> ms option \<Rightarrow> stored_limit" where
  "with_trip c t = \<lparr>maxRestarts = maxRestarts c, windowMinutes = windowMinutes c, trippedAt = t\<rparr>"

subsection \<open>Operations\<close>

definition getRestartLimit :: "int \<Rightarrow> limit_state \<Rightarrow> stored_limit option" where
  "getRestartLimit i s =
     (case map_of (ls_rows s) i of
        None \<Rightarrow> None
      | Some raw \<Rightarrow> if valid_limit (config_of raw) then Some (with_trip (config_of raw) (trippedAt raw)) else None)"

text \<open>\<open>Inl\<close>: \<open>restartLimitConfig.parse\<close> throws.\<close>

definition setRestartLimit :: "int \<Rightarrow> limit_config option \<Rightarrow> limit_state \<Rightarrow> unit + limit_state" where
  "setRestartLimit i limit s =
     (case limit of
        None \<Rightarrow> Inr (s\<lparr>ls_rows := AList.delete i (ls_rows s), ls_history := AList.delete i (ls_history s)\<rparr>)
      | Some c \<Rightarrow>
          if \<not> valid_limit c then Inl ()
          else Inr (s\<lparr>ls_rows := AList.update i
            (with_trip c (case getRestartLimit i s of None \<Rightarrow> None | Some p \<Rightarrow> trippedAt p)) (ls_rows s)\<rparr>))"

definition restartLimitSupported :: "limited_service \<Rightarrow> bool" where
  "restartLimitSupported svc \<longleftrightarrow>
     (sv_type svc = Docker \<or> sv_type svc = Pm2) \<and> sv_server svc = None \<and> sv_orchestrator svc \<noteq> Swarm"

definition in_window :: "int \<Rightarrow> ms \<Rightarrow> ms \<Rightarrow> bool" where
  "in_window minutes now t \<longleftrightarrow> t \<ge> now - minutes * 60000"

definition restartLimitView :: "stored_limit option \<Rightarrow> int \<Rightarrow> ms \<Rightarrow> limit_state \<Rightarrow> limit_config option \<times> nat \<times> ms option" where
  "restartLimitView stored i now s =
     (map_option config_of stored,
      (case (stored, map_of (ls_history s) i) of
         (Some l, Some h) \<Rightarrow> length (filter (in_window (windowMinutes l) now) (rh_restarts h))
       | _ \<Rightarrow> 0),
      (case stored of None \<Rightarrow> None | Some l \<Rightarrow> trippedAt l))"

text \<open>One container of a sample.\<close>

definition record_one :: "limit_config \<Rightarrow> ms \<Rightarrow> restart_history \<Rightarrow> string \<times> int \<Rightarrow> restart_history" where
  "record_one limit now h entry =
     (case entry of (i, count) \<Rightarrow>
        let new = (case map_of (rh_counts h) i of
            None \<Rightarrow> 0 | Some before \<Rightarrow> if count > before then nat (min (count - before) (maxRestarts limit)) else 0)
        in \<lparr>rh_counts = AList.update i count (rh_counts h), rh_restarts = rh_restarts h @ replicate new now\<rparr>)"

definition recordRestarts ::
  "int \<Rightarrow> (string \<times> int) list \<Rightarrow> limit_config \<Rightarrow> ms \<Rightarrow> (int \<times> restart_history) list \<Rightarrow>
     bool \<times> (int \<times> restart_history) list"
where
  "recordRestarts i sample limit now history =
     (let h0 = (case map_of history i of None \<Rightarrow> \<lparr>rh_counts = [], rh_restarts = []\<rparr> | Some h \<Rightarrow> h);
          h1 = foldl (record_one limit now) h0 sample;
          h2 = \<lparr>rh_counts = filter (\<lambda>(k, v). map_of sample k \<noteq> None) (rh_counts h1),
                rh_restarts = filter (in_window (windowMinutes limit) now) (rh_restarts h1)\<rparr>
      in (int (length (rh_restarts h2)) \<ge> maxRestarts limit, AList.update i h2 history))"

definition resetRestartHistory :: "int option \<Rightarrow> limit_state \<Rightarrow> limit_state" where
  "resetRestartHistory i s =
     (case i of None \<Rightarrow> s\<lparr>ls_history := []\<rparr> | Some k \<Rightarrow> s\<lparr>ls_history := AList.delete k (ls_history s)\<rparr>)"

definition has_runtime :: "limited_service \<Rightarrow> bool" where
  "has_runtime svc \<longleftrightarrow> sv_runtime svc \<noteq> None \<and> sv_runtime svc \<noteq> Some []"

text \<open>The writes of a trip: the service row, then - after the stop - the settings row and the history.\<close>

definition trip_stop :: "int \<Rightarrow> limited_service \<Rightarrow> limit_state \<Rightarrow> limit_state" where
  "trip_stop i svc s =
     s\<lparr>ls_services := AList.update i (svc\<lparr>sv_status := Stopped, sv_asleep := None\<rparr>) (ls_services s)\<rparr>"

definition trip_record :: "int \<Rightarrow> stored_limit \<Rightarrow> ms \<Rightarrow> limit_state \<Rightarrow> limit_state" where
  "trip_record i limit now s =
     s\<lparr>ls_rows := AList.update i (with_trip (config_of limit) (Some now)) (ls_rows s),
       ls_history := AList.delete i (ls_history s)\<rparr>"

text \<open>One service of a pass; the flag says whether it was stopped.\<close>

definition enforce_one ::
  "(int \<Rightarrow> (string \<times> int) list) \<Rightarrow> int set \<Rightarrow> ms \<Rightarrow> int \<Rightarrow> limit_state \<Rightarrow> bool \<times> limit_state"
where
  "enforce_one sample busy now i s =
     (case (map_of (ls_services s) i, getRestartLimit i s) of
        (Some svc, Some limit) \<Rightarrow>
          if \<not> restartLimitSupported svc \<or> \<not> has_runtime svc \<or> sv_status svc \<noteq> Running
          then (False, s\<lparr>ls_history := AList.delete i (ls_history s)\<rparr>)
          else if i \<in> busy then (False, s)
          else (case recordRestarts i (sample i) (config_of limit) now (ls_history s) of (hit, history) \<Rightarrow>
            let s1 = s\<lparr>ls_history := history\<rparr> in
            if \<not> hit then (False, s1)
            else (True, trip_record i limit now (trip_stop i svc s1)))
      | _ \<Rightarrow> (False, s))"

fun enforce_ids ::
  "(int \<Rightarrow> (string \<times> int) list) \<Rightarrow> int set \<Rightarrow> ms \<Rightarrow> int list \<Rightarrow> limit_state \<Rightarrow> int list \<times> limit_state"
where
  "enforce_ids sample busy now [] s = ([], s)"
| "enforce_ids sample busy now (i # is) s =
     (case enforce_one sample busy now i s of (hit, s1) \<Rightarrow>
        case enforce_ids sample busy now is s1 of (stopped, s2) \<Rightarrow>
          ((if hit then [i] else []) @ stopped, s2))"

definition enforceRestartLimits ::
  "(int \<Rightarrow> (string \<times> int) list) \<Rightarrow> int set \<Rightarrow> ms \<Rightarrow> limit_state \<Rightarrow> int list \<times> limit_state"
where
  "enforceRestartLimits sample busy now s =
     (let ids = filter (\<lambda>n. n > 0) (map fst (ls_rows s)) in
      if ids = [] then ([], s) else enforce_ids sample busy now ids s)"

subsection \<open>What a sample records\<close>

interpretation restart_window: sliding_window "\<lambda>now. filter (in_window minutes now)" "\<lambda>t. t"
  "in_window minutes" "\<lambda>_. True" for minutes
proof (unfold_locales, goal_cases)
  case 2
  then show ?case by (simp add: in_window_def)
qed simp_all

text \<open>The restarts a sample shows over a baseline: of known containers only, and never negative.\<close>

definition shown :: "(string \<times> int) list \<Rightarrow> (string \<times> int) list \<Rightarrow> int" where
  "shown counts sample =
     (\<Sum>(i, n) \<leftarrow> sample. case map_of counts i of None \<Rightarrow> 0 | Some b \<Rightarrow> max 0 (n - b))"

definition capped :: "int \<Rightarrow> (string \<times> int) list \<Rightarrow> (string \<times> int) list \<Rightarrow> int" where
  "capped m counts sample =
     (\<Sum>(i, n) \<leftarrow> sample. case map_of counts i of None \<Rightarrow> 0 | Some b \<Rightarrow> min m (max 0 (n - b)))"

lemma capped_nonneg: "0 \<le> m \<Longrightarrow> 0 \<le> capped m counts sample"
  unfolding capped_def by (rule sum_list_nonneg) (auto split: option.split)

lemma shown_nonneg: "0 \<le> shown counts sample"
  unfolding shown_def by (rule sum_list_nonneg) (auto split: option.split)

lemma capped_update_other:
  "i \<notin> fst ` set sample \<Longrightarrow> capped m (AList.update i n counts) sample = capped m counts sample"
  unfolding capped_def by (intro arg_cong [of _ _ sum_list] map_cong) (auto simp: image_iff)

lemma record_sample:
  assumes "map_ok sample" and "0 \<le> maxRestarts limit"
  shows "(\<forall>k. map_of (rh_counts (foldl (record_one limit now) h sample)) k =
      (case map_of sample k of None \<Rightarrow> map_of (rh_counts h) k | Some n \<Rightarrow> Some n)) \<and>
    rh_restarts (foldl (record_one limit now) h sample) =
      rh_restarts h @ replicate (nat (capped (maxRestarts limit) (rh_counts h) sample)) now"
  using assms
proof (induction sample arbitrary: h)
  case (Cons e sample)
  obtain i n where e: "e = (i, n)" by (cases e)
  have fresh: "i \<notin> fst ` set sample" and ok: "map_ok sample" using Cons.prems(1) by (auto simp: map_ok_def e)
  let ?h = "record_one limit now h e"
  have counts: "rh_counts ?h = AList.update i n (rh_counts h)" by (simp add: record_one_def e Let_def)
  let ?x = "case map_of (rh_counts h) i of None \<Rightarrow> 0 | Some b \<Rightarrow> min (maxRestarts limit) (max 0 (n - b))"
  have x: "0 \<le> ?x" using Cons.prems(2) by (simp split: option.split)
  have new: "rh_restarts ?h = rh_restarts h @ replicate (nat ?x) now"
    using Cons.prems(2) by (auto simp: record_one_def e Let_def min.commute split: option.split)
  have cap: "capped (maxRestarts limit) (rh_counts h) (e # sample) =
      ?x + capped (maxRestarts limit) (rh_counts ?h) sample"
    by (simp add: counts capped_update_other [OF fresh]) (simp add: capped_def e)
  have none: "map_of sample i = None" using fresh by (simp add: map_of_eq_None_iff)
  note IH = Cons.IH [OF ok Cons.prems(2), of ?h]
  have "rh_restarts (foldl (record_one limit now) h (e # sample)) =
      rh_restarts h @ replicate (nat ?x) now @ replicate (nat (capped (maxRestarts limit) (rh_counts ?h) sample)) now"
    using IH by (simp add: new)
  also have "\<dots> = rh_restarts h @ replicate (nat (capped (maxRestarts limit) (rh_counts h) (e # sample))) now"
    using x capped_nonneg [OF Cons.prems(2)] by (simp add: cap nat_add_distrib replicate_add)
  finally have restarts: "rh_restarts (foldl (record_one limit now) h (e # sample)) = \<dots>" .
  have "map_of (rh_counts (foldl (record_one limit now) h (e # sample))) k =
      (case map_of (e # sample) k of None \<Rightarrow> map_of (rh_counts h) k | Some n \<Rightarrow> Some n)" for k
    using IH none counts by (simp add: e split: option.split)
  then show ?case using restarts by blast
qed (simp add: capped_def)

lemma capped_decides:
  assumes "0 \<le> old" and "0 \<le> m"
  shows "m \<le> old + capped m counts sample \<longleftrightarrow> m \<le> old + shown counts sample"
proof (cases "\<exists>(i, n) \<in> set sample. \<exists>b. map_of counts i = Some b \<and> m \<le> n - b")
  case True
  then obtain i n b where e: "(i, n) \<in> set sample" "map_of counts i = Some b" "m \<le> n - b" by blast
  have "m \<le> capped m counts sample" unfolding capped_def
  proof (rule order_trans [OF _ member_le_sum_list])
    show "(\<lambda>(i, n). case map_of counts i of None \<Rightarrow> 0 | Some b \<Rightarrow> min m (max 0 (n - b))) (i, n)
      \<in> set (map (\<lambda>(i, n). case map_of counts i of None \<Rightarrow> 0 | Some b \<Rightarrow> min m (max 0 (n - b))) sample)"
      using e(1) by force
  qed (use e assms(2) in \<open>auto split: option.split\<close>)
  moreover have "capped m counts sample \<le> shown counts sample" unfolding capped_def shown_def
    by (rule sum_list_mono) (auto split: option.split)
  ultimately show ?thesis using assms by simp
next
  case False
  have "capped m counts sample = shown counts sample" unfolding capped_def shown_def
    using False assms(2) by (intro arg_cong [of _ _ sum_list] map_cong) (fastforce split: option.split)+
  then show ?thesis by simp
qed

definition history_at :: "int \<Rightarrow> (int \<times> restart_history) list \<Rightarrow> restart_history" where
  "history_at i history = (case map_of history i of None \<Rightarrow> \<lparr>rh_counts = [], rh_restarts = []\<rparr> | Some h \<Rightarrow> h)"

lemma filter_replicate_all: "P x \<Longrightarrow> filter P (replicate n x) = replicate n x"
  by (induction n) simp_all

lemma recordRestarts_spec:
  assumes "map_ok sample" and "valid_limit limit"
    and "recordRestarts i sample limit now history = (hit, history')"
  shows "hit \<longleftrightarrow> maxRestarts limit \<le>
      int (length (filter (in_window (windowMinutes limit) now) (rh_restarts (history_at i history)))) +
      shown (rh_counts (history_at i history)) sample"
    and "map_of (rh_counts (history_at i history')) k = map_of sample k"
    and "j \<noteq> i \<Longrightarrow> map_of history' j = map_of history j"
proof -
  let ?h = "history_at i history"
  let ?h1 = "foldl (record_one limit now) ?h sample"
  let ?w = "in_window (windowMinutes limit) now"
  have max: "0 \<le> maxRestarts limit" and now: "?w now" using assms(2) by (simp_all add: valid_limit_def in_window_def)
  note rec = record_sample [OF assms(1) max, of now ?h]
  have run: "hit = (maxRestarts limit \<le> int (length (filter ?w (rh_restarts ?h1))))"
    "history' = AList.update i \<lparr>rh_counts = filter (\<lambda>(k, v). map_of sample k \<noteq> None) (rh_counts ?h1),
       rh_restarts = filter ?w (rh_restarts ?h1)\<rparr> history"
    using assms(3) by (auto simp: recordRestarts_def history_at_def Let_def)
  have "int (length (filter ?w (rh_restarts ?h1))) =
      int (length (filter ?w (rh_restarts ?h))) + capped (maxRestarts limit) (rh_counts ?h) sample"
    using rec capped_nonneg [OF max] now by (simp add: filter_replicate_all)
  then show "hit \<longleftrightarrow> maxRestarts limit \<le> int (length (filter ?w (rh_restarts ?h))) + shown (rh_counts ?h) sample"
    using capped_decides [OF _ max, of "int (length (filter ?w (rh_restarts ?h)))"] by (simp add: run(1))
  show "map_of (rh_counts (history_at i history')) k = map_of sample k"
    using rec by (simp add: run(2) history_at_def map_of_filter_key split: option.split)
  show "map_of history' j = map_of history j" if "j \<noteq> i" using that by (simp add: run(2))
qed

subsection \<open>What a pass does\<close>

text \<open>The service \<open>i\<close> would be sampled: a limit, a supported running service, no deploy under way.\<close>

definition sampled :: "int set \<Rightarrow> int \<Rightarrow> limit_state \<Rightarrow> bool" where
  "sampled busy i s \<longleftrightarrow> getRestartLimit i s \<noteq> None \<and> i \<notin> busy \<and>
     (case map_of (ls_services s) i of None \<Rightarrow> False
      | Some svc \<Rightarrow> restartLimitSupported svc \<and> has_runtime svc \<and> sv_status svc = Running)"

definition looping :: "(int \<Rightarrow> (string \<times> int) list) \<Rightarrow> ms \<Rightarrow> int \<Rightarrow> limit_state \<Rightarrow> bool" where
  "looping sample now i s \<longleftrightarrow>
     (case getRestartLimit i s of None \<Rightarrow> False
      | Some l \<Rightarrow> maxRestarts l \<le>
          int (length (filter (in_window (windowMinutes l) now) (rh_restarts (history_at i (ls_history s))))) +
          shown (rh_counts (history_at i (ls_history s))) (sample i))"

text \<open>What the pass leaves of service \<open>i\<close>.\<close>

definition stopped_as_limit :: "ms \<Rightarrow> int \<Rightarrow> limit_state \<Rightarrow> limit_state \<Rightarrow> bool" where
  "stopped_as_limit now i s t \<longleftrightarrow>
     map_of (ls_services t) i = map_option (\<lambda>svc. svc\<lparr>sv_status := Stopped, sv_asleep := None\<rparr>) (map_of (ls_services s) i) \<and>
     map_of (ls_rows t) i = map_option (\<lambda>l. with_trip (config_of l) (Some now)) (getRestartLimit i s) \<and>
     map_of (ls_history t) i = None"

definition same_at :: "int \<Rightarrow> limit_state \<Rightarrow> limit_state \<Rightarrow> bool" where
  "same_at i s t \<longleftrightarrow> map_of (ls_services t) i = map_of (ls_services s) i \<and> map_of (ls_rows t) i = map_of (ls_rows s) i"

lemma getRestartLimit_valid: "getRestartLimit i s = Some l \<Longrightarrow> valid_limit (config_of l)"
  by (auto simp: getRestartLimit_def with_trip_def config_of_def split: option.splits if_splits)

lemma config_of_fields [simp]:
  "maxRestarts (config_of l) = maxRestarts l" "windowMinutes (config_of l) = windowMinutes l"
  by (simp_all add: config_of_def)

lemma enforce_one_other:
  assumes "enforce_one sample busy now i s = (hit, t)" and "j \<noteq> i"
  shows "map_of (ls_services t) j = map_of (ls_services s) j \<and> map_of (ls_rows t) j = map_of (ls_rows s) j \<and>
    map_of (ls_history t) j = map_of (ls_history s) j"
  using assms
  by (auto simp: enforce_one_def trip_record_def trip_stop_def recordRestarts_def Let_def
      split: option.splits if_splits)

lemma enforce_one_self:
  assumes "enforce_one sample busy now i s = (hit, t)" and "map_ok (sample i)"
  shows "hit \<longleftrightarrow> sampled busy i s \<and> looping sample now i s"
    and "if hit then stopped_as_limit now i s t else same_at i s t"
proof -
  show "hit \<longleftrightarrow> sampled busy i s \<and> looping sample now i s"
  proof (cases "sampled busy i s")
    case False
    then show ?thesis using assms(1) by (auto simp: enforce_one_def sampled_def split: option.splits if_splits)
  next
    case True
    then obtain svc l where row: "map_of (ls_services s) i = Some svc" "getRestartLimit i s = Some l"
        "restartLimitSupported svc" "has_runtime svc" "sv_status svc = Running" "i \<notin> busy"
      by (auto simp: sampled_def split: option.splits)
    obtain h history' where rec: "recordRestarts i (sample i) (config_of l) now (ls_history s) = (h, history')"
      by (cases "recordRestarts i (sample i) (config_of l) now (ls_history s)")
    have "hit = h" using assms(1) row rec by (auto simp: enforce_one_def Let_def split: if_splits)
    then show ?thesis
      using True recordRestarts_spec(1) [OF assms(2) getRestartLimit_valid [OF row(2)] rec]
      by (simp add: looping_def row(2))
  qed
  show "if hit then stopped_as_limit now i s t else same_at i s t"
    using assms(1)
    by (auto simp: enforce_one_def stopped_as_limit_def same_at_def trip_record_def trip_stop_def Let_def
        split: option.splits if_splits prod.splits)
qed

lemma getRestartLimit_cong: "map_of (ls_rows t) i = map_of (ls_rows s) i \<Longrightarrow> getRestartLimit i t = getRestartLimit i s"
  by (simp add: getRestartLimit_def)

lemma enforce_ids_other:
  assumes "enforce_ids sample busy now is s = (stopped, t)" and "j \<notin> set is"
  shows "map_of (ls_services t) j = map_of (ls_services s) j \<and> map_of (ls_rows t) j = map_of (ls_rows s) j \<and>
    map_of (ls_history t) j = map_of (ls_history s) j \<and> j \<notin> set stopped"
  using assms
proof (induction "is" arbitrary: s stopped)
  case (Cons i "is")
  obtain hit s1 where one: "enforce_one sample busy now i s = (hit, s1)" by (cases "enforce_one sample busy now i s")
  obtain st where rest: "enforce_ids sample busy now is s1 = (st, t)" and st: "stopped = (if hit then [i] else []) @ st"
    using Cons.prems(1) one by (auto split: prod.splits)
  show ?case using Cons.IH [OF rest] enforce_one_other [OF one, of j] Cons.prems(2) st by auto
qed simp

lemma enforce_ids_each:
  assumes "enforce_ids sample busy now is s = (stopped, t)" and "distinct is" and "i \<in> set is"
    and "\<And>k. map_ok (sample k)"
  shows "(i \<in> set stopped \<longleftrightarrow> sampled busy i s \<and> looping sample now i s) \<and>
    (if i \<in> set stopped then stopped_as_limit now i s t else same_at i s t)"
  using assms(1-3)
proof (induction "is" arbitrary: s stopped)
  case (Cons k "is")
  obtain hit s1 where one: "enforce_one sample busy now k s = (hit, s1)" by (cases "enforce_one sample busy now k s")
  obtain st where rest: "enforce_ids sample busy now is s1 = (st, t)" and st: "stopped = (if hit then [k] else []) @ st"
    using Cons.prems(1) one by (auto split: prod.splits)
  show ?case
  proof (cases "i = k")
    case True
    then have "i \<notin> set is" using Cons.prems(2) by simp
    from enforce_ids_other [OF rest this] enforce_one_self [OF one assms(4)] show ?thesis
      by (auto simp: st True stopped_as_limit_def same_at_def)
  next
    case False
    note same = enforce_one_other [OF one False]
    have "history_at i (ls_history s1) = history_at i (ls_history s)" using same by (simp add: history_at_def)
    then have "sampled busy i s1 = sampled busy i s" "looping sample now i s1 = looping sample now i s"
      using same getRestartLimit_cong [of s1 i s] by (simp_all add: sampled_def looping_def cong: option.case_cong)
    then show ?thesis using Cons.IH [OF rest] Cons.prems False same getRestartLimit_cong [of s1 i s]
      by (auto simp: st stopped_as_limit_def same_at_def)
  qed
qed simp

subsection \<open>Properties\<close>

text \<open>
  Claim C29. A pass stops exactly the looping services it samples: those with a valid limit, on the
  panel host, running, with no deploy under way, whose restarts inside the window - the recorded
  ones and those the sample shows over the last counts of containers already known - reach the
  limit. Each of them ends stopped, with its limit kept and the trip recorded and its history
  cleared; every other service and limit is left as it was.
\<close>

theorem pass_stops_looping_services:
  assumes "enforceRestartLimits sample busy now s = (stopped, t)"
    and "map_ok (ls_rows s)" and "\<And>k. map_ok (sample k)"
  shows "(i \<in> set stopped \<longleftrightarrow> 0 < i \<and> sampled busy i s \<and> looping sample now i s) \<and>
    (if i \<in> set stopped then stopped_as_limit now i s t else same_at i s t)"
proof -
  let ?ids = "filter (\<lambda>n. n > 0) (map fst (ls_rows s))"
  have run: "enforce_ids sample busy now ?ids s = (stopped, t)"
    using assms(1) by (simp add: enforceRestartLimits_def Let_def split: if_splits)
  show ?thesis
  proof (cases "i \<in> set ?ids")
    case True
    have "distinct ?ids" using assms(2) by (simp add: map_ok_def)
    from enforce_ids_each [OF run this True assms(3)] True show ?thesis by simp
  next
    case False
    have "\<not> (0 < i \<and> sampled busy i s)"
    proof
      assume pos: "0 < i \<and> sampled busy i s"
      then have "map_of (ls_rows s) i \<noteq> None" by (auto simp: sampled_def getRestartLimit_def split: option.splits)
      then show False using pos False by (simp add: map_of_eq_None_iff)
    qed
    then show ?thesis using enforce_ids_other [OF run False] by (auto simp: same_at_def)
  qed
qed

text \<open>
  Sampling decides as if every restart were counted although at most the limit is
  recorded per container: the answer is whether the restarts in the window plus all the restarts
  the sample shows reach the limit; afterwards the baseline is the sample, so a container that is
  gone starts afresh, and no other service's history changes.
\<close>

theorem sample_decides_exactly:
  assumes "map_ok sample" and "valid_limit limit"
    and "recordRestarts i sample limit now history = (hit, history')"
  shows "(hit \<longleftrightarrow> maxRestarts limit \<le>
      int (length (filter (in_window (windowMinutes limit) now) (rh_restarts (history_at i history)))) +
      shown (rh_counts (history_at i history)) sample) \<and>
    (\<forall>k. map_of (rh_counts (history_at i history')) k = map_of sample k) \<and>
    (\<forall>j. j \<noteq> i \<longrightarrow> map_of history' j = map_of history j)"
  using recordRestarts_spec [OF assms] by blast

text \<open>
  A trip writes the limit it read before it stopped the service: when the limit is
  turned off while the stop runs, it is back afterwards.
\<close>

theorem turned_off_limit_comes_back:
  assumes "getRestartLimit i s = Some limit" and "setRestartLimit i None (trip_stop i svc s) = Inr off"
  shows "getRestartLimit i off = None \<and>
    getRestartLimit i (trip_record i limit now off) = Some (with_trip (config_of limit) (Some now)) \<and>
    (\<exists>t. setRestartLimit i None (trip_record i limit now (trip_stop i svc s)) = Inr t \<and> getRestartLimit i t = None)"
  using assms getRestartLimit_valid [OF assms(1)]
  by (auto simp: setRestartLimit_def getRestartLimit_def trip_record_def trip_stop_def with_trip_def config_of_def)

text \<open>A service with two restarts seen against a limit of two in five minutes.\<close>

definition loop_config :: limit_config where
  "loop_config = \<lparr>maxRestarts = 2, windowMinutes = 5\<rparr>"

definition loop_service :: limited_service where
  "loop_service = \<lparr>sv_type = Docker, sv_server = None, sv_orchestrator = OtherOrchestrator,
     sv_runtime = Some ''web'', sv_status = Running, sv_asleep = None\<rparr>"

definition loop_state :: limit_state where
  "loop_state = \<lparr>ls_rows = [(7, with_trip loop_config None)], ls_services = [(7, loop_service)],
     ls_history = [(7, \<lparr>rh_counts = [(''c1'', 3)], rh_restarts = [100]\<rparr>)]\<rparr>"

lemma loop_limit: "getRestartLimit 7 loop_state = Some (with_trip loop_config None)"
  by (simp add: getRestartLimit_def loop_state_def with_trip_def config_of_def loop_config_def valid_limit_def)

theorem pass_stops_looping_services_witness:
  "fst (enforceRestartLimits (\<lambda>_. [(''c1'', 4)]) {} 200 loop_state) = [7] \<and>
   map_of (ls_services (snd (enforceRestartLimits (\<lambda>_. [(''c1'', 4)]) {} 200 loop_state))) 7 =
     Some (loop_service\<lparr>sv_status := Stopped\<rparr>)"
proof -
  obtain st t where run: "enforceRestartLimits (\<lambda>_. [(''c1'', 4)]) {} 200 loop_state = (st, t)" by fastforce
  have rows: "map_ok (ls_rows loop_state)" by (simp add: loop_state_def map_ok_def)
  note spec = pass_stops_looping_services [OF run rows]
  have "sampled {} 7 loop_state"
    by (simp add: sampled_def loop_limit) (simp add: loop_state_def loop_service_def restartLimitSupported_def has_runtime_def)
  moreover have "looping (\<lambda>_. [(''c1'', 4)]) 200 7 loop_state"
    by (simp add: looping_def loop_limit)
      (simp add: loop_state_def history_at_def in_window_def shown_def with_trip_def loop_config_def)
  ultimately have "7 \<in> set st" "stopped_as_limit 200 7 loop_state t"
    using spec [of 7] by (simp_all add: map_ok_def split: if_splits)
  moreover have "\<not> sampled {} i loop_state" if "i \<noteq> 7" for i
    using that by (simp add: sampled_def loop_state_def)
  then have "set st \<subseteq> {7}" using spec by (auto simp: map_ok_def)
  moreover have "length st \<le> 1" using run
    by (auto simp: enforceRestartLimits_def loop_state_def Let_def split: prod.splits if_splits)
  ultimately have "st = [7]" by (cases st) auto
  then show ?thesis using \<open>stopped_as_limit 200 7 loop_state t\<close>
    by (simp add: run stopped_as_limit_def) (simp add: loop_state_def loop_service_def)
qed

theorem sample_decides_exactly_witness:
  "fst (recordRestarts 7 [(''c1'', 4), (''c2'', 9)] loop_config 200 (ls_history loop_state))"
proof -
  obtain hit h where run: "recordRestarts 7 [(''c1'', 4), (''c2'', 9)] loop_config 200 (ls_history loop_state) = (hit, h)"
    by fastforce
  have "map_ok [(''c1'', 4 :: int), (''c2'', 9)]" "valid_limit loop_config"
    by (simp_all add: map_ok_def valid_limit_def loop_config_def)
  from sample_decides_exactly [OF this run] show ?thesis
    by (simp add: run) (simp add: loop_state_def history_at_def in_window_def shown_def loop_config_def)
qed

theorem turned_off_limit_comes_back_witness:
  "\<exists>off. setRestartLimit 7 None (trip_stop 7 loop_service loop_state) = Inr off \<and>
     getRestartLimit 7 off = None \<and>
     getRestartLimit 7 (trip_record 7 (with_trip loop_config None) 200 off) = Some (with_trip loop_config (Some 200))"
proof -
  obtain off where off: "setRestartLimit 7 None (trip_stop 7 loop_service loop_state) = Inr off"
    by (simp add: setRestartLimit_def)
  from turned_off_limit_comes_back [OF loop_limit this, of 200] off show ?thesis
    by (auto simp: config_of_def with_trip_def loop_config_def)
qed

end
