(* ===== verification/Autoscale.thy ===== *)
theory Autoscale
  imports Prelude Complex_Main
begin

text \<open>
  Autoscaling decisions: \<open>packages/schemas/src/autoscale.ts\<close> (the replica count a measurement asks
  for), \<open>apps/server/src/lib/autoscaler.ts\<close> (measuring, the up and down windows, why a service is
  held) and \<open>lib/autoscaleSchedule.ts\<close> (scheduled floors). Measurements and targets are
  rationals, so the rounding of IEEE arithmetic is not represented; a number that is not finite is
  \<open>None\<close>. The local weekday and minute of a time zone (\<open>Intl.DateTimeFormat\<close>) are an argument. A
  decision is its replica count; the sentence that explains it is left out.
\<close>

subsection \<open>Configuration\<close>

datatype metric = Cpu | Memory | Rps

record schedule =
  sc_days :: "nat list"
  sc_from :: "nat \<times> nat"
  sc_to :: "nat \<times> nat"
  sc_min :: int

record autoscale_config =
  as_min :: int
  as_max :: int
  as_metric :: metric
  as_target :: rat
  as_up :: int
  as_down :: int
  as_schedules :: "schedule list"
  as_timezone :: "string option"

definition valid_config :: "autoscale_config \<Rightarrow> bool" where
  "valid_config c \<longleftrightarrow> 1 \<le> as_min c \<and> as_min c < as_max c \<and> as_max c \<le> 10 \<and>
     0 < as_target c \<and> as_target c \<le> 100000 \<and> (as_metric c \<noteq> Rps \<longrightarrow> as_target c \<le> 100) \<and>
     30 \<le> as_up c \<and> as_up c \<le> 3600 \<and> 60 \<le> as_down c \<and> as_down c \<le> 3600 \<and>
     list_all (\<lambda>w. sc_min w \<le> as_max c) (as_schedules c)"

definition MAX_REPLICAS :: int where "MAX_REPLICAS = 10"
definition AUTOSCALE_STATS_MAX_AGE_MS :: ms where "AUTOSCALE_STATS_MAX_AGE_MS = 90000"


subsection \<open>Scheduled floors\<close>

definition minutesOf :: "nat \<times> nat \<Rightarrow> nat" where
  "minutesOf hhmm = fst hhmm * 60 + snd hhmm"

definition windowActive :: "schedule \<Rightarrow> nat \<Rightarrow> nat \<Rightarrow> bool" where
  "windowActive w day minute =
     (let from = minutesOf (sc_from w); to = minutesOf (sc_to w) in
      if from < to then day \<in> set (sc_days w) \<and> minute \<ge> from \<and> minute < to
      else let yesterday = (day + 6) mod 7 in
        (day \<in> set (sc_days w) \<and> minute \<ge> from) \<or> (yesterday \<in> set (sc_days w) \<and> minute < to))"

definition effectiveMinimum ::
  "(ms \<Rightarrow> string \<Rightarrow> nat \<times> nat) \<Rightarrow> autoscale_config \<Rightarrow> ms \<Rightarrow> int \<times> schedule option"
where
  "effectiveMinimum localTime cfg now =
     (let best = (case localTime now (case as_timezone cfg of None \<Rightarrow> ''UTC'' | Some z \<Rightarrow> z) of (day, minute) \<Rightarrow>
        foldl (\<lambda>best w. if windowActive w day minute \<and>
              sc_min w > max (as_min cfg) (case best of None \<Rightarrow> 0 | Some b \<Rightarrow> sc_min b)
            then Some w else best) None (as_schedules cfg))
      in case best of
           Some b \<Rightarrow> (min (sc_min b) (as_max cfg), Some b)
         | None \<Rightarrow> (as_min cfg, None))"

subsection \<open>Measuring\<close>

record scaled_service =
  ss_id :: int
  ss_server :: "int option"
  ss_swarm :: bool
  ss_running :: bool
  ss_runtime :: "string option"
  ss_replicas :: "int option"
  ss_asleep :: "ms option"
  ss_cpu_limit :: "int option"

record container_stat =
  ct_cpu :: "rat option"
  ct_mem :: "rat option"
  ct_mem_limit :: "rat option"

definition autoscaleSupportedMetrics :: "scaled_service \<Rightarrow> bool \<Rightarrow> metric list" where
  "autoscaleSupportedMetrics svc rpsAccepted =
     (if ss_swarm svc then []
      else if ss_server svc \<noteq> None then (if rpsAccepted then [Cpu, Memory, Rps] else [Cpu, Memory])
      else [Cpu, Memory, Rps])"

definition servingReplicas :: "scaled_service \<Rightarrow> int" where
  "servingReplicas svc = max 1 (min (case ss_replicas svc of None \<Rightarrow> 1 | Some n \<Rightarrow> n) MAX_REPLICAS)"

definition replicaNames :: "string \<Rightarrow> int \<Rightarrow> string list" where
  "replicaNames runtimeId replicas =
     (let n = nat (max 1 (min (if replicas = 0 then 1 else replicas) MAX_REPLICAS))
      in runtimeId # map (\<lambda>i. runtimeId @ ''-r'' @ nat_text i) [2..<Suc n])"

definition bad_stat :: "metric \<Rightarrow> container_stat \<Rightarrow> bool" where
  "bad_stat m s \<longleftrightarrow>
     (if m = Memory
      then (case ct_mem s of None \<Rightarrow> True | Some b \<Rightarrow> b < 0) \<or> (case ct_mem_limit s of None \<Rightarrow> True | Some l \<Rightarrow> l \<le> 0)
      else (case ct_cpu s of None \<Rightarrow> True | Some p \<Rightarrow> p < 0))"

definition stat_value :: "metric \<Rightarrow> int option \<Rightarrow> container_stat \<Rightarrow> rat" where
  "stat_value m cpuLimitMilli s =
     (if m = Memory then (the (ct_mem s) / the (ct_mem_limit s)) * 100
      else the (ct_cpu s) / (case cpuLimitMilli of None \<Rightarrow> 1 | Some l \<Rightarrow> if l > 0 then of_int l / 1000 else 1))"

definition js_round :: "rat \<Rightarrow> int" where
  "js_round x = \<lfloor>x + 1 / 2\<rfloor>"

text \<open>\<open>Inl\<close>: why the metric cannot be read. \<open>sampledAt\<close> is absent, or a time that may be none.\<close>

definition measure_service ::
  "scaled_service \<Rightarrow> autoscale_config \<Rightarrow> (string \<Rightarrow> container_stat option) \<Rightarrow> bool \<Rightarrow> rat \<Rightarrow> ms \<Rightarrow>
     ms option option \<Rightarrow> string + rat"
where
  "measure_service svc cfg containers analyticsOn requestRate now sampledAt =
     (let current = servingReplicas svc in
      if as_metric cfg = Rps then
        if \<not> analyticsOn then Inl ''requests per second need traffic analytics''
        else Inr (of_int (js_round (requestRate / of_int current * 100)) / 100)
      else if (case sampledAt of None \<Rightarrow> False | Some None \<Rightarrow> True
               | Some (Some t) \<Rightarrow> t > now \<or> now - t > AUTOSCALE_STATS_MAX_AGE_MS)
      then Inl ''waiting for fresh container stats''
      else
        let stats = List.map_filter containers (replicaNames (the (ss_runtime svc)) current) in
        if stats = [] then Inl ''no container stats yet''
        else if int (length stats) \<noteq> current then Inl ''waiting for stats from every serving container''
        else if list_ex (bad_stat (as_metric cfg)) stats
        then Inl (if as_metric cfg = Memory then ''waiting for valid memory usage and limits'' else ''waiting for valid CPU stats'')
        else let per = map (stat_value (as_metric cfg) (ss_cpu_limit svc)) stats in
          Inr (of_int (js_round (sum_list per / of_nat (length per) * 10)) / 10))"

definition holdReason :: "scaled_service \<Rightarrow> int set \<Rightarrow> bool \<Rightarrow> string option" where
  "holdReason svc inFlight canaryRunning =
     (if ss_server svc \<noteq> None then Some ''autoscaling runs on the panel host only for now; this service runs on a node''
      else if ss_swarm svc then Some ''Swarm services are not autoscaled; they run the replica count set on the service''
      else if \<not> ss_running svc \<or> ss_runtime svc = None \<or> ss_runtime svc = Some [] then Some ''the service is not running''
      else if ss_asleep svc \<noteq> None then Some ''the service is asleep (scale to zero)''
      else if ss_id svc \<in> inFlight then Some ''a deploy is in progress''
      else if canaryRunning then Some ''a canary release is in progress''
      else None)"

subsection \<open>Deciding\<close>








subsection \<open>The decision on the log of measurements\<close>

























subsection \<open>Properties\<close>






definition web_scaling :: autoscale_config where
  "web_scaling = \<lparr>as_min = 1, as_max = 5, as_metric = Cpu, as_target = 50, as_up = 60, as_down = 300,
     as_schedules = [], as_timezone = None\<rparr>"


subsection \<open>The scheduled floor\<close>

text \<open>A window as an interval of the week: it starts on a listed day and lasts to its end.\<close>

definition window_length :: "schedule \<Rightarrow> nat" where
  "window_length w = (let from = minutesOf (sc_from w); to = minutesOf (sc_to w) in
     if from < to then to - from else to + 1440 - from)"

definition in_weekly_window :: "schedule \<Rightarrow> nat \<Rightarrow> nat \<Rightarrow> bool" where
  "in_weekly_window w day minute \<longleftrightarrow>
     (\<exists>d \<in> set (sc_days w). \<exists>k < window_length w.
        (d * 1440 + minutesOf (sc_from w) + k) mod 10080 = day * 1440 + minute)"

definition clock_times :: "schedule \<Rightarrow> bool" where
  "clock_times w \<longleftrightarrow> minutesOf (sc_from w) < 1440 \<and> minutesOf (sc_to w) < 1440 \<and> list_all (\<lambda>d. d < 7) (sc_days w)"

lemma day_minute_unique:
  assumes "r < 1440" and "s < (1440 :: nat)"
  shows "a * 1440 + r = b * 1440 + s \<longleftrightarrow> r = s \<and> a = b"
proof
  assume eq: "a * 1440 + r = b * 1440 + s"
  have "(a * 1440 + r) div 1440 = a" "(b * 1440 + s) div 1440 = b" using assms by simp_all
  then show "r = s \<and> a = b" using eq by simp
qed simp

lemma week_position:
  assumes "d < 7" and "day < 7" and "minute < 1440" and "x < (2880 :: nat)"
  shows "(d * 1440 + x) mod 10080 = day * 1440 + minute \<longleftrightarrow>
    x = minute \<and> d = day \<or> x = minute + 1440 \<and> d = (day + 6) mod 7"
proof (cases "x < 1440")
  case True
  then have "(d * 1440 + x) mod 10080 = d * 1440 + x" using assms(1) by (intro mod_less) simp
  then show ?thesis using day_minute_unique [OF True assms(3)] True by auto
next
  case False
  define y where "y = x - 1440"
  have x: "x = y + 1440" "y < 1440" using False assms(4) by (simp_all add: y_def)
  have "(d * 1440 + x) mod 10080 = ((d + 1) mod 7) * 1440 + y"
  proof (cases "d = 6")
    case True
    then show ?thesis using x by simp
  next
    case False
    then have "d < 6" using assms(1) by simp
    then show ?thesis using x by simp
  qed
  moreover have "(d + 1) mod 7 = day \<longleftrightarrow> d = (day + 6) mod 7"
    using assms(1,2) by (auto simp: mod_if split: if_splits)
  ultimately show ?thesis
    using day_minute_unique [OF x(2) assms(3), of "(d + 1) mod 7" day] assms(3) x(1) by auto
qed
lemma windowActive_weekly:
  assumes "clock_times w" and "day < 7" and "minute < 1440"
  shows "windowActive w day minute \<longleftrightarrow> in_weekly_window w day minute"
proof -
  let ?f = "minutesOf (sc_from w)" and ?t = "minutesOf (sc_to w)"
  have clock: "?f < 1440" "?t < 1440" using assms(1) by (simp_all add: clock_times_def)
  have pos: "(d * 1440 + ?f + k) mod 10080 = day * 1440 + minute \<longleftrightarrow>
      ?f + k = minute \<and> d = day \<or> ?f + k = minute + 1440 \<and> d = (day + 6) mod 7"
    if "d \<in> set (sc_days w)" "k < window_length w" for d k
  proof -
    have "d < 7" using that(1) assms(1) by (simp add: clock_times_def list_all_iff)
    moreover have "?f + k < 2880" using that(2) clock by (simp add: window_length_def Let_def split: if_splits)
    ultimately show ?thesis using week_position [of d day minute "?f + k"] assms(2,3) by (simp add: add.assoc)
  qed
  have "in_weekly_window w day minute \<longleftrightarrow>
      (day \<in> set (sc_days w) \<and> (\<exists>k < window_length w. ?f + k = minute)) \<or>
      ((day + 6) mod 7 \<in> set (sc_days w) \<and> (\<exists>k < window_length w. ?f + k = minute + 1440))"
    unfolding in_weekly_window_def using pos by blast
  moreover have "(\<exists>k < window_length w. ?f + k = n) \<longleftrightarrow> ?f \<le> n \<and> n < ?f + window_length w" for n
    by presburger
  ultimately have "in_weekly_window w day minute \<longleftrightarrow>
      (day \<in> set (sc_days w) \<and> ?f \<le> minute \<and> minute < ?f + window_length w) \<or>
      ((day + 6) mod 7 \<in> set (sc_days w) \<and> ?f \<le> minute + 1440 \<and> minute + 1440 < ?f + window_length w)"
    by (simp only:)
  moreover have "minute < ?f + window_length w \<longleftrightarrow> (if ?f < ?t then minute < ?t else True)"
    "minute + 1440 < ?f + window_length w \<longleftrightarrow> \<not> ?f < ?t \<and> minute < ?t" "?f \<le> minute + 1440"
    using assms(3) clock by (auto simp: window_length_def Let_def)
  ultimately show ?thesis
    by (cases "?f < ?t") (simp_all add: windowActive_def Let_def conj_ac)
qed

text \<open>The loop keeps the highest floor seen.\<close>

lemma best_floor:
  assumes "best = foldl (\<lambda>best w. if P w \<and> sc_min w > max m (case best of None \<Rightarrow> 0 | Some b \<Rightarrow> sc_min b)
      then Some w else best) None ws" and "(0 :: int) \<le> m"
  shows "case best of None \<Rightarrow> \<forall>w \<in> set ws. P w \<longrightarrow> sc_min w \<le> m
    | Some b \<Rightarrow> b \<in> set ws \<and> P b \<and> m < sc_min b \<and> (\<forall>w \<in> set ws. P w \<longrightarrow> sc_min w \<le> sc_min b)"
  using assms(1)
proof (induction ws arbitrary: best rule: rev_induct)
  case (snoc w ws)
  define old where "old = foldl (\<lambda>best w. if P w \<and> sc_min w > max m (case best of None \<Rightarrow> 0 | Some b \<Rightarrow> sc_min b)
      then Some w else best) None ws"
  have best: "best = (if P w \<and> sc_min w > max m (case old of None \<Rightarrow> 0 | Some b \<Rightarrow> sc_min b) then Some w else old)"
    by (simp add: snoc.prems old_def)
  note IH = snoc.IH [OF old_def]
  show ?case
  proof (cases old)
    case None
    then show ?thesis using IH best assms(2) by (auto split: if_splits)
  next
    case (Some b)
    then show ?thesis using IH best assms(2) by (fastforce split: if_splits)
  qed
qed simp

text \<open>
  The minimum in force is the configured one raised to the highest floor whose weekly
  window contains the local time - a window past midnight counted for the day it starts on - and
  capped at the maximum.
\<close>

theorem minimum_is_highest_floor:
  assumes "valid_config cfg" and "list_all clock_times (as_schedules cfg)"
    and "localTime now (case as_timezone cfg of None \<Rightarrow> ''UTC'' | Some z \<Rightarrow> z) = (day, minute)"
    and "day < 7" and "minute < 1440"
  shows "fst (effectiveMinimum localTime cfg now) =
    min (as_max cfg) (Max (insert (as_min cfg) (sc_min ` {w \<in> set (as_schedules cfg). in_weekly_window w day minute})))"
proof -
  define best where "best = foldl (\<lambda>best w. if windowActive w day minute \<and>
      sc_min w > max (as_min cfg) (case best of None \<Rightarrow> 0 | Some b \<Rightarrow> sc_min b) then Some w else best) None (as_schedules cfg)"
  let ?A = "{w \<in> set (as_schedules cfg). in_weekly_window w day minute}"
  have act: "windowActive w day minute \<longleftrightarrow> in_weekly_window w day minute" if "w \<in> set (as_schedules cfg)" for w
    using windowActive_weekly assms(2,4,5) that by (simp add: list_all_iff)
  have "0 \<le> as_min cfg" "as_min cfg \<le> as_max cfg" using assms(1) by (simp_all add: valid_config_def)
  note spec = best_floor [OF best_def this(1)] and bound = this(2)
  have eff: "fst (effectiveMinimum localTime cfg now) =
      (case best of Some b \<Rightarrow> min (sc_min b) (as_max cfg) | None \<Rightarrow> as_min cfg)"
    by (simp add: effectiveMinimum_def assms(3) best_def Let_def split: option.split)
  show ?thesis
  proof (cases best)
    case None
    then have "\<forall>n \<in> sc_min ` ?A. n \<le> as_min cfg" using spec act by auto
    then have "Max (insert (as_min cfg) (sc_min ` ?A)) = as_min cfg" by (intro Max_eqI) auto
    then show ?thesis using bound by (simp add: eff None)
  next
    case (Some b)
    then have "b \<in> ?A" "as_min cfg < sc_min b" "\<forall>w \<in> ?A. sc_min w \<le> sc_min b" using spec act by auto
    then have "Max (insert (as_min cfg) (sc_min ` ?A)) = sc_min b" by (intro Max_eqI) auto
    then show ?thesis by (simp add: eff Some min.commute)
  qed
qed

definition night_shift :: schedule where
  "night_shift = \<lparr>sc_days = [5], sc_from = (22, 0), sc_to = (6, 0), sc_min = 4\<rparr>"

theorem minimum_is_highest_floor_witness:
  "fst (effectiveMinimum (\<lambda>_ _. (6, 90)) (web_scaling\<lparr>as_schedules := [night_shift]\<rparr>) 0) = 4"
proof -
  let ?cfg = "web_scaling\<lparr>as_schedules := [night_shift]\<rparr>"
  have clock: "clock_times night_shift" by (simp add: clock_times_def night_shift_def minutesOf_def)
  have "fst (effectiveMinimum (\<lambda>_ _. (6, 90)) ?cfg 0) =
      min (as_max ?cfg) (Max (insert (as_min ?cfg) (sc_min ` {w \<in> set (as_schedules ?cfg). in_weekly_window w 6 90})))"
    by (rule minimum_is_highest_floor) (simp_all add: clock, simp add: valid_config_def web_scaling_def night_shift_def)
  moreover have "in_weekly_window night_shift 6 90"
    using windowActive_weekly [OF clock, of 6 90] by (simp add: windowActive_def night_shift_def minutesOf_def)
  then have "{w \<in> set (as_schedules ?cfg). in_weekly_window w 6 90} = {night_shift}" by auto
  ultimately show ?thesis by (simp add: web_scaling_def night_shift_def)
qed

end
