(* ===== verification/LineDiff.thy ===== *)
theory LineDiff
  imports Prelude "HOL-Library.While_Combinator" "HOL-Library.Sublist"
begin

text \<open>
  The line diff of the deploy configuration view (\<open>lib/diff.ts\<close>): the table of longest
  common subsequences, filled from the bottom row up, the walk over it, and the text form.
  The walk is a \<open>while_option\<close>, so that a loop that never ends would be \<open>None\<close>.
\<close>

subsection \<open>Model\<close>

datatype diff_kind = Same | Add | Del

record diff_op =
  op_kind :: diff_kind
  op_line :: string

definition diff_op_of :: "diff_kind \<Rightarrow> string \<Rightarrow> diff_op" where
  "diff_op_of k l = \<lparr>op_kind = k, op_line = l\<rparr>"

definition DIFF_CAP :: nat where
  "DIFF_CAP = 2000"

text \<open>
  The inner loop: the cells of row \<open>i\<close> from right to left, out of the row below it. The cell
  beyond the last column is the 0 the table was filled with.
\<close>

fun table_row :: "string \<Rightarrow> string list \<Rightarrow> nat list \<Rightarrow> nat list" where
  "table_row x [] below = [0]"
| "table_row x (y # ys) below =
     (let right = table_row x ys (tl below)
      in (if x = y then below ! 1 + 1 else max (below ! 0) (right ! 0)) # right)"

text \<open>The outer loop, from the last row up; the row below the last one is all 0.\<close>

fun lcs_table :: "string list \<Rightarrow> string list \<Rightarrow> nat list list" where
  "lcs_table [] b = [replicate (length b + 1) 0]"
| "lcs_table (x # a) b = (let t = lcs_table a b in table_row x b (t ! 0) # t)"

type_synonym walk_state = "nat \<times> nat \<times> diff_op list"

definition walk_more :: "string list \<Rightarrow> string list \<Rightarrow> walk_state \<Rightarrow> bool" where
  "walk_more a b = (\<lambda>(i, j, ops). i < length a \<and> j < length b)"

definition walk_step :: "string list \<Rightarrow> string list \<Rightarrow> nat list list \<Rightarrow> walk_state \<Rightarrow> walk_state" where
  "walk_step a b table = (\<lambda>(i, j, ops).
     if a ! i = b ! j then (i + 1, j + 1, ops @ [diff_op_of Same (a ! i)])
     else if table ! (i + 1) ! j \<ge> table ! i ! (j + 1) then (i + 1, j, ops @ [diff_op_of Del (a ! i)])
     else (i, j + 1, ops @ [diff_op_of Add (b ! j)]))"

definition diff_walk :: "string list \<Rightarrow> string list \<Rightarrow> nat list list \<Rightarrow> walk_state option" where
  "diff_walk a b table = while_option (walk_more a b) (walk_step a b table) (0, 0, [])"

definition diffLines :: "string list \<Rightarrow> string list \<Rightarrow> diff_op list option" where
  "diffLines a b =
     (if length a > DIFF_CAP \<or> length b > DIFF_CAP
      then Some (map (diff_op_of Del) a @ map (diff_op_of Add) b)
      else if length a = length b \<and> list_all2 (=) a b then Some (map (diff_op_of Same) a)
      else map_option (\<lambda>(i, j, ops). ops @ map (diff_op_of Del) (drop i a) @ map (diff_op_of Add) (drop j b))
        (diff_walk a b (lcs_table a b)))"

fun op_mark :: "diff_kind \<Rightarrow> string" where
  "op_mark Add = ''+ ''"
| "op_mark Del = ''- ''"
| "op_mark Same = ''  ''"

definition renderDiff :: "diff_op list \<Rightarrow> string" where
  "renderDiff ops = js_join [CHR 0x0A] (map (\<lambda>op. op_mark (op_kind op) @ op_line op) ops)"

subsection \<open>What a diff says\<close>

text \<open>The lines a diff starts from, those it ends with, those it keeps, and its changes.\<close>

definition lines_but :: "diff_kind \<Rightarrow> diff_op list \<Rightarrow> string list" where
  "lines_but k ops = map op_line (filter (\<lambda>op. op_kind op \<noteq> k) ops)"

abbreviation old_lines :: "diff_op list \<Rightarrow> string list" where
  "old_lines \<equiv> lines_but Add"

abbreviation new_lines :: "diff_op list \<Rightarrow> string list" where
  "new_lines \<equiv> lines_but Del"

definition kept_lines :: "diff_op list \<Rightarrow> string list" where
  "kept_lines ops = map op_line (filter (\<lambda>op. op_kind op = Same) ops)"

definition changes :: "diff_op list \<Rightarrow> nat" where
  "changes ops = length (filter (\<lambda>op. op_kind op \<noteq> Same) ops)"

lemmas diff_view = lines_but_def kept_lines_def changes_def diff_op_of_def

lemma lines_but_append [simp]: "lines_but k (xs @ ys) = lines_but k xs @ lines_but k ys"
  by (simp add: diff_view)

lemma lines_but_map [simp]: "lines_but k (map (diff_op_of k') ls) = (if k' = k then [] else ls)"
  by (simp add: diff_view comp_def)

lemma lines_but_one [simp]: "lines_but k [diff_op_of k' l] = (if k' = k then [] else [l])"
  by (simp add: diff_view)

lemma lines_but_Nil [simp]: "lines_but k [] = []"
  by (simp add: diff_view)

lemma kept_append [simp]: "kept_lines (xs @ ys) = kept_lines xs @ kept_lines ys"
  by (simp add: diff_view)

lemma kept_map [simp]: "kept_lines (map (diff_op_of k) ls) = (if k = Same then ls else [])"
  by (simp add: diff_view comp_def)

lemma kept_one [simp]: "kept_lines [diff_op_of k l] = (if k = Same then [l] else [])"
  by (simp add: diff_view)

lemma kept_Nil [simp]: "kept_lines [] = []"
  by (simp add: diff_view)

lemma kept_common: "subseq (kept_lines ops) (old_lines ops) \<and> subseq (kept_lines ops) (new_lines ops)"
proof (induction ops)
  case (Cons op ops)
  then show ?case by (cases "op_kind op") (auto simp: diff_view)
qed (simp add: diff_view)

lemma changes_count: "changes ops + 2 * length (kept_lines ops) = length (old_lines ops) + length (new_lines ops)"
proof (induction ops)
  case (Cons op ops)
  then show ?case by (cases "op_kind op") (auto simp: diff_view)
qed (simp add: diff_view)

subsection \<open>The table holds the longest common subsequences\<close>

fun lcs_length :: "string list \<Rightarrow> string list \<Rightarrow> nat" where
  "lcs_length [] ys = 0"
| "lcs_length xs [] = 0"
| "lcs_length (x # xs) (y # ys) =
     (if x = y then lcs_length xs ys + 1 else max (lcs_length xs (y # ys)) (lcs_length (x # xs) ys))"

lemma lcs_length_Nil [simp]: "lcs_length xs [] = 0"
  by (cases xs) simp_all

lemma lcs_length_bound: "subseq zs xs \<Longrightarrow> subseq zs ys \<Longrightarrow> length zs \<le> lcs_length xs ys"
proof (induction xs ys arbitrary: zs rule: lcs_length.induct)
  case (3 x xs y ys)
  show ?case
  proof (cases zs)
    case (Cons z zs')
    show ?thesis
    proof (cases "x = y")
      case True
      then have "subseq zs' xs \<and> subseq zs' ys"
        using "3.prems" by (auto simp: Cons subseq_Cons2_iff dest: subseq_Cons' split: if_splits)
      then show ?thesis using "3.IH"(1) [OF True] True by (simp add: Cons)
    next
      case False
      have "z \<noteq> x \<Longrightarrow> length zs \<le> lcs_length xs (y # ys)" "z \<noteq> y \<Longrightarrow> length zs \<le> lcs_length (x # xs) ys"
        using "3.prems" "3.IH"(2) [OF False, of zs] "3.IH"(3) [OF False, of zs]
        by (simp_all add: Cons subseq_Cons2_iff)
      then show ?thesis using False by (cases "z = x") (auto simp: max_def)
    qed
  qed simp
qed simp_all

lemma table_row_length [simp]: "length (table_row x b below) = length b + 1"
  by (induction x b below rule: table_row.induct) (auto simp: Let_def)

lemma table_row_lcs:
  assumes "length below = length b + 1" and "\<And>j. j \<le> length b \<Longrightarrow> below ! j = lcs_length a (drop j b)"
    and "j \<le> length b"
  shows "table_row x b below ! j = lcs_length (x # a) (drop j b)"
  using assms
proof (induction x b below arbitrary: j rule: table_row.induct)
  case (2 x y ys below)
  have below: "below ! 0 = lcs_length a (y # ys)" "below ! 1 = lcs_length a ys"
    using "2.prems"(2) [of 0] "2.prems"(2) [of 1] by simp_all
  have tl: "length (tl below) = length ys + 1" "\<And>j. j \<le> length ys \<Longrightarrow> tl below ! j = lcs_length a (drop j ys)"
    using "2.prems"(1) "2.prems"(2) by (auto simp: nth_tl dest: meta_spec [of _ "Suc _"])
  note right = "2.IH" [OF tl]
  show ?case
  proof (cases j)
    case 0
    then show ?thesis using below right [of 0] by (simp add: Let_def)
  next
    case (Suc j')
    then show ?thesis using right [of j'] "2.prems"(3) by (simp add: Let_def)
  qed
qed simp

lemma lcs_table_length: "length (lcs_table a b) = length a + 1"
  by (induction a) (simp_all add: Let_def)

lemma lcs_table_at:
  "i \<le> length a \<Longrightarrow>
   length (lcs_table a b ! i) = length b + 1
   \<and> (\<forall>j \<le> length b. lcs_table a b ! i ! j = lcs_length (drop i a) (drop j b))"
proof (induction a arbitrary: i)
  case (Cons x a)
  show ?case
  proof (cases i)
    case 0
    then show ?thesis
      using Cons.IH [of 0] table_row_lcs [of "lcs_table a b ! 0" b a _ x] by (simp add: Let_def)
  next
    case (Suc i')
    then show ?thesis using Cons.IH [of i'] Cons.prems by (simp add: Let_def)
  qed
qed (simp add: nth_Cons')

lemmas lcs_table_cell = lcs_table_at [THEN conjunct2, rule_format]

subsection \<open>The walk\<close>

text \<open>
  What every round of the loop keeps: the lines emitted are those passed on both sides, and
  the lines kept so far and the cell ahead add up to the longest common subsequence.
\<close>

fun walk_inv :: "string list \<Rightarrow> string list \<Rightarrow> walk_state \<Rightarrow> bool" where
  "walk_inv a b (i, j, ops) \<longleftrightarrow>
     i \<le> length a \<and> j \<le> length b \<and> old_lines ops = take i a \<and> new_lines ops = take j b
     \<and> length (kept_lines ops) + lcs_length (drop i a) (drop j b) = lcs_length a b"

lemma walk_step_inv:
  assumes inv: "walk_inv a b s" and more: "walk_more a b s"
  shows "walk_inv a b (walk_step a b (lcs_table a b) s)"
proof -
  obtain i j ops where s: "s = (i, j, ops)" by (cases s)
  have less: "i < length a" "j < length b" using more by (simp_all add: s walk_more_def)
  note I = inv [unfolded s walk_inv.simps]
  have drops: "drop i a = a ! i # drop (i + 1) a" "drop j b = b ! j # drop (j + 1) b"
    using less by (simp_all add: Cons_nth_drop_Suc)
  have takes: "take (i + 1) a = take i a @ [a ! i]" "take (j + 1) b = take j b @ [b ! j]"
    using less by (simp_all add: take_Suc_conv_app_nth)
  have cells: "lcs_table a b ! (i + 1) ! j = lcs_length (drop (i + 1) a) (drop j b)"
    "lcs_table a b ! i ! (j + 1) = lcs_length (drop i a) (drop (j + 1) b)"
    using less by (simp_all add: lcs_table_cell)
  have split: "lcs_length (drop i a) (drop j b) =
      (if a ! i = b ! j then lcs_length (drop (i + 1) a) (drop (j + 1) b) + 1
       else max (lcs_length (drop (i + 1) a) (drop j b)) (lcs_length (drop i a) (drop (j + 1) b)))"
    by (simp only: drops lcs_length.simps)
  show ?thesis
    unfolding s walk_step_def prod.case cells
    using I less split by (auto simp del: One_nat_def add_Suc_right simp: takes max_def)
qed

text \<open>Each round passes a line: the loop ends after at most \<open>n + m\<close> rounds.\<close>

lemma diff_walk_ends:
  obtains i j ops where "diff_walk a b (lcs_table a b) = Some (i, j, ops)"
    and "walk_inv a b (i, j, ops)" and "\<not> (i < length a \<and> j < length b)"
proof -
  have start: "walk_inv a b (0, 0, [])" by simp
  define rounds where "rounds = (\<lambda>(i, j, ops :: diff_op list). (length a - i) + (length b - j))"
  have "\<exists>s. while_option (walk_more a b) (walk_step a b (lcs_table a b)) (0, 0, []) = Some s"
    by (rule measure_while_option_Some [where P = "\<lambda>_. True" and f = rounds])
      (auto simp: walk_more_def walk_step_def rounds_def)
  then obtain s where s: "diff_walk a b (lcs_table a b) = Some s"
    by (auto simp: diff_walk_def)
  obtain i j ops where t: "s = (i, j, ops)" by (cases s)
  have "walk_inv a b s"
    by (rule while_option_rule [where P = "walk_inv a b", OF walk_step_inv s [unfolded diff_walk_def] start])
  moreover have "\<not> walk_more a b s"
    using while_option_stop [OF s [unfolded diff_walk_def]] .
  ultimately show ?thesis
    using that s by (simp add: t walk_more_def)
qed

lemma diffLines_cases:
  obtains ops where "diffLines a b = Some ops" and "old_lines ops = a" and "new_lines ops = b"
    and "length a \<le> DIFF_CAP \<Longrightarrow> length b \<le> DIFF_CAP \<Longrightarrow> lcs_length a b \<le> length (kept_lines ops)"
proof (cases "length a > DIFF_CAP \<or> length b > DIFF_CAP")
  case True
  then show ?thesis by (intro that) (auto simp: diffLines_def)
next
  case False
  show ?thesis
  proof (cases "a = b")
    case True
    have "lcs_length a a = length a"
      by (induction a) simp_all
    then show ?thesis
      using False True that [of "map (diff_op_of Same) a"] by (simp add: diffLines_def list_all2_eq [symmetric])
  next
    case neq: False
    obtain i j ops where w: "diff_walk a b (lcs_table a b) = Some (i, j, ops)"
      and inv: "walk_inv a b (i, j, ops)" and stop: "\<not> (i < length a \<and> j < length b)"
      by (rule diff_walk_ends)
    have "drop i a = [] \<or> drop j b = []" using inv stop by auto
    then have "lcs_length (drop i a) (drop j b) = 0" by auto
    then show ?thesis
      using False neq w inv by (intro that) (auto simp: diffLines_def list_all2_eq [symmetric])
  qed
qed

subsection \<open>Properties\<close>

text \<open>
  Claim C31. The line diff always returns, for any two texts: its loop ends. What it returns
  is a patch: the lines it does not add are the old text, the lines it does not remove are
  the new text, each in its order, whatever the sizes (also beyond the cap).
\<close>

theorem diff_returns_a_patch:
  "\<exists>ops. diffLines a b = Some ops \<and> old_lines ops = a \<and> new_lines ops = b"
  by (rule diffLines_cases [of a b]) auto

text \<open>
  Claim C32. Up to 2000 lines a side the diff is minimal: the lines it keeps are a common
  subsequence of the two texts, no common subsequence is longer, and no other patch from
  the old text to the new one has fewer changes.
\<close>

theorem diff_is_minimal:
  assumes "length a \<le> DIFF_CAP" and "length b \<le> DIFF_CAP"
  shows "\<exists>ops. diffLines a b = Some ops
    \<and> subseq (kept_lines ops) a \<and> subseq (kept_lines ops) b
    \<and> (\<forall>zs. subseq zs a \<and> subseq zs b \<longrightarrow> length zs \<le> length (kept_lines ops))
    \<and> (\<forall>ops'. old_lines ops' = a \<and> new_lines ops' = b \<longrightarrow> changes ops \<le> changes ops')"
proof -
  obtain ops where d: "diffLines a b = Some ops" and ends: "old_lines ops = a" "new_lines ops = b"
    and best: "lcs_length a b \<le> length (kept_lines ops)"
    by (rule diffLines_cases [of a b]) (use assms in auto)
  have common: "subseq (kept_lines o') a \<and> subseq (kept_lines o') b"
    if "old_lines o' = a" "new_lines o' = b" for o'
    using kept_common [of o'] that by simp
  have longest: "length zs \<le> length (kept_lines ops)" if "subseq zs a \<and> subseq zs b" for zs
    using lcs_length_bound [of zs a b] best that by linarith
  have "changes ops \<le> changes o'" if o': "old_lines o' = a" "new_lines o' = b" for o'
    using changes_count [of ops] changes_count [of o'] longest [OF common [OF o']]
    unfolding ends o' by linarith
  then show ?thesis using d common [OF ends] longest by blast
qed

theorem diff_is_minimal_witness:
  "\<exists>ops. diffLines [''a'', ''b'', ''c''] [''b'', ''x'', ''c''] = Some ops
    \<and> subseq (kept_lines ops) [''a'', ''b'', ''c''] \<and> subseq (kept_lines ops) [''b'', ''x'', ''c'']
    \<and> (\<forall>zs. subseq zs [''a'', ''b'', ''c''] \<and> subseq zs [''b'', ''x'', ''c'']
        \<longrightarrow> length zs \<le> length (kept_lines ops))
    \<and> (\<forall>ops'. old_lines ops' = [''a'', ''b'', ''c''] \<and> new_lines ops' = [''b'', ''x'', ''c'']
        \<longrightarrow> changes ops \<le> changes ops')"
  by (rule diff_is_minimal) (simp_all add: DIFF_CAP_def)

fun until_feed :: "string \<Rightarrow> string \<times> string option" where
  "until_feed [] = ([], None)"
| "until_feed (c # cs) =
     (if c = CHR 0x0A then ([], Some cs) else (let (l, r) = until_feed cs in (c # l, r)))"

lemma until_feed_plain: "CHR 0x0A \<notin> set l \<Longrightarrow> until_feed l = (l, None)"
  by (induction l) auto

lemma until_feed_line: "CHR 0x0A \<notin> set l \<Longrightarrow> until_feed (l @ CHR 0x0A # r) = (l, Some r)"
  by (induction l) auto

lemma join_lines_inject:
  assumes "\<And>l. l \<in> set ls \<union> set ms \<Longrightarrow> CHR 0x0A \<notin> set l \<and> l \<noteq> []"
    and "js_join [CHR 0x0A] ls = js_join [CHR 0x0A] ms"
  shows "ls = ms"
  using assms
proof (induction ls arbitrary: ms)
  case Nil
  then show ?case by (cases ms; cases "tl ms") auto
next
  case (Cons l ls)
  have ne: "js_join [CHR 0x0A] (l # ls) \<noteq> []" using Cons.prems(1) [of l] by (cases ls) auto
  then obtain k ks where ms: "ms = k # ks" using Cons.prems(2) by (cases ms) auto
  have feed: "until_feed (js_join [CHR 0x0A] (x # xs)) = (x, if xs = [] then None else Some (js_join [CHR 0x0A] xs))"
    if "CHR 0x0A \<notin> set x" for x xs
    using that until_feed_plain until_feed_line by (cases xs) simp_all
  have "l = k \<and> (ls = [] \<longleftrightarrow> ks = []) \<and> (ls \<noteq> [] \<longrightarrow> js_join [CHR 0x0A] ls = js_join [CHR 0x0A] ks)"
    using Cons.prems feed [of l ls] feed [of k ks] by (auto simp: ms split: if_splits)
  then show ?case using Cons.IH [of ks] Cons.prems(1) by (auto simp: ms)
qed

text \<open>
  The text of a diff loses nothing: for lines without a line feed, two diffs are
  shown as the same text only when they are the same diff.
\<close>

theorem rendered_diff_is_faithful:
  assumes "\<And>op. op \<in> set xs \<union> set ys \<Longrightarrow> CHR 0x0A \<notin> set (op_line op)"
    and "renderDiff xs = renderDiff ys"
  shows "xs = ys"
proof -
  define shown where "shown = (\<lambda>op :: diff_op. op_mark (op_kind op) @ op_line op)"
  have "CHR 0x0A \<notin> set (shown op) \<and> shown op \<noteq> []" if "op \<in> set xs \<union> set ys" for op
    using assms(1) [OF that] by (cases "op_kind op") (simp_all add: shown_def)
  then have "map shown xs = map shown ys"
    using assms(2) by (intro join_lines_inject) (auto simp: renderDiff_def shown_def)
  moreover have "inj shown"
  proof (rule injI)
    fix o1 o2 :: diff_op
    assume "shown o1 = shown o2"
    then show "o1 = o2" by (cases "op_kind o1"; cases "op_kind o2") (auto simp: shown_def)
  qed
  ultimately show ?thesis by (simp add: inj_map_eq_map)
qed

theorem rendered_diff_is_faithful_witness:
  "[diff_op_of Del ''a'', diff_op_of Add ''b''] = [diff_op_of Del ''a'', diff_op_of Add ''b'']"
  by (rule rendered_diff_is_faithful) (auto simp: diff_op_of_def)

end
