(* ===== verification/Totp.thy ===== *)
theory Totp
  imports Credentials Glob "HOL-Library.Word" "HOL-Library.Signed_Division"
begin

unbundle bit_operations_syntax

text \<open>
  One-time codes (\<open>lib/totp.ts\<close>): the base32 form of a secret, the HOTP code of a counter
  and the search for the time step a code belongs to. The bitwise operators of JavaScript
  work on 32 bits, so the accumulators are 32 bit words; texts are 8-bit characters. The
  HMAC of node:crypto is the argument \<open>hmac\<close>.
\<close>

subsection \<open>Base32\<close>

definition BASE32_ALPHABET :: string where
  "BASE32_ALPHABET = ''ABCDEFGHIJKLMNOPQRSTUVWXYZ234567''"

text \<open>The inner \<open>while\<close>: the groups of five bits that are complete, and what is left.\<close>

fun drain_groups :: "nat \<Rightarrow> 32 word \<Rightarrow> string \<times> nat" where
  "drain_groups bits val =
     (if bits \<ge> 5
      then (let (out, rest) = drain_groups (bits - 5) val
            in (BASE32_ALPHABET ! unat (drop_bit (bits - 5) val AND 31) # out, rest))
      else ([], bits))"

declare drain_groups.simps [simp del]

fun encode_loop :: "8 word list \<Rightarrow> nat \<Rightarrow> 32 word \<Rightarrow> string" where
  "encode_loop [] bits val =
     (if bits > 0 then [BASE32_ALPHABET ! unat (push_bit (5 - bits) val AND 31)] else [])"
| "encode_loop (byte # buf) bits val =
     (let val' = push_bit 8 val OR ucast byte; (out, bits') = drain_groups (bits + 8) val'
      in out @ encode_loop buf bits' val')"

definition base32Encode :: "8 word list \<Rightarrow> string" where
  "base32Encode buf = encode_loop buf 0 0"

text \<open>
  \<open>toUpperCase\<close>, as far as the filter after it can see: the letters, and the sharp s, which
  becomes two letters.
\<close>

definition upper_chars :: "char \<Rightarrow> string" where
  "upper_chars c =
     (let k = (of_char c :: nat) in
      if 97 \<le> k \<and> k \<le> 122 then [char_of (k - 32)] else if k = 223 then ''SS'' else [c])"

definition base32_clean :: "string \<Rightarrow> string" where
  "base32_clean s = filter (\<lambda>c. c \<in> set BASE32_ALPHABET) (concat (map upper_chars s))"

text \<open>\<open>indexOf\<close>; a character that does not occur has index -1.\<close>

fun index_from :: "32 word \<Rightarrow> char \<Rightarrow> string \<Rightarrow> 32 word" where
  "index_from i ch [] = - 1"
| "index_from i ch (c # cs) = (if c = ch then i else index_from (i + 1) ch cs)"

fun decode_loop :: "string \<Rightarrow> nat \<Rightarrow> 32 word \<Rightarrow> 8 word list" where
  "decode_loop [] bits val = []"
| "decode_loop (ch # cs) bits val =
     (let val' = push_bit 5 val OR index_from 0 ch BASE32_ALPHABET; bits' = bits + 5
      in if bits' \<ge> 8 then ucast (drop_bit (bits' - 8) val' AND 0xff) # decode_loop cs (bits' - 8) val'
         else decode_loop cs bits' val')"

definition base32Decode :: "string \<Rightarrow> 8 word list" where
  "base32Decode input = decode_loop (base32_clean input) 0 0"

subsection \<open>Codes\<close>

definition TOTP_PERIOD :: int where
  "TOTP_PERIOD = 30"

definition TOTP_DIGITS :: nat where
  "TOTP_DIGITS = 6"

definition uint32_be :: "int \<Rightarrow> 8 word list" where
  "uint32_be n = map (\<lambda>k. word_of_int (n div 2 ^ (8 * k))) [3, 2, 1, 0]"

definition counter_bytes :: "int \<Rightarrow> 8 word list" where
  "counter_bytes counter = uint32_be (counter div 0x100000000) @ uint32_be (counter mod 0x100000000)"

definition truncation_offset :: "8 word list \<Rightarrow> nat" where
  "truncation_offset digest = unat (digest ! (length digest - 1) AND 0x0f)"

definition dynamic_code :: "8 word list \<Rightarrow> 32 word" where
  "dynamic_code digest =
     (let offset = truncation_offset digest in
      push_bit 24 (ucast (digest ! offset AND 0x7f))
      OR push_bit 16 (ucast (digest ! (offset + 1) AND 0xff))
      OR push_bit 8 (ucast (digest ! (offset + 2) AND 0xff))
      OR ucast (digest ! (offset + 3) AND 0xff))"

text \<open>\<open>String(n)\<close> of an integer, and \<open>padStart\<close>.\<close>

definition int_text :: "int \<Rightarrow> string" where
  "int_text n = (if n < 0 then CHR ''-'' # nat_text (nat (- n)) else nat_text (nat n))"

definition pad_start :: "nat \<Rightarrow> char \<Rightarrow> string \<Rightarrow> string" where
  "pad_start n c s = replicate (n - length s) c @ s"

type_synonym hmac_sha1 = "8 word list \<Rightarrow> 8 word list \<Rightarrow> 8 word list"

text \<open>The remainder of JavaScript takes the sign of the dividend, as \<open>smod\<close> does.\<close>

definition hotp :: "hmac_sha1 \<Rightarrow> 8 word list \<Rightarrow> int \<Rightarrow> string" where
  "hotp hmac secret counter =
     pad_start TOTP_DIGITS CHR ''0''
       (int_text (sint (dynamic_code (hmac secret (counter_bytes counter))) smod 10 ^ TOTP_DIGITS))"

definition time_step :: "ms \<Rightarrow> int" where
  "time_step timestampMs = timestampMs div (1000 * TOTP_PERIOD)"

definition totpAt :: "hmac_sha1 \<Rightarrow> string \<Rightarrow> ms \<Rightarrow> string" where
  "totpAt hmac secret timestampMs = hotp hmac (base32Decode secret) (time_step timestampMs)"

definition js_digit :: "char \<Rightarrow> bool" where
  "js_digit c \<longleftrightarrow> 48 \<le> (of_char c :: nat) \<and> (of_char c :: nat) \<le> 57"

definition six_digits :: "string \<Rightarrow> bool" where
  "six_digits s \<longleftrightarrow> length s = 6 \<and> list_all js_digit s"

text \<open>The comparison that always reads both texts to the end of the shorter one.\<close>

definition xor_fold :: "string \<Rightarrow> string \<Rightarrow> nat" where
  "xor_fold s t =
     foldl (\<lambda>diff i. diff OR (of_char (s ! i) XOR of_char (t ! i))) (length s XOR length t)
       [0..<min (length s) (length t)]"

definition strip_space :: "string \<Rightarrow> string" where
  "strip_space = filter (\<lambda>c. \<not> js_space c)"

definition verifyTotpStep :: "hmac_sha1 \<Rightarrow> string \<Rightarrow> string \<Rightarrow> ms \<Rightarrow> int option" where
  "verifyTotpStep hmac secret code timestampMs =
     (let normalized = strip_space code in
      if \<not> six_digits normalized then None
      else foldl (\<lambda>matched drift.
          let step = time_step timestampMs + drift in
          if step < 0 then matched
          else if xor_fold normalized (hotp hmac (base32Decode secret) step) = 0 then Some step else matched)
        None [-1, 0, 1])"

definition verifyTotp :: "hmac_sha1 \<Rightarrow> string \<Rightarrow> string \<Rightarrow> ms \<Rightarrow> bool" where
  "verifyTotp hmac secret code timestampMs \<longleftrightarrow> verifyTotpStep hmac secret code timestampMs \<noteq> None"

subsection \<open>The low bits of an accumulator\<close>

text \<open>The low \<open>k\<close> bits of a word, most significant first: what the loops have still to emit.\<close>

definition low_bits :: "nat \<Rightarrow> 'a::len word \<Rightarrow> bool list" where
  "low_bits k w = map (\<lambda>i. bit w (k - 1 - i)) [0..<k]"

lemma low_bits_length [simp]: "length (low_bits k w) = k"
  by (simp add: low_bits_def)

lemma low_bits_0 [simp]: "low_bits 0 w = []"
  by (simp add: low_bits_def)

lemma low_bits_push:
  fixes v :: "32 word"
  assumes "k + m \<le> 32" and "\<And>i. bit b i \<Longrightarrow> i < m"
  shows "low_bits (k + m) (push_bit m v OR b) = low_bits k v @ low_bits m b"
proof (rule nth_equalityI)
  fix i assume "i < length (low_bits (k + m) (push_bit m v OR b))"
  then show "low_bits (k + m) (push_bit m v OR b) ! i = (low_bits k v @ low_bits m b) ! i"
    using assms(1) by (auto simp: low_bits_def nth_append bit_simps add.commute [of k m] dest: assms(2))
qed simp

lemma low_bits_split:
  fixes v :: "32 word"
  assumes "m \<le> k" and "k \<le> 32"
  shows "low_bits k v = low_bits m (drop_bit (k - m) v AND mask m) @ low_bits (k - m) v"
  using assms by (intro nth_equalityI) (auto simp: low_bits_def nth_append bit_simps)

lemma low_bits_pad:
  fixes v :: "32 word"
  assumes "k \<le> m" and "m \<le> 32"
  shows "low_bits m (push_bit (m - k) v AND mask m) = low_bits k v @ replicate (m - k) False"
  using assms by (intro nth_equalityI) (auto simp: low_bits_def nth_append bit_simps)

lemma low_bits_ucast: "low_bits 8 (ucast (b :: 8 word) :: 32 word) = low_bits 8 b"
  by (auto simp: low_bits_def bit_simps)

lemma low_bits_ucast_down: "low_bits 8 (ucast (w :: 32 word) :: 8 word) = low_bits 8 w"
  by (auto simp: low_bits_def bit_simps)

lemma low_bits_inject: "low_bits 8 a = low_bits 8 b \<Longrightarrow> a = b" for a b :: "8 word"
proof (rule bit_word_eqI)
  fix n assume eq: "low_bits 8 a = low_bits 8 b" and "n < LENGTH(8)"
  then have "low_bits 8 a ! (7 - n) = low_bits 8 b ! (7 - n)" by simp
  then show "bit a n = bit b n" using \<open>n < LENGTH(8)\<close> by (simp add: low_bits_def)
qed

subsection \<open>The round trip of base32\<close>

definition symbol_bits :: "char \<Rightarrow> bool list" where
  "symbol_bits c = low_bits 5 (index_from 0 c BASE32_ALPHABET)"

lemma alphabet_length: "length BASE32_ALPHABET = 32"
  by (simp add: BASE32_ALPHABET_def)

lemma below_32: "unat (w AND 31) < 32" for w :: "32 word"
proof -
  have "w AND 31 \<le> 31" by (rule word_and_le1)
  then show ?thesis by (simp add: word_le_nat_alt)
qed

lemma index_of_symbols: "list_all (\<lambda>i. index_from 0 (BASE32_ALPHABET ! i) BASE32_ALPHABET = of_nat i) [0..<32]"
  by code_simp

lemma symbol_bits_nth:
  fixes w :: "32 word"
  shows "symbol_bits (BASE32_ALPHABET ! unat (w AND 31)) = low_bits 5 (w AND mask 5)"
proof -
  have "index_from 0 (BASE32_ALPHABET ! unat (w AND 31)) BASE32_ALPHABET = of_nat (unat (w AND 31))"
    using index_of_symbols below_32 [of w] by (simp only: list_all_iff set_upt atLeastLessThan_iff) simp
  then show ?thesis by (simp add: symbol_bits_def mask_eq_exp_minus_1)
qed

lemma drain_groups_bits:
  "bits \<le> 32 \<Longrightarrow> drain_groups bits val = (out, rest) \<Longrightarrow>
   rest < 5 \<and> low_bits bits val = concat (map symbol_bits out) @ low_bits rest val
   \<and> set out \<subseteq> set BASE32_ALPHABET"
proof (induction bits val arbitrary: out rest rule: drain_groups.induct)
  case (1 bits val)
  show ?case
  proof (cases "5 \<le> bits")
    case True
    obtain out' where d: "drain_groups (bits - 5) val = (out', rest)"
      and out: "out = BASE32_ALPHABET ! unat (drop_bit (bits - 5) val AND 31) # out'"
      using "1.prems"(2) True by (auto simp: drain_groups.simps [of bits] split: prod.splits)
    have "low_bits bits val = low_bits 5 (drop_bit (bits - 5) val AND mask 5) @ low_bits (bits - 5) val"
      using True "1.prems"(1) by (rule low_bits_split)
    then show ?thesis
      using "1.IH" [OF True _ d] "1.prems"(1) below_32 [of "drop_bit (bits - 5) val"]
      by (simp add: out symbol_bits_nth alphabet_length)
  next
    case False
    then show ?thesis using "1.prems"(2) by (simp add: drain_groups.simps [of bits])
  qed
qed

lemma bit_ucast_byte: "bit (ucast (b :: 8 word) :: 32 word) i \<Longrightarrow> i < 8"
  by (auto simp: bit_simps dest: bit_imp_le_length)

lemma encode_loop_bits:
  "bits < 5 \<Longrightarrow> set (encode_loop buf bits val) \<subseteq> set BASE32_ALPHABET
   \<and> (\<exists>pad < 5. concat (map symbol_bits (encode_loop buf bits val))
        = low_bits bits val @ concat (map (low_bits 8) buf) @ replicate pad False)"
proof (induction buf bits val rule: encode_loop.induct)
  case (1 bits val)
  show ?case
    using 1 low_bits_pad [of bits 5 val] below_32 [of "push_bit (5 - bits) val"]
    by (auto simp: symbol_bits_nth alphabet_length intro: exI [of _ "5 - bits"] exI [of _ 0])
next
  case (2 byte buf bits val)
  define val' :: "32 word" where "val' = push_bit 8 val OR ucast byte"
  obtain out rest where d: "drain_groups (bits + 8) val' = (out, rest)" by (cases "drain_groups (bits + 8) val'")
  have parts: "rest < 5" "low_bits (bits + 8) val' = concat (map symbol_bits out) @ low_bits rest val'"
    "set out \<subseteq> set BASE32_ALPHABET"
    using drain_groups_bits [OF _ d] "2.prems" by simp_all
  moreover have "low_bits (bits + 8) val' = low_bits bits val @ low_bits 8 byte"
    using "2.prems" low_bits_push [of bits 8 "ucast byte" val] bit_ucast_byte
    by (simp add: val'_def low_bits_ucast)
  ultimately show ?case
    using "2.IH" [OF val'_def d [symmetric] refl parts(1)] by (auto simp: d Let_def simp flip: val'_def)
qed

lemma index_below: "c \<in> set BASE32_ALPHABET \<Longrightarrow> bit (index_from 0 c BASE32_ALPHABET) i \<Longrightarrow> i < 5"
proof -
  assume "c \<in> set BASE32_ALPHABET" and b: "bit (index_from 0 c BASE32_ALPHABET) i"
  then obtain k where k: "k < 32" "c = BASE32_ALPHABET ! k" by (auto simp: in_set_conv_nth alphabet_length)
  then have "index_from 0 c BASE32_ALPHABET = of_nat k"
    using index_of_symbols by (simp add: list_all_iff del: upt_rec_numeral)
  then have "bit k i" using b by (simp add: bit_simps)
  moreover have "take_bit 5 k = k" using k(1) by (simp add: take_bit_nat_eq_self)
  ultimately have "bit (take_bit 5 k) i" by simp
  then show ?thesis by (simp add: bit_take_bit_iff)
qed

lemma decode_loop_bits:
  "bits < 8 \<Longrightarrow> set cs \<subseteq> set BASE32_ALPHABET \<Longrightarrow>
   \<exists>rest. length rest < 8 \<and> low_bits bits val @ concat (map symbol_bits cs)
     = concat (map (low_bits 8) (decode_loop cs bits val)) @ rest"
proof (induction cs bits val rule: decode_loop.induct)
  case (1 bits val)
  then show ?case by simp
next
  case (2 ch cs bits val)
  define val' where "val' = push_bit 5 val OR index_from 0 ch BASE32_ALPHABET"
  have push: "low_bits (bits + 5) val' = low_bits bits val @ symbol_bits ch"
    unfolding val'_def symbol_bits_def
    by (rule low_bits_push) (use "2.prems" index_below [of ch] in auto)
  show ?case
  proof (cases "8 \<le> bits + 5")
    case True
    have "low_bits (bits + 5) val'
        = low_bits 8 (ucast (drop_bit (bits + 5 - 8) val' AND mask 8) :: 8 word) @ low_bits (bits + 5 - 8) val'"
      using True "2.prems"(1) low_bits_split [of 8 "bits + 5" val'] by (simp add: low_bits_ucast_down)
    then have emit: "low_bits bits val @ symbol_bits ch
        = low_bits 8 (ucast (drop_bit (bits + 5 - 8) val' AND 0xff) :: 8 word) @ low_bits (bits + 5 - 8) val'"
      using push by (simp add: mask_eq_exp_minus_1)
    obtain rest where rest: "length rest < 8" "low_bits (bits + 5 - 8) val' @ concat (map symbol_bits cs)
        = concat (map (low_bits 8) (decode_loop cs (bits + 5 - 8) val')) @ rest"
      using "2.IH"(1) [OF val'_def refl True] "2.prems" less_diff_conv2 [OF True, of 8] by auto
    have "low_bits bits val @ concat (map symbol_bits (ch # cs))
        = (low_bits bits val @ symbol_bits ch) @ concat (map symbol_bits cs)" by simp
    also have "\<dots> = low_bits 8 (ucast (drop_bit (bits + 5 - 8) val' AND 0xff) :: 8 word)
        @ concat (map (low_bits 8) (decode_loop cs (bits + 5 - 8) val')) @ rest"
      by (simp only: emit append_assoc rest(2))
    finally show ?thesis
      using rest(1) True by (intro exI [of _ rest]) (simp add: Let_def flip: val'_def)
  next
    case False
    then show ?thesis
      using "2.IH"(2) [OF val'_def refl False] "2.prems" push
      by (auto simp: Let_def simp flip: val'_def)
  qed
qed

lemma byte_groups_unique:
  "concat (map (low_bits 8) xs) @ r = concat (map (low_bits 8) ys) @ z \<Longrightarrow>
   length r < 8 \<Longrightarrow> length z < 8 \<Longrightarrow> xs = ys" for xs ys :: "8 word list"
proof (induction xs arbitrary: ys)
  case Nil
  then show ?case by (cases ys) (auto dest: arg_cong [of _ _ length])
next
  case (Cons x xs)
  show ?case
  proof (cases ys)
    case Nil
    then show ?thesis using Cons.prems by (auto dest: arg_cong [of _ _ length])
  next
    case (Cons y ys')
    have "low_bits 8 x = low_bits 8 y \<and> concat (map (low_bits 8) xs) @ r = concat (map (low_bits 8) ys') @ z"
      using Cons.prems(1) unfolding Cons
      by (simp only: list.map concat.simps append_assoc) (simp add: append_eq_append_conv)
    then show ?thesis using Cons.IH [of ys'] Cons.prems(2,3) low_bits_inject by (auto simp: Cons)
  qed
qed

lemma upper_alphabet: "c \<in> set BASE32_ALPHABET \<Longrightarrow> upper_chars c = [c]"
proof -
  have "list_all (\<lambda>c. upper_chars c = [c]) BASE32_ALPHABET" by code_simp
  then show "c \<in> set BASE32_ALPHABET \<Longrightarrow> upper_chars c = [c]" by (simp add: list_all_iff)
qed

lemma base32_clean_id: "set s \<subseteq> set BASE32_ALPHABET \<Longrightarrow> base32_clean s = s"
  by (induction s) (auto simp: base32_clean_def upper_alphabet)

text \<open>
  Claim C33. Base32 loses nothing: decoding the encoding of any byte string gives it back,
  whatever its length, although the accumulators of both loops overflow their 32 bits on
  every string of more than four bytes. The encoding uses the alphabet only.
\<close>

theorem base32_round_trip:
  "base32Decode (base32Encode buf) = buf \<and> set (base32Encode buf) \<subseteq> set BASE32_ALPHABET"
proof -
  define out where "out = base32Encode buf"
  obtain pad where syms: "set out \<subseteq> set BASE32_ALPHABET" and "pad < 5"
    and enc: "concat (map symbol_bits out) = concat (map (low_bits 8) buf) @ replicate pad False"
    using encode_loop_bits [of 0 buf 0] by (auto simp: out_def base32Encode_def)
  obtain rest where rest: "length rest < 8"
    and dec: "concat (map symbol_bits out) = concat (map (low_bits 8) (decode_loop out 0 0)) @ rest"
    using decode_loop_bits [of 0 out 0] syms by auto
  have "decode_loop out 0 0 = buf"
    by (rule byte_groups_unique [OF trans [OF dec [symmetric] enc]]) (use rest \<open>pad < 5\<close> in simp_all)
  then show ?thesis using syms by (simp add: base32Decode_def base32_clean_id flip: out_def)
qed

subsection \<open>The shape of a code\<close>

lemma dynamic_code_positive: "0 \<le> sint (dynamic_code digest)"
proof -
  have "\<not> bit (dynamic_code digest) 31"
    by (simp add: dynamic_code_def Let_def bit_simps)
  then show ?thesis using bit_last_iff [of "dynamic_code digest"] by simp
qed

lemma truncation_in_digest: "length digest = 20 \<Longrightarrow> truncation_offset digest + 3 < length digest"
proof -
  have "digest ! (length digest - 1) AND 0x0f \<le> 0x0f" by (rule word_and_le1)
  then show "length digest = 20 \<Longrightarrow> ?thesis" by (simp add: truncation_offset_def word_le_nat_alt)
qed

lemma js_digit_char: "n < 10 \<Longrightarrow> js_digit (char_of (48 + n :: nat))"
  by (simp add: js_digit_def)

lemma nat_text_digits: "list_all js_digit (nat_text n)"
proof (induction n rule: nat_text.induct)
  case (1 n)
  then show ?case
    using js_digit_char [of n] js_digit_char [of "n mod 10"] by (simp add: nat_text.simps [of n])
qed

lemma nat_text_length: "n < 10 ^ k \<Longrightarrow> 0 < k \<Longrightarrow> length (nat_text n) \<le> k"
proof (induction k arbitrary: n)
  case (Suc k)
  show ?case
  proof (cases "n < 10")
    case True
    then show ?thesis by (simp add: nat_text.simps [of n])
  next
    case False
    have "k \<noteq> 0" using False Suc.prems by (cases k) simp_all
    moreover have "n div 10 < 10 ^ k" using Suc.prems(1) by (simp add: less_mult_imp_div_less mult.commute)
    ultimately show ?thesis using Suc.IH [of "n div 10"] False by (simp add: nat_text.simps [of n])
  qed
qed simp

lemma hotp_value: "hotp hmac secret counter =
  pad_start 6 CHR ''0'' (nat_text (nat (sint (dynamic_code (hmac secret (counter_bytes counter))) mod 10 ^ 6)))"
proof -
  define x where "x = sint (dynamic_code (hmac secret (counter_bytes counter)))"
  have "0 \<le> x" by (simp add: x_def dynamic_code_positive)
  then have "x smod 10 ^ 6 = x mod 10 ^ 6" by (simp add: signed_modulo_int_def sgn_if)
  moreover have "\<not> x mod 10 ^ 6 < 0" by (simp add: not_less)
  ultimately show ?thesis by (simp add: hotp_def int_text_def TOTP_DIGITS_def flip: x_def)
qed

lemma hotp_six_digits: "six_digits (hotp hmac secret counter)"
proof -
  define n where "n = nat (sint (dynamic_code (hmac secret (counter_bytes counter))) mod 10 ^ 6)"
  have "n < 10 ^ 6" by (simp add: n_def nat_less_iff)
  then have "length (nat_text n) \<le> 6" by (intro nat_text_length) simp_all
  moreover have "js_digit CHR ''0''" by (simp add: js_digit_def)
  ultimately show ?thesis
    using nat_text_digits [of n] unfolding hotp_value n_def [symmetric]
    by (auto simp: six_digits_def pad_start_def list_all_iff)
qed

lemma base_256:
  fixes n :: int
  assumes "0 \<le> n" and "n < 2 ^ 32"
  shows "n = n mod 256 + 256 * (n div 256 mod 256) + 65536 * (n div 65536 mod 256)
    + 16777216 * (n div 16777216 mod 256)"
proof -
  have "n div 256 div 256 = n div 65536" "n div 65536 div 256 = n div 16777216"
    by (simp_all add: zdiv_zmult2_eq [symmetric])
  moreover have "n div 16777216 < 256" "0 \<le> n div 16777216" using assms by simp_all
  then have "n div 16777216 mod 256 = n div 16777216" by simp
  ultimately show ?thesis
    using mult_div_mod_eq [of 256 n] mult_div_mod_eq [of 256 "n div 256"] mult_div_mod_eq [of 256 "n div 65536"]
    by linarith
qed

lemma counter_bytes_inject:
  assumes "counter_bytes c = counter_bytes d" and "0 \<le> c" "c < 2 ^ 64" "0 \<le> d" "d < 2 ^ 64"
  shows "c = d"
proof -
  have be: "n = m" if "uint32_be n = uint32_be m" "0 \<le> n" "n < 2 ^ 32" "0 \<le> m" "m < 2 ^ 32" for n m :: int
  proof -
    have "take_bit 8 (n div 2 ^ (8 * k)) = take_bit 8 (m div 2 ^ (8 * k))" if "k \<in> {0, 1, 2, 3}" for k :: nat
      using that \<open>uint32_be n = uint32_be m\<close> by (auto simp: uint32_be_def word_of_int_eq_iff)
    then have digits: "n mod 256 = m mod 256" "n div 256 mod 256 = m div 256 mod 256"
      "n div 65536 mod 256 = m div 65536 mod 256" "n div 16777216 mod 256 = m div 16777216 mod 256"
      by (force simp: take_bit_eq_mod)+
    show ?thesis
      using trans [OF base_256 [OF that(2,3), unfolded digits] base_256 [OF that(4,5), symmetric]] .
  qed
  have "length (uint32_be n) = 4" for n by (simp add: uint32_be_def)
  then have "uint32_be (c div 0x100000000) = uint32_be (d div 0x100000000)"
    "uint32_be (c mod 0x100000000) = uint32_be (d mod 0x100000000)"
    using assms(1) by (simp_all add: counter_bytes_def)
  moreover have "x div 0x100000000 < 2 ^ 32" if "x < 2 ^ 64" for x :: int
    using that by simp
  moreover have "0 \<le> x div 0x100000000" if "0 \<le> x" for x :: int
    using that by simp
  ultimately have "c div 0x100000000 = d div 0x100000000" "c mod 0x100000000 = d mod 0x100000000"
    using assms(2-5) by (auto intro!: be)
  then show ?thesis by (metis mult_div_mod_eq)
qed

text \<open>
  A code is always six digits, for every secret and counter. For the 20 bytes of
  an HMAC-SHA1 the four bytes of the truncation lie within the digest, the truncated value
  is not negative although the bitwise operators are signed, and the code is its decimal
  remainder, padded with zeros.
\<close>

theorem code_is_six_digits:
  assumes "\<And>key msg. length (hmac key msg) = 20"
  shows "six_digits (hotp hmac secret counter)
    \<and> truncation_offset (hmac secret (counter_bytes counter)) + 3 < 20
    \<and> 0 \<le> sint (dynamic_code (hmac secret (counter_bytes counter)))
    \<and> hotp hmac secret counter = pad_start 6 CHR ''0''
        (nat_text (nat (sint (dynamic_code (hmac secret (counter_bytes counter))) mod 1000000)))"
  using hotp_six_digits truncation_in_digest [OF assms] dynamic_code_positive hotp_value
  by (simp add: assms)

text \<open>The witness uses the digest of the example of RFC 4226, section 5.4.\<close>

definition rfc_digest :: "8 word list" where
  "rfc_digest = [0x1f, 0x86, 0x98, 0x69, 0x0e, 0x02, 0xca, 0x16, 0x61, 0x85,
     0x50, 0xef, 0x7f, 0x19, 0xda, 0x8e, 0x94, 0x5b, 0x55, 0x5a]"

theorem code_is_six_digits_witness:
  "hotp (\<lambda>key msg. rfc_digest) [] 0 = ''872921'' \<and> six_digits (hotp (\<lambda>key msg. rfc_digest) [] 0)"
proof -
  have "length rfc_digest = 20" by (simp add: rfc_digest_def)
  moreover have "sint (dynamic_code rfc_digest) = 0x50ef7f19" by code_simp
  moreover have "nat_text 872921 = ''872921''" by (simp add: nat_text.simps) code_simp
  ultimately show ?thesis
    using code_is_six_digits [of "\<lambda>key msg. rfc_digest" "[]" 0] by (auto simp: pad_start_def)
qed

subsection \<open>The step of a code\<close>

lemma xor_zero_iff: "m XOR n = 0 \<longleftrightarrow> m = n" for m n :: nat
  by (simp add: bit_eq_iff bit_simps)

lemma xor_fold_zero: "xor_fold s t = 0 \<longleftrightarrow> s = t"
proof -
  have fold: "foldl (\<lambda>diff i. diff OR f i) d xs = 0 \<longleftrightarrow> d = 0 \<and> (\<forall>i \<in> set xs. f i = 0)"
    for f :: "nat \<Rightarrow> nat" and d xs
    by (induction xs arbitrary: d) (auto simp: or_eq_0_iff)
  show ?thesis
    unfolding xor_fold_def fold xor_zero_iff by (auto intro!: nth_equalityI)
qed

text \<open>The last step of the window that matches, steps before the epoch left out.\<close>

lemma verifyTotpStep_eq:
  "verifyTotpStep hmac secret code t =
     (let ok = (\<lambda>step. 0 \<le> step \<and> hotp hmac (base32Decode secret) step = strip_space code);
          c = time_step t in
      if ok (c + 1) then Some (c + 1) else if ok c then Some c
      else if ok (c - 1) then Some (c - 1) else None)"
proof -
  have "\<not> six_digits (strip_space code) \<Longrightarrow> hotp hmac key step \<noteq> strip_space code" for key step
    using hotp_six_digits by metis
  then show ?thesis
    by (auto simp: verifyTotpStep_def xor_fold_zero Let_def)
qed

text \<open>
  A code is accepted exactly when it is, white space aside, the HOTP code of a step
  within one period of the clock and not before the epoch, and the step reported is the latest
  such step: the value the single-use record compares.
\<close>

theorem accepted_step_is_latest_in_window:
  "verifyTotpStep hmac secret code t = Some step \<longleftrightarrow>
     0 \<le> step \<and> \<bar>step - t div 30000\<bar> \<le> 1 \<and> hotp hmac (base32Decode secret) step = strip_space code
     \<and> (\<nexists>later. step < later \<and> later \<le> t div 30000 + 1 \<and> hotp hmac (base32Decode secret) later = strip_space code)"
  (is "_ \<longleftrightarrow> ?spec")
proof -
  define c where "c = t div 30000"
  define same where "same = (\<lambda>step. hotp hmac (base32Decode secret) step = strip_space code)"
  have c: "time_step t = c" by (simp add: c_def time_step_def TOTP_PERIOD_def)
  have same: "(hotp hmac (base32Decode secret) x = strip_space code) = same x" for x
    by (simp add: same_def)
  have later: "(c + 1 < l \<and> l \<le> c + 1) = False" "(c < l \<and> l \<le> c + 1) = (l = c + 1)"
    "(c - 1 < l \<and> l \<le> c + 1) = (l = c \<or> l = c + 1)" for l
    by auto
  have near: "(\<bar>step - c\<bar> \<le> 1) = (step = c + 1 \<or> step = c \<or> step = c - 1)" by auto
  have split: "(P step \<and> (step = c + 1 \<or> step = c \<or> step = c - 1)) =
      (step = c + 1 \<and> P (c + 1) \<or> step = c \<and> P c \<or> step = c - 1 \<and> P (c - 1))" for P
    by auto
  have "?spec \<longleftrightarrow> (0 \<le> step \<and> same step \<and> \<not> (\<exists>l. (step < l \<and> l \<le> c + 1) \<and> same l)) \<and>
      (step = c + 1 \<or> step = c \<or> step = c - 1)"
    unfolding c_def [symmetric] same near by blast
  also have "\<dots> \<longleftrightarrow> 0 \<le> step \<and> same step \<and>
      (step = c + 1 \<or> step = c \<and> \<not> same (c + 1) \<or> step = c - 1 \<and> \<not> same c \<and> \<not> same (c + 1))"
    unfolding split [of "\<lambda>step. 0 \<le> step \<and> same step \<and> \<not> (\<exists>l. (step < l \<and> l \<le> c + 1) \<and> same l)"] later
    by blast
  finally have spec: "?spec \<longleftrightarrow> 0 \<le> step \<and> same step \<and>
      (step = c + 1 \<or> step = c \<and> \<not> same (c + 1) \<or> step = c - 1 \<and> \<not> same c \<and> \<not> same (c + 1))" .
  show ?thesis
    unfolding spec unfolding verifyTotpStep_eq c Let_def same by auto
qed

text \<open>
  With this verifier a one-time code cannot be replayed: when a code was accepted for
  a stored secret, the same six digits are accepted for it again - at any later time, after any
  codes and enrolments in between - only if two different time steps have the same HOTP code.
\<close>

theorem replayed_code_needs_collision:
  assumes "consumeTotpCode (\<lambda>enc. verifyTotpStep hmac (decrypt enc)) u (Some enc) code now rows = (True, rowsA)"
    and "enc \<in> used"
    and "(totp_step (\<lambda>enc. verifyTotpStep hmac (decrypt enc)))\<^sup>*\<^sup>* (used, rowsA) (used', rowsB)"
    and "strip_space code' = strip_space code"
    and "fst (consumeTotpCode (\<lambda>enc. verifyTotpStep hmac (decrypt enc)) u (Some enc) code' now' rowsB)"
  shows "\<exists>step step'. step < step' \<and> \<bar>step - now div 30000\<bar> \<le> 1 \<and> \<bar>step' - now' div 30000\<bar> \<le> 1
    \<and> hotp hmac (base32Decode (decrypt enc)) step = hotp hmac (base32Decode (decrypt enc)) step'"
proof -
  let ?verify = "\<lambda>enc. verifyTotpStep hmac (decrypt enc)"
  obtain step where step: "?verify enc code now = Some step"
    using assms(1) by (auto simp: consumeTotpCode_def split: if_splits option.splits)
  obtain step' where step': "?verify enc code' now' = Some step'"
    using assms(5) by (auto simp: consumeTotpCode_def split: if_splits option.splits)
  have "code_spent u enc step (used', rowsB)"
    using code_stays_spent [where verify = ?verify, OF assms(1) step assms(2,3)] .
  then have "\<not> step' \<le> step"
    using spent_code_refused [where verify = ?verify, OF _ step'] assms(5) by auto
  moreover have shown: "\<bar>st - t div 30000\<bar> \<le> 1 \<and> hotp hmac (base32Decode (decrypt enc)) st = strip_space cd"
    if "?verify enc cd t = Some st" for st cd t
    using that by (auto simp: verifyTotpStep_eq Let_def time_step_def TOTP_PERIOD_def split: if_splits)
  ultimately show ?thesis using shown [OF step] shown [OF step'] assms(4) by (metis not_le)
qed

text \<open>
  The witness: with a hash that ignores its input every step has the same code, and the code is
  indeed accepted twice.
\<close>

theorem replayed_code_needs_collision_witness:
  "\<exists>step step'. step < step' \<and> \<bar>step - 60000 div 30000\<bar> \<le> 1 \<and> \<bar>step' - 120000 div 30000\<bar> \<le> 1
    \<and> hotp (\<lambda>key msg. rfc_digest) (base32Decode ''MZXQ'') step = hotp (\<lambda>key msg. rfc_digest) (base32Decode ''MZXQ'') step'"
proof -
  let ?verify = "\<lambda>enc. verifyTotpStep (\<lambda>key msg. rfc_digest) (id enc)"
  let ?row = "\<lambda>l. \<lparr>tot_user = 1, tot_secret = Some ''MZXQ'', tot_last_step = l\<rparr>"
  have codes: "hotp (\<lambda>key msg. rfc_digest) key step = ''872921''" for key step
  proof -
    have "sint (dynamic_code rfc_digest) = 0x50ef7f19" by code_simp
    moreover have "nat_text 872921 = ''872921''" by (simp add: nat_text.simps) code_simp
    ultimately show ?thesis by (simp add: hotp_value pad_start_def)
  qed
  have strip: "strip_space ''872921'' = ''872921''" "strip_space ''872 921'' = ''872921''"
    by (simp_all add: strip_space_def js_space_def)
  have "consumeTotpCode ?verify 1 (Some ''MZXQ'') ''872921'' 60000 [?row None] = (True, [?row (Some 3)])"
    by (simp add: consumeTotpCode_def verifyTotpStep_eq codes strip spends_def time_step_def TOTP_PERIOD_def)
  moreover have "fst (consumeTotpCode ?verify 1 (Some ''MZXQ'') ''872 921'' 120000 [?row (Some 3)])"
    by (simp add: consumeTotpCode_def verifyTotpStep_eq codes strip spends_def time_step_def TOTP_PERIOD_def)
  ultimately show ?thesis
    using replayed_code_needs_collision [where decrypt = id and used = "{''MZXQ''}" and used' = "{''MZXQ''}"
        and code = "''872921''" and code' = "''872 921''" and rows = "[?row None]"
        and hmac = "\<lambda>key msg. rfc_digest" and u = 1 and enc = "''MZXQ''" and now = 60000 and now' = 120000
        and rowsA = "[?row (Some 3)]" and rowsB = "[?row (Some 3)]"] strip
    by simp
qed

end
