(* ===== verification/Slug.thy ===== *)
theory Slug
  imports Glob
begin

text \<open>
  Slugs (\<open>lib/slug.ts\<close>): the name a service, database or project gets in URLs, containers and
  DNS, derived from whatever text the user typed, and the derivation with a suffix that the
  loops looking for a free name use. The contract is the \<open>slug\<close> schema of
  \<open>packages/schemas/src/common.ts\<close>. Texts are 8-bit characters.
\<close>

subsection \<open>Model\<close>

definition js_lower_char :: "char \<Rightarrow> char" where
  "js_lower_char c =
     (let k = (of_char c :: nat) in
      if (65 \<le> k \<and> k \<le> 90) \<or> (192 \<le> k \<and> k \<le> 222 \<and> k \<noteq> 215) then char_of (k + 32) else c)"

definition js_lower :: "string \<Rightarrow> string" where
  "js_lower = map js_lower_char"

abbreviation hyphen :: char where
  "hyphen \<equiv> CHR 0x2D"

text \<open>The class \<open>[a-z0-9]\<close>.\<close>

definition slug_char :: "char \<Rightarrow> bool" where
  "slug_char c \<longleftrightarrow> (let k = (of_char c :: nat) in 97 \<le> k \<and> k \<le> 122 \<or> 48 \<le> k \<and> k \<le> 57)"

text \<open>\<open>replace(/[^a-z0-9]+/g, '-')\<close>: each run of other characters becomes one hyphen.\<close>

function hyphenate :: "string \<Rightarrow> string" where
  "hyphenate [] = []"
| "hyphenate (c # cs) =
     (if slug_char c then c # hyphenate cs else hyphen # hyphenate (dropWhile (\<lambda>c. \<not> slug_char c) cs))"
  by pat_completeness auto
termination
  by (relation "measure length") (auto simp: le_imp_less_Suc length_dropWhile_le)

text \<open>\<open>replace(/-+$/, '')\<close> and \<open>replace(/^-+|-+$/g, '')\<close>.\<close>

definition drop_tail_hyphens :: "string \<Rightarrow> string" where
  "drop_tail_hyphens s = rev (dropWhile (\<lambda>c. c = hyphen) (rev s))"

definition strip_hyphens :: "string \<Rightarrow> string" where
  "strip_hyphens s = drop_tail_hyphens (dropWhile (\<lambda>c. c = hyphen) s)"

definition slugify :: "string \<Rightarrow> string" where
  "slugify input =
     (let slug = drop_tail_hyphens (take 63 (strip_hyphens (hyphenate (js_trim (js_lower input)))))
      in if length slug = 1 then slug @ slug
         else if slug = [] then ''service'' else slug)"

definition clean_suffix :: "string \<Rightarrow> string" where
  "clean_suffix suf = drop_tail_hyphens (take 60 (strip_hyphens (hyphenate (js_lower suf))))"

definition slugifyWithSuffix :: "string \<Rightarrow> string \<Rightarrow> string" where
  "slugifyWithSuffix input suf =
     (let clean = clean_suffix suf;
          room = max 2 (63 - int (length clean) - 1);
          base = take (nat room) (slugify input)
      in slugify (base @ [hyphen] @ clean))"

text \<open>
  The schema: 2 to 63 characters of \<open>/^[a-z0-9](?:[a-z0-9-]*[a-z0-9])?$/\<close>.
\<close>

definition valid_slug :: "string \<Rightarrow> bool" where
  "valid_slug s \<longleftrightarrow> 2 \<le> length s \<and> length s \<le> 63 \<and> slug_char (hd s) \<and> slug_char (last s)
     \<and> list_all (\<lambda>c. slug_char c \<or> c = hyphen) s"

subsection \<open>Hyphens are single and inside\<close>

text \<open>Texts of slug characters and single hyphens, and those that neither start nor end with one.\<close>

fun single_hyphens :: "string \<Rightarrow> bool" where
  "single_hyphens [] = True"
| "single_hyphens [c] = (slug_char c \<or> c = hyphen)"
| "single_hyphens (c # d # cs) = ((slug_char c \<or> c = hyphen \<and> slug_char d) \<and> single_hyphens (d # cs))"

definition inner_hyphens :: "string \<Rightarrow> bool" where
  "inner_hyphens s \<longleftrightarrow> single_hyphens s \<and> (s \<noteq> [] \<longrightarrow> slug_char (hd s) \<and> slug_char (last s))"

lemma hyphen_not_slug [simp]: "\<not> slug_char hyphen"
  by (simp add: slug_char_def)

lemma single_Cons: "single_hyphens (c # cs) \<longleftrightarrow>
  (slug_char c \<or> c = hyphen \<and> (cs = [] \<or> slug_char (hd cs))) \<and> single_hyphens cs"
  by (cases cs) auto

lemma single_append: "single_hyphens (xs @ ys) \<longleftrightarrow>
  single_hyphens xs \<and> single_hyphens ys \<and> (xs \<noteq> [] \<and> ys \<noteq> [] \<longrightarrow> slug_char (last xs) \<or> slug_char (hd ys))"
  by (induction xs) (auto simp: single_Cons hd_append)

lemma single_take: "single_hyphens s \<Longrightarrow> single_hyphens (take n s)"
  using single_append [of "take n s" "drop n s"] by simp

lemma single_chars: "single_hyphens s \<Longrightarrow> list_all (\<lambda>c. slug_char c \<or> c = hyphen) s"
  by (induction s) (auto simp: single_Cons)

lemma hyphenate_first: "s \<noteq> [] \<Longrightarrow> hyphenate s \<noteq> [] \<and> hd (hyphenate s) = (if slug_char (hd s) then hd s else hyphen)"
  by (cases s) simp_all

lemma hyphenate_single: "single_hyphens (hyphenate s)"
proof (induction s rule: hyphenate.induct)
  case (2 c cs)
  define rest where "rest = dropWhile (\<lambda>c. \<not> slug_char c) cs"
  have rest: "rest = [] \<or> slug_char (hd rest)"
    using hd_dropWhile [of "\<lambda>c. \<not> slug_char c" cs] by (auto simp: rest_def simp del: dropWhile_eq_Nil_conv)
  have "single_hyphens (hyphenate rest)" if "\<not> slug_char c" using "2.IH"(2) [OF that] by (simp add: rest_def)
  then show ?case
    using "2.IH"(1) rest hyphenate_first [of rest] by (cases "rest = []") (auto simp: single_Cons simp flip: rest_def)
qed simp

lemma hyphenate_id: "single_hyphens s \<Longrightarrow> hyphenate s = s"
proof (induction s)
  case (Cons c s)
  have "dropWhile (\<lambda>c. \<not> slug_char c) s = s" if "\<not> slug_char c"
    using Cons.prems that by (cases s) (auto simp: single_Cons)
  then show ?case using Cons by (auto simp: single_Cons)
qed simp

text \<open>Stripping hyphens off a text whose hyphens are single removes one at most.\<close>

lemma drop_tail_id: "s = [] \<or> last s \<noteq> hyphen \<Longrightarrow> drop_tail_hyphens s = s"
  by (cases s rule: rev_cases) (auto simp: drop_tail_hyphens_def)

lemma drop_tail_cases:
  assumes "single_hyphens s"
  obtains (kept) "drop_tail_hyphens s = s" "s = [] \<or> slug_char (last s)"
    | (cut) t where "s = t @ [hyphen]" "drop_tail_hyphens (t @ [hyphen]) = t" "t = [] \<or> slug_char (last t)"
proof (cases s rule: rev_cases)
  case Nil
  then show ?thesis using kept by (simp add: drop_tail_hyphens_def)
next
  case (snoc t c)
  then have c: "slug_char c \<or> c = hyphen" "t \<noteq> [] \<Longrightarrow> slug_char (last t) \<or> slug_char c"
    using assms by (auto simp: single_append)
  show ?thesis
  proof (cases "c = hyphen")
    case True
    then have t: "t = [] \<or> slug_char (last t)" using c by auto
    then have "drop_tail_hyphens t = t" by (intro drop_tail_id) auto
    then show ?thesis using True cut [of t] t by (simp add: snoc drop_tail_hyphens_def)
  next
    case False
    then show ?thesis using c drop_tail_id [of s] kept by (auto simp: snoc)
  qed
qed

lemma drop_tail_inner:
  assumes "single_hyphens s" and "s = [] \<or> slug_char (hd s)"
  shows "inner_hyphens (drop_tail_hyphens s)" and "length (drop_tail_hyphens s) \<le> length s"
proof -
  have "inner_hyphens (drop_tail_hyphens s) \<and> length (drop_tail_hyphens s) \<le> length s"
    using assms(1)
    by (cases rule: drop_tail_cases) (use assms in \<open>auto simp: inner_hyphens_def single_append hd_append split: if_splits\<close>)
  then show "inner_hyphens (drop_tail_hyphens s)" "length (drop_tail_hyphens s) \<le> length s" by simp_all
qed

lemma strip_inner:
  assumes "single_hyphens s"
  shows "inner_hyphens (strip_hyphens s)"
proof -
  have "single_hyphens (dropWhile (\<lambda>c. c = hyphen) s) \<and>
      (dropWhile (\<lambda>c. c = hyphen) s = [] \<or> slug_char (hd (dropWhile (\<lambda>c. c = hyphen) s)))"
    using assms by (induction s) (auto simp: single_Cons)
  then show ?thesis unfolding strip_hyphens_def by (intro drop_tail_inner) auto
qed

lemma cut_inner:
  assumes "inner_hyphens s"
  shows "inner_hyphens (drop_tail_hyphens (take n s))" and "length (drop_tail_hyphens (take n s)) \<le> n"
proof -
  have "take n s = [] \<or> slug_char (hd (take n s))"
    using assms by (cases "n = 0") (auto simp: inner_hyphens_def hd_take)
  then show "inner_hyphens (drop_tail_hyphens (take n s))" "length (drop_tail_hyphens (take n s)) \<le> n"
    using drop_tail_inner [OF single_take, of s n] assms by (auto simp: inner_hyphens_def)
qed

lemma inner_fixed:
  assumes "inner_hyphens s" and "length s \<le> n"
  shows "drop_tail_hyphens (take n (strip_hyphens (hyphenate s))) = s"
proof -
  have "dropWhile (\<lambda>c. c = hyphen) s = s" using assms(1) by (cases s) (auto simp: inner_hyphens_def)
  moreover have "drop_tail_hyphens s = s" using assms(1) by (intro drop_tail_id) (auto simp: inner_hyphens_def)
  ultimately show ?thesis using assms by (simp add: strip_hyphens_def hyphenate_id inner_hyphens_def)
qed

subsection \<open>Slugs\<close>

lemma lower_id: "list_all (\<lambda>c. slug_char c \<or> c = hyphen) s \<Longrightarrow> js_lower s = s"
  by (induction s) (auto simp: js_lower_def js_lower_char_def slug_char_def Let_def)

lemma trim_free: "list_all (\<lambda>c. \<not> js_space c) s \<Longrightarrow> js_trim s = s"
proof -
  assume all: "list_all (\<lambda>c. \<not> js_space c) s"
  have "dropWhile js_space t = t" if "list_all (\<lambda>c. \<not> js_space c) t" for t
    using that by (cases t) auto
  from this [of s] this [of "rev s"] show ?thesis using all by (simp add: js_trim_def)
qed

lemma trim_id: "list_all (\<lambda>c. slug_char c \<or> c = hyphen) s \<Longrightarrow> js_trim s = s"
  by (rule trim_free) (auto simp: list_all_iff js_space_def slug_char_def)

lemma slugify_inner: "inner_hyphens (slugify s) \<and> 2 \<le> length (slugify s) \<and> length (slugify s) \<le> 63"
proof -
  define slug where "slug = drop_tail_hyphens (take 63 (strip_hyphens (hyphenate (js_trim (js_lower s)))))"
  have inner: "inner_hyphens slug" "length slug \<le> 63"
    using cut_inner [OF strip_inner [OF hyphenate_single], of 63 "js_trim (js_lower s)"] by (simp_all add: slug_def)
  consider c where "slug = [c]" | "slug = []" | "2 \<le> length slug"
    by (cases slug rule: remdups_adj.cases) auto
  then show ?thesis
  proof cases
    case 1
    then show ?thesis using inner by (simp add: slugify_def inner_hyphens_def flip: slug_def)
  next
    case 2
    have "inner_hyphens ''service''" by (simp add: inner_hyphens_def slug_char_def)
    then show ?thesis using 2 by (simp add: slugify_def flip: slug_def)
  next
    case 3
    then show ?thesis using inner by (auto simp: slugify_def simp flip: slug_def)
  qed
qed

lemma inner_valid: "inner_hyphens s \<Longrightarrow> 2 \<le> length s \<Longrightarrow> length s \<le> 63 \<Longrightarrow> valid_slug s"
  using single_chars [of s] by (auto simp: inner_hyphens_def valid_slug_def)

lemma slugify_id:
  assumes "inner_hyphens s" and "2 \<le> length s" and "length s \<le> 63"
  shows "slugify s = s"
  using assms inner_fixed [OF assms(1,3)] single_chars [of s]
  by (auto simp: slugify_def lower_id trim_id inner_hyphens_def)

lemma slugify_is_valid: "valid_slug (slugify s)"
  using slugify_inner [of s] by (intro inner_valid) auto

text \<open>
  Claim C34. Whatever text it is given, \<open>slugify\<close> returns a slug of the schema: 2 to 63
  lower case letters, digits and hyphens, with no hyphen at either end, although the routes
  that store it never check it again. Slugging a slug again changes nothing.
\<close>

theorem slugify_is_a_slug:
  "valid_slug (slugify s) \<and> slugify (slugify s) = slugify s"
  using slugify_inner [of s] slugify_is_valid slugify_id by simp

lemma clean_suffix_inner: "inner_hyphens (clean_suffix s) \<and> length (clean_suffix s) \<le> 60"
  unfolding clean_suffix_def using cut_inner [OF strip_inner [OF hyphenate_single]] by blast

lemma hyphenate_join:
  assumes "single_hyphens s" and "inner_hyphens t" and "t \<noteq> []"
  shows "hyphenate (s @ hyphen # t) = drop_tail_hyphens s @ hyphen # t"
proof -
  have start: "\<not> slug_char (hd t) \<Longrightarrow> False" using assms(2,3) by (simp add: inner_hyphens_def)
  have t: "single_hyphens (hyphen # t)" using assms(2,3) by (auto simp: inner_hyphens_def single_Cons)
  have dash: "dropWhile (\<lambda>c. \<not> slug_char c) t = t" using start assms(3) by (cases t) auto
  have join: "hyphenate (u @ hyphen # t) = u @ hyphen # t" if "single_hyphens u" "u = [] \<or> slug_char (last u)" for u
    using that t by (intro hyphenate_id) (auto simp: single_append)
  have twice: "hyphenate (u @ [hyphen, hyphen] @ t) = u @ hyphen # t"
    if "single_hyphens u" "u = [] \<or> slug_char (last u)" for u
    using that
  proof (induction u)
    case Nil
    then show ?case using dash t by (simp add: hyphenate_id single_Cons)
  next
    case (Cons c u)
    have u: "single_hyphens u" "u = [] \<or> slug_char (last u)" using Cons.prems by (auto simp: single_Cons split: if_splits)
    show ?case
    proof (cases "slug_char c")
      case True
      then show ?thesis using Cons.IH [OF u] by simp
    next
      case False
      then have "u \<noteq> []" "slug_char (hd u)" using Cons.prems by (auto simp: single_Cons)
      then have "dropWhile (\<lambda>c. \<not> slug_char c) (u @ [hyphen, hyphen] @ t) = u @ [hyphen, hyphen] @ t"
        by (cases u) auto
      then show ?thesis using False Cons.IH [OF u] Cons.prems by (simp add: single_Cons)
    qed
  qed
  show ?thesis
    using assms(1)
    by (cases rule: drop_tail_cases) (use join twice assms(1) in \<open>auto simp: single_append\<close>)
qed

text \<open>The joined text is within the limit, so no cut of the second pass can reach the suffix.\<close>

lemma slugifyWithSuffix_ends:
  assumes "clean_suffix suf \<noteq> []"
  shows "slugifyWithSuffix input suf =
    drop_tail_hyphens (take (62 - length (clean_suffix suf)) (slugify input)) @ hyphen # clean_suffix suf"
proof -
  define clean where "clean = clean_suffix suf"
  define base where "base = take (62 - length clean) (slugify input)"
  have clean: "inner_hyphens clean" "length clean \<le> 60" "clean \<noteq> []"
    using clean_suffix_inner assms by (simp_all add: clean_def)
  have base: "inner_hyphens (drop_tail_hyphens base)" "length (drop_tail_hyphens base) \<le> 62 - length clean"
    "single_hyphens base" "base \<noteq> []" "slug_char (hd base)"
    using cut_inner [of "slugify input" "62 - length clean"] slugify_inner [of input] clean(2)
      single_take [of "slugify input"]
    by (auto simp: base_def inner_hyphens_def hd_take)
  have room: "nat (max 2 (62 - int (length clean))) = 62 - length clean"
    using clean(2) by (simp add: nat_eq_iff max_def of_nat_diff)
  define joined where "joined = drop_tail_hyphens base @ hyphen # clean"
  have tail_ne: "drop_tail_hyphens base \<noteq> []"
    using base(3) by (cases rule: drop_tail_cases) (use base(4,5) in auto)
  have "1 \<le> length clean" using clean(3) by (cases clean) simp_all
  then have joined: "inner_hyphens joined" "2 \<le> length joined" "length joined \<le> 63"
    using base(1,2) clean tail_ne
    by (auto simp: joined_def inner_hyphens_def single_append single_Cons hd_append)
  have "hyphenate (base @ hyphen # clean) = joined"
    unfolding joined_def using base(3) clean by (intro hyphenate_join)
  moreover have all: "list_all (\<lambda>c. slug_char c \<or> c = hyphen) (base @ hyphen # clean)"
    using single_chars base(3) clean(1) by (auto simp: inner_hyphens_def list_all_iff)
  moreover have "hyphenate joined = joined" using joined(1) by (intro hyphenate_id) (simp add: inner_hyphens_def)
  ultimately have "slugify (base @ hyphen # clean) = slugify joined"
    using lower_id [OF all] trim_id [OF all] lower_id [OF single_chars] trim_id [OF single_chars] joined(1)
    by (simp add: slugify_def inner_hyphens_def)
  also have "\<dots> = joined" by (rule slugify_id [OF joined])
  finally show ?thesis
    by (simp add: slugifyWithSuffix_def room base_def joined_def Let_def flip: clean_def)
qed

text \<open>
  The derivation with a suffix also returns a slug of the schema for any input and
  any suffix, of any length; and when the suffixes are plain (no hyphen once cleaned, such as the
  counters of the clone loop), different suffixes give different slugs of the same name, so the
  search for a free name never tries one twice.
\<close>

theorem suffixed_slugs_are_distinct_slugs:
  assumes "clean_suffix a \<noteq> clean_suffix b"
    and "clean_suffix a \<noteq> []" "hyphen \<notin> set (clean_suffix a)"
    and "clean_suffix b \<noteq> []" "hyphen \<notin> set (clean_suffix b)"
  shows "valid_slug (slugifyWithSuffix input suf)
    \<and> slugifyWithSuffix input a \<noteq> slugifyWithSuffix other b"
proof
  show "valid_slug (slugifyWithSuffix input suf)"
    using slugify_is_valid by (simp add: slugifyWithSuffix_def Let_def)
next
  have tail: "rev (takeWhile (\<lambda>c. c \<noteq> hyphen) (rev (slugifyWithSuffix name s))) = clean_suffix s"
    if "clean_suffix s \<noteq> []" "hyphen \<notin> set (clean_suffix s)" for name s
  proof -
    have "takeWhile (\<lambda>c. c \<noteq> hyphen) (rev (clean_suffix s)) = rev (clean_suffix s)"
      using that(2) by (auto simp: takeWhile_eq_all_conv)
    then show ?thesis using that by (simp add: slugifyWithSuffix_ends takeWhile_append)
  qed
  show "slugifyWithSuffix input a \<noteq> slugifyWithSuffix other b"
    using tail [OF assms(2,3), of input] tail [OF assms(4,5), of other] assms(1) by metis
qed

theorem suffixed_slugs_are_distinct_slugs_witness:
  "valid_slug (slugifyWithSuffix ''My App!'' ''-1-'') \<and> slugifyWithSuffix ''My App!'' ''1'' \<noteq> slugifyWithSuffix ''My App!'' ''2''"
proof -
  have "clean_suffix ''1'' = ''1''" "clean_suffix ''2'' = ''2''" by code_simp+
  then show ?thesis
    using suffixed_slugs_are_distinct_slugs [of "''1''" "''2''" "''My App!''" "''-1-''" "''My App!''"] by simp
qed

end
