(* ===== verification/FrameCipher.thy ===== *)
theory FrameCipher
  imports Prelude "HOL-Library.Word"
begin

text \<open>
  The frame cipher of the node channels (\<open>lib/agentFrameCipher.ts\<close>): the sealer and the
  opener of one direction. AES-256-GCM of node:crypto is an argument: \<open>enc\<close> gives the
  ciphertext and the tag, \<open>dec\<close> the plaintext when the tag verifies. Counters are 64 bit
  values held in a BigInt, so they are natural numbers with the limit written out.
\<close>

subsection \<open>Model\<close>

type_synonym bytes = "8 word list"
type_synonym aead_enc = "bytes \<Rightarrow> bytes \<Rightarrow> bytes \<Rightarrow> bytes \<times> bytes"
type_synonym aead_dec = "bytes \<Rightarrow> bytes \<Rightarrow> bytes \<Rightarrow> bytes \<Rightarrow> bytes option"

datatype side = Panel | Agent

fun dir_byte :: "side \<Rightarrow> 8 word" where
  "dir_byte Panel = 0x01"
| "dir_byte Agent = 0x02"

definition FRAME_DATA_CHUNK :: nat where
  "FRAME_DATA_CHUNK = 32 * 1024"

definition COUNTER_BYTES :: nat where
  "COUNTER_BYTES = 8"

definition TAG_BYTES :: nat where
  "TAG_BYTES = 16"

definition MIN_FRAME_BYTES :: nat where
  "MIN_FRAME_BYTES = COUNTER_BYTES + 1 + TAG_BYTES"

definition MAX_COUNTER :: nat where
  "MAX_COUNTER = 2 ^ 64 - 1"

definition STREAM_FRAME_TYPES :: "nat list" where
  "STREAM_FRAME_TYPES = [0, 3, 4, 5, 6, 7]"

datatype cipher_error = Malformed | OutOfOrder | Auth | UnknownType | Exhausted | Poisoned

text \<open>\<open>writeBigUInt64BE\<close> and \<open>readBigUInt64BE\<close>, for \<open>k\<close> bytes.\<close>

fun be_bytes :: "nat \<Rightarrow> nat \<Rightarrow> bytes" where
  "be_bytes 0 n = []"
| "be_bytes (Suc k) n = be_bytes k (n div 256) @ [word_of_nat n]"

definition be_read :: "bytes \<Rightarrow> nat" where
  "be_read bs = foldl (\<lambda>n b. n * 256 + unat b) 0 bs"

definition frameIv :: "side \<Rightarrow> nat \<Rightarrow> bytes" where
  "frameIv dir counter = [dir_byte dir, 0, 0, 0] @ be_bytes 8 counter"

record sealer =
  sl_key :: bytes
  sl_dir :: side
  sl_counter :: nat

definition seal :: "aead_enc \<Rightarrow> nat \<Rightarrow> bytes \<Rightarrow> sealer \<Rightarrow> (cipher_error + bytes) \<times> sealer" where
  "seal enc type payload s =
     (if sl_counter s > MAX_COUNTER then (Inl Exhausted, s)
      else
        let counter = sl_counter s;
            (ct, tag) = enc (sl_key s) (frameIv (sl_dir s) counter) (word_of_nat type # payload)
        in (Inr (be_bytes COUNTER_BYTES counter @ ct @ tag), s\<lparr>sl_counter := counter + 1\<rparr>))"

text \<open>The pieces of a long write, at most \<open>FRAME_DATA_CHUNK\<close> bytes each.\<close>

function data_chunks :: "bytes \<Rightarrow> bytes list" where
  "data_chunks bs =
     (if bs = [] then [] else take FRAME_DATA_CHUNK bs # data_chunks (drop FRAME_DATA_CHUNK bs))"
  by pat_completeness auto
termination
  by (relation "measure length") (auto simp: FRAME_DATA_CHUNK_def)

declare data_chunks.simps [simp del]

fun seal_all :: "aead_enc \<Rightarrow> (nat \<times> bytes) list \<Rightarrow> sealer \<Rightarrow> (cipher_error + bytes list) \<times> sealer" where
  "seal_all enc [] s = (Inr [], s)"
| "seal_all enc ((type, payload) # ms) s =
     (case seal enc type payload s of
        (Inl e, s') \<Rightarrow> (Inl e, s')
      | (Inr f, s') \<Rightarrow>
          (case seal_all enc ms s' of (Inl e, s'') \<Rightarrow> (Inl e, s'') | (Inr fs, s'') \<Rightarrow> (Inr (f # fs), s'')))"

definition sealData :: "aead_enc \<Rightarrow> bytes \<Rightarrow> sealer \<Rightarrow> (cipher_error + bytes list) \<times> sealer" where
  "sealData enc bs = seal_all enc (map (\<lambda>c. (0, c)) (data_chunks bs))"

record opener =
  op_key :: bytes
  op_from :: side
  op_types :: "nat list"
  op_expected :: nat
  op_poisoned :: bool

text \<open>What \<open>open\<close> does with a frame when it is not poisoned: the type and the payload.\<close>

definition open_checked :: "aead_dec \<Rightarrow> bytes \<Rightarrow> opener \<Rightarrow> cipher_error + (nat \<times> bytes)" where
  "open_checked dec frame o' =
     (if length frame < MIN_FRAME_BYTES then Inl Malformed
      else if be_read (take COUNTER_BYTES frame) \<noteq> op_expected o' then Inl OutOfOrder
      else case dec (op_key o') (frameIv (op_from o') (be_read (take COUNTER_BYTES frame)))
             (take (length frame - TAG_BYTES - COUNTER_BYTES) (drop COUNTER_BYTES frame))
             (drop (length frame - TAG_BYTES) frame) of
        None \<Rightarrow> Inl Auth
      | Some [] \<Rightarrow> Inl UnknownType
      | Some (t # payload) \<Rightarrow> if unat t \<in> set (op_types o') then Inr (unat t, payload) else Inl UnknownType)"

definition open_frame :: "aead_dec \<Rightarrow> bytes \<Rightarrow> opener \<Rightarrow> (cipher_error + (nat \<times> bytes)) \<times> opener" where
  "open_frame dec frame o' =
     (if op_poisoned o' then (Inl Poisoned, o')
      else case open_checked dec frame o' of
        Inl e \<Rightarrow> (Inl e, o'\<lparr>op_poisoned := True\<rparr>)
      | Inr m \<Rightarrow> (Inr m, o'\<lparr>op_expected := op_expected o' + 1\<rparr>))"

text \<open>The frames a channel receives, one after the other: what it accepted.\<close>

fun open_all :: "aead_dec \<Rightarrow> bytes list \<Rightarrow> opener \<Rightarrow> (nat \<times> bytes) list \<times> opener" where
  "open_all dec [] o' = ([], o')"
| "open_all dec (f # fs) o' =
     (case open_frame dec f o' of
        (Inl e, o'') \<Rightarrow> open_all dec fs o''
      | (Inr m, o'') \<Rightarrow> (let (ms, o3) = open_all dec fs o'' in (m # ms, o3)))"

subsection \<open>Counters\<close>

lemma be_bytes_length [simp]: "length (be_bytes k n) = k"
  by (induction k arbitrary: n) simp_all

lemma be_read_snoc: "be_read (bs @ [b]) = be_read bs * 256 + unat b"
  by (simp add: be_read_def)

lemma be_read_bytes: "n < 256 ^ k \<Longrightarrow> be_read (be_bytes k n) = n"
proof (induction k arbitrary: n)
  case (Suc k)
  have "n div 256 < 256 ^ k" using Suc.prems by (simp add: less_mult_imp_div_less mult.commute)
  moreover have "unat (word_of_nat n :: 8 word) = n mod 256"
    by (simp add: unat_of_nat)
  ultimately show ?case using Suc.IH by (simp add: be_read_snoc mult.commute [of _ 256])
qed (simp add: be_read_def)

lemma frameIv_inject:
  assumes "frameIv d n = frameIv e m" and "n \<le> MAX_COUNTER" "m \<le> MAX_COUNTER"
  shows "d = e \<and> n = m"
proof -
  have dirs: "dir_byte d = dir_byte e" and counters: "be_bytes 8 n = be_bytes 8 m"
    using assms(1) by (simp_all add: frameIv_def)
  have "d = e" using dirs by (cases d; cases e) simp_all
  moreover have "n < 256 ^ 8" "m < 256 ^ 8" using assms(2,3) by (simp_all add: MAX_COUNTER_def)
  then have "n = m" using counters be_read_bytes by metis
  ultimately show ?thesis ..
qed

lemma seal_ok:
  "sl_counter s \<le> MAX_COUNTER \<Longrightarrow> seal enc type payload s =
     (Inr (be_bytes 8 (sl_counter s) @ fst (enc (sl_key s) (frameIv (sl_dir s) (sl_counter s)) (word_of_nat type # payload))
        @ snd (enc (sl_key s) (frameIv (sl_dir s) (sl_counter s)) (word_of_nat type # payload))),
      s\<lparr>sl_counter := sl_counter s + 1\<rparr>)"
  by (simp add: seal_def Let_def COUNTER_BYTES_def split: prod.split)

subsection \<open>What an opener accepts\<close>

lemma open_all_poisoned: "op_poisoned o' \<Longrightarrow> open_all dec fs o' = ([], o')"
  by (induction fs) (simp_all add: open_frame_def)

lemma open_checked_ok:
  assumes "open_checked dec f o' = Inr (type, payload)"
  obtains ct tag t where "dec (op_key o') (frameIv (op_from o') (op_expected o')) ct tag = Some (t # payload)"
    and "type = unat t" and "type \<in> set (op_types o')"
proof -
  let ?ct = "take (length f - TAG_BYTES - COUNTER_BYTES) (drop COUNTER_BYTES f)"
  let ?tag = "drop (length f - TAG_BYTES) f"
  from assms have "\<exists>t. dec (op_key o') (frameIv (op_from o') (op_expected o')) ?ct ?tag = Some (t # payload)
      \<and> type = unat t \<and> type \<in> set (op_types o')"
    by (auto simp: open_checked_def split: if_splits option.splits list.splits)
  then show ?thesis using that by blast
qed

text \<open>
  Claim C13. Whatever bytes arrive, in whatever order, an opener accepts a prefix of what the
  other side sealed, in order, each message once: a gap, a replay, a reordered, reflected or
  forged frame is refused, and nothing is accepted after it. The hypothesis is the authenticity
  of the cipher: a text authenticates under the sender's IV of a counter only if it is the text
  sealed with that counter.
\<close>

theorem accepted_frames_are_a_prefix:
  assumes "\<And>n ct tag pt. n \<le> MAX_COUNTER \<Longrightarrow> dec key (frameIv from' n) ct tag = Some pt \<Longrightarrow>
      n < length sealed \<and> pt = word_of_nat (fst (sealed ! n)) # snd (sealed ! n)"
    and "list_all (\<lambda>m. fst m < 256) sealed" and "length sealed \<le> MAX_COUNTER"
  shows "\<exists>n. fst (open_all dec frames \<lparr>op_key = key, op_from = from', op_types = types, op_expected = 0, op_poisoned = False\<rparr>)
    = take n sealed"
proof -
  have "\<exists>n. fst (open_all dec fs o') = take n (drop (op_expected o') sealed)"
    if "op_key o' = key" "op_from o' = from'" "op_expected o' \<le> length sealed" "\<not> op_poisoned o'" for fs o'
    using that
  proof (induction fs arbitrary: o')
    case Nil
    then show ?case by (simp add: exI [of _ 0])
  next
    case (Cons f fs)
    show ?case
    proof (cases "open_checked dec f o'")
      case (Inl e)
      then have "fst (open_all dec (f # fs) o') = []"
        using Cons.prems(4) open_all_poisoned [of "o'\<lparr>op_poisoned := True\<rparr>"] by (simp add: open_frame_def)
      then show ?thesis by (metis take_0)
    next
      case (Inr m)
      obtain type payload where m: "m = (type, payload)" by (cases m)
      let ?n = "op_expected o'"
      obtain ct tag t where t: "dec (op_key o') (frameIv (op_from o') ?n) ct tag = Some (t # payload)" "type = unat t"
        using open_checked_ok [OF Inr [unfolded m]] by metis
      then have at: "?n < length sealed" "t = word_of_nat (fst (sealed ! ?n))" "payload = snd (sealed ! ?n)"
        using assms(1) [of ?n ct tag "t # payload"] Cons.prems(1,2,3) assms(3) by auto
      have "fst (sealed ! ?n) < 256" using assms(2) at(1) by (simp add: list_all_length)
      then have "type = fst (sealed ! ?n)" using at(2) t(2) by (simp add: unat_of_nat)
      then have m': "m = sealed ! ?n" using at(3) m by (simp add: prod_eq_iff)
      have step: "fst (open_all dec (f # fs) o') = m # fst (open_all dec fs (o'\<lparr>op_expected := ?n + 1\<rparr>))"
        using Inr Cons.prems(4) by (simp add: open_frame_def split: prod.split)
      obtain k where k: "fst (open_all dec fs (o'\<lparr>op_expected := ?n + 1\<rparr>)) = take k (drop (?n + 1) sealed)"
        using Cons.IH [of "o'\<lparr>op_expected := ?n + 1\<rparr>"] Cons.prems at(1) by auto
      have d: "drop ?n sealed = m # drop (?n + 1) sealed" using at(1) m' by (simp add: Cons_nth_drop_Suc)
      have "take (Suc k) (drop ?n sealed) = fst (open_all dec (f # fs) o')"
        by (simp only: step k d take_Suc_Cons)
      then show ?thesis by metis
    qed
  qed
  from this [of "\<lparr>op_key = key, op_from = from', op_types = types, op_expected = 0, op_poisoned = False\<rparr>"]
  show ?thesis by simp
qed

text \<open>
  The witness: two messages sealed by a cipher that only authenticates what was sealed, and a
  channel on which the first frame is replayed.
\<close>

definition two_messages :: "(nat \<times> bytes) list" where
  "two_messages = [(5, []), (0, [7, 8])]"

definition toy_tag :: bytes where
  "toy_tag = replicate 16 0"

definition toy_dec :: aead_dec where
  "toy_dec key iv ct tag =
     (if tag = toy_tag \<and> ((iv = frameIv Panel 0 \<and> ct = [5]) \<or> (iv = frameIv Panel 1 \<and> ct = [0, 7, 8]))
      then Some ct else None)"

theorem accepted_frames_are_a_prefix_witness:
  "\<exists>n. fst (open_all toy_dec [be_bytes 8 0 @ [5] @ toy_tag, be_bytes 8 0 @ [5] @ toy_tag, be_bytes 8 1 @ [0, 7, 8] @ toy_tag]
       \<lparr>op_key = [], op_from = Panel, op_types = STREAM_FRAME_TYPES, op_expected = 0, op_poisoned = False\<rparr>)
     = take n two_messages"
proof (rule accepted_frames_are_a_prefix)
  fix n ct tag pt
  assume n: "n \<le> MAX_COUNTER" and d: "toy_dec [] (frameIv Panel n) ct tag = Some pt"
  have iv: "frameIv Panel n = frameIv Panel k \<Longrightarrow> n = k" if "k \<le> 1" for k
    using frameIv_inject [of Panel n Panel k] n that by (simp add: MAX_COUNTER_def)
  show "n < length two_messages \<and> pt = word_of_nat (fst (two_messages ! n)) # snd (two_messages ! n)"
    using d iv [of 0] iv [of 1] by (auto simp: toy_dec_def two_messages_def split: if_splits)
qed (simp_all add: two_messages_def MAX_COUNTER_def)

subsection \<open>An undisturbed channel\<close>

lemma open_sealed:
  assumes seal: "seal enc type payload s = (Inr f, s')" and "type < 256" "type \<in> set (op_types o')"
    and "op_key o' = sl_key s" "op_from o' = sl_dir s" "op_expected o' = sl_counter s" "\<not> op_poisoned o'"
    and dec: "\<And>key iv pt. dec key iv (fst (enc key iv pt)) (snd (enc key iv pt)) = Some pt"
    and len: "\<And>key iv pt. length (fst (enc key iv pt)) = length pt \<and> length (snd (enc key iv pt)) = 16"
  shows "open_frame dec f o' = (Inr (type, payload), o'\<lparr>op_expected := sl_counter s + 1\<rparr>)
    \<and> s' = s\<lparr>sl_counter := sl_counter s + 1\<rparr>"
proof -
  let ?n = "sl_counter s"
  let ?pt = "word_of_nat type # payload"
  let ?c = "enc (sl_key s) (frameIv (sl_dir s) ?n) ?pt"
  have n: "?n \<le> MAX_COUNTER" using seal by (auto simp: seal_def split: if_splits)
  have f: "f = be_bytes 8 ?n @ fst ?c @ snd ?c" "s' = s\<lparr>sl_counter := ?n + 1\<rparr>"
    using seal seal_ok [OF n, of enc type payload] by simp_all
  have size: "length (fst ?c) = Suc (length payload)" "length (snd ?c) = 16" using len by simp_all
  have read: "be_read (take COUNTER_BYTES f) = ?n"
    using be_read_bytes [of ?n 8] n by (simp add: f COUNTER_BYTES_def MAX_COUNTER_def)
  have parts: "take (length f - TAG_BYTES - COUNTER_BYTES) (drop COUNTER_BYTES f) = fst ?c"
    "drop (length f - TAG_BYTES) f = snd ?c" "\<not> length f < MIN_FRAME_BYTES"
    using size by (simp_all add: f COUNTER_BYTES_def TAG_BYTES_def MIN_FRAME_BYTES_def)
  have "open_checked dec f o' = Inr (type, payload)"
    unfolding open_checked_def read parts
    using assms(2-6) parts(3) dec by (simp add: unat_of_nat)
  then show ?thesis using assms(6,7) f(2) by (simp add: open_frame_def)
qed

text \<open>
  Messages sealed one after the other and opened in that order come out as they went
  in: as long as the counter lasts, neither side refuses one. The hypotheses are that the cipher
  opens what it sealed, keeps the length of the text and has a tag of 16 bytes.
\<close>

theorem sealed_messages_open:
  assumes "\<And>key iv pt. dec key iv (fst (enc key iv pt)) (snd (enc key iv pt)) = Some pt"
    and "\<And>key iv pt. length (fst (enc key iv pt)) = length pt \<and> length (snd (enc key iv pt)) = 16"
    and "list_all (\<lambda>m. fst m < 256 \<and> fst m \<in> set types) ms" and "length ms \<le> MAX_COUNTER"
  shows "\<exists>frames s'. seal_all enc ms \<lparr>sl_key = key, sl_dir = dir, sl_counter = 0\<rparr> = (Inr frames, s')
    \<and> fst (open_all dec frames \<lparr>op_key = key, op_from = dir, op_types = types, op_expected = 0, op_poisoned = False\<rparr>) = ms"
proof -
  have "\<exists>frames s'. seal_all enc ms s = (Inr frames, s') \<and> fst (open_all dec frames o') = ms"
    if "op_key o' = sl_key s" "op_from o' = sl_dir s" "op_expected o' = sl_counter s" "\<not> op_poisoned o'"
      "op_types o' = types" "sl_counter s + length ms \<le> MAX_COUNTER + 1" for s o'
    using that assms(3)
  proof (induction ms arbitrary: s o')
    case (Cons m ms)
    obtain type payload where m: "m = (type, payload)" by (cases m)
    obtain f s' where seal: "seal enc type payload s = (Inr f, s')"
      using seal_ok [of s enc type payload] Cons.prems(6) by simp
    have o': "open_frame dec f o' = (Inr (type, payload), o'\<lparr>op_expected := sl_counter s + 1\<rparr>)"
      "s' = s\<lparr>sl_counter := sl_counter s + 1\<rparr>"
      using open_sealed [OF seal _ _ Cons.prems(1-4) assms(1,2)] Cons.prems(5,7) by (auto simp: m)
    obtain frames s'' where "seal_all enc ms s' = (Inr frames, s'')"
      "fst (open_all dec frames (o'\<lparr>op_expected := sl_counter s + 1\<rparr>)) = ms"
      using Cons.IH [of "o'\<lparr>op_expected := sl_counter s + 1\<rparr>" s'] Cons.prems o'(2) by auto
    then show ?case using seal o'(1) by (auto simp: m split: prod.split)
  qed simp
  then show ?thesis using assms(4) by simp
qed

definition toy_enc :: aead_enc where
  "toy_enc key iv pt = (pt, toy_tag)"

theorem sealed_messages_open_witness:
  "\<exists>frames s'. seal_all toy_enc two_messages \<lparr>sl_key = [], sl_dir = Panel, sl_counter = 0\<rparr> = (Inr frames, s')
    \<and> fst (open_all (\<lambda>key iv ct tag. Some ct) frames
        \<lparr>op_key = [], op_from = Panel, op_types = STREAM_FRAME_TYPES, op_expected = 0, op_poisoned = False\<rparr>) = two_messages"
  by (rule sealed_messages_open)
    (simp_all add: toy_enc_def toy_tag_def two_messages_def STREAM_FRAME_TYPES_def MAX_COUNTER_def)

text \<open>The pieces of a long write are the write.\<close>

lemma data_chunks_concat: "concat (data_chunks bs) = bs \<and> (\<forall>c \<in> set (data_chunks bs). c \<noteq> [] \<and> length c \<le> FRAME_DATA_CHUNK)"
proof (induction bs rule: data_chunks.induct)
  case (1 bs)
  have "data_chunks [] = []" by (simp add: data_chunks.simps)
  then show ?case using 1 by (cases "bs = []") (auto simp: data_chunks.simps [of bs] FRAME_DATA_CHUNK_def)
qed

lemma seal_all_frames:
  "seal_all enc ms s = (Inr fs, s') \<Longrightarrow> length fs = length ms \<and> (ms \<noteq> [] \<longrightarrow> sl_counter s + length ms \<le> MAX_COUNTER + 1)
   \<and> (\<forall>i < length fs. \<exists>pt. fs ! i = be_bytes 8 (sl_counter s + i)
        @ fst (enc (sl_key s) (frameIv (sl_dir s) (sl_counter s + i)) pt)
        @ snd (enc (sl_key s) (frameIv (sl_dir s) (sl_counter s + i)) pt))"
proof (induction ms arbitrary: s fs)
  case (Cons m ms)
  obtain type payload where m: "m = (type, payload)" by (cases m)
  have n: "sl_counter s \<le> MAX_COUNTER"
    using Cons.prems by (auto simp: m seal_def split: if_splits)
  obtain f s1 where seal: "seal enc type payload s = (Inr f, s1)" "s1 = s\<lparr>sl_counter := sl_counter s + 1\<rparr>"
    using seal_ok [OF n, of enc type payload] by simp
  obtain gs where gs: "seal_all enc ms s1 = (Inr gs, s')" "fs = f # gs"
    using Cons.prems seal(1) by (auto simp: m split: prod.splits sum.splits)
  note IH = Cons.IH [OF gs(1)]
  have len: "length fs = length (m # ms)" using IH by (simp add: gs(2))
  have cnt: "sl_counter s + length (m # ms) \<le> MAX_COUNTER + 1" using IH n seal(2) by (cases ms) auto
  show ?case
  proof (intro conjI allI impI, goal_cases)
    case (3 i)
    show ?case
    proof (cases i)
      case 0
      then show ?thesis using seal(1) seal_ok [OF n, of enc type payload] by (auto simp: gs(2))
    next
      case (Suc j)
      then show ?thesis using IH 3 by (simp add: gs(2) seal(2))
    qed
  qed (use len cnt in simp_all)
qed simp

text \<open>
  Claim C35. Under one key no initialisation vector is used twice: the frames both sides ever
  seal are encrypted under vectors that all differ, and a sealer whose 64 bit counter is used
  up refuses to seal instead of starting again.
\<close>

theorem iv_never_reused:
  assumes "seal_all enc ms \<lparr>sl_key = key, sl_dir = Panel, sl_counter = 0\<rparr> = (Inr fs, s1)"
    and "seal_all enc ns \<lparr>sl_key = key, sl_dir = Agent, sl_counter = 0\<rparr> = (Inr gs, s2)"
  shows "\<exists>ivs jvs. length ivs = length fs \<and> length jvs = length gs \<and> distinct (ivs @ jvs)
    \<and> (\<forall>i < length fs. \<exists>pt. fs ! i = be_bytes 8 i @ fst (enc key (ivs ! i) pt) @ snd (enc key (ivs ! i) pt))
    \<and> (\<forall>i < length gs. \<exists>pt. gs ! i = be_bytes 8 i @ fst (enc key (jvs ! i) pt) @ snd (enc key (jvs ! i) pt))"
proof -
  note F = seal_all_frames [OF assms(1), simplified] and G = seal_all_frames [OF assms(2), simplified]
  have small: "length fs \<le> MAX_COUNTER + 1" "length gs \<le> MAX_COUNTER + 1"
    using F G by (cases "ms = []"; cases "ns = []"; simp)+
  have "distinct (map (frameIv Panel) [0..<length fs] @ map (frameIv Agent) [0..<length gs])"
    using small frameIv_inject by (auto simp: distinct_map inj_on_def) (metis less_Suc_eq_le less_le_trans side.distinct(1))+
  then show ?thesis
    using F G by (intro exI [of _ "map (frameIv Panel) [0..<length fs]"] exI [of _ "map (frameIv Agent) [0..<length gs]"]) simp
qed

theorem iv_never_reused_witness:
  "\<exists>ivs jvs. length ivs = length [be_bytes 8 0 @ [5] @ toy_tag] \<and> length jvs = length [be_bytes 8 0 @ [0, 1] @ toy_tag]
    \<and> distinct (ivs @ jvs)
    \<and> (\<forall>i < length [be_bytes 8 0 @ [5] @ toy_tag]. \<exists>pt. [be_bytes 8 0 @ [5] @ toy_tag] ! i
         = be_bytes 8 i @ fst (toy_enc [] (ivs ! i) pt) @ snd (toy_enc [] (ivs ! i) pt))
    \<and> (\<forall>i < length [be_bytes 8 0 @ [0, 1] @ toy_tag]. \<exists>pt. [be_bytes 8 0 @ [0, 1] @ toy_tag] ! i
         = be_bytes 8 i @ fst (toy_enc [] (jvs ! i) pt) @ snd (toy_enc [] (jvs ! i) pt))"
  by (rule iv_never_reused [where ms = "[(5, [])]" and ns = "[(0, [1])]"
        and ?s1.0 = "\<lparr>sl_key = [], sl_dir = Panel, sl_counter = 1\<rparr>" and ?s2.0 = "\<lparr>sl_key = [], sl_dir = Agent, sl_counter = 1\<rparr>"])
    (simp_all add: seal_def toy_enc_def Let_def COUNTER_BYTES_def MAX_COUNTER_def)

end
