(* ===== verification/RelayChannel.thy ===== *)
theory RelayChannel
  imports FrameCipher
begin

text \<open>
  The Studio relay channel (\<open>lib/studioRelayChannel.ts\<close>): one end of a full-duplex body
  exchange with credit-based flow control, and the exchange of two ends over an ordered,
  authenticated transport (what FrameCipher shows of the frames). The sha256 of a body and the
  JSON codec of an end frame are the arguments \<open>sha\<close>, \<open>enc_end\<close> and \<open>dec_end\<close>.
\<close>

subsection \<open>Model\<close>

datatype relay_type = TData | TStart | THead | TClose | TPause | TResume | TEnd | TError

type_synonym relay_frame = "relay_type \<times> bytes"

























subsection \<open>Two ends and the transport between them\<close>






subsection \<open>What each operation does to the two directions\<close>

definition datas :: "relay_frame list \<Rightarrow> bytes" where
  "datas fs = concat (map snd (filter (\<lambda>f. fst f = TData) fs))"

definition credits :: "relay_frame list \<Rightarrow> nat list" where
  "credits fs = map (\<lambda>f. be_read (snd f)) (filter (\<lambda>f. fst f = TResume) fs)"

definition ends :: "relay_frame list \<Rightarrow> bytes list" where
  "ends fs = map snd (filter (\<lambda>f. fst f = TEnd) fs)"

lemma frames_append [simp]:
  "datas (fs @ gs) = datas fs @ datas gs" "credits (fs @ gs) = credits fs @ credits gs" "ends (fs @ gs) = ends fs @ ends gs"
  by (simp_all add: datas_def credits_def ends_def)

lemma frames_Cons [simp]:
  "datas (f # fs) = (if fst f = TData then snd f else []) @ datas fs"
  "credits (f # fs) = (if fst f = TResume then [be_read (snd f)] else []) @ credits fs"
  "ends (f # fs) = (if fst f = TEnd then [snd f] else []) @ ends fs"
  by (simp_all add: datas_def credits_def ends_def)

lemma frames_Nil [simp]: "datas [] = []" "credits [] = []" "ends [] = []"
  by (simp_all add: datas_def credits_def ends_def)











subsection \<open>One direction of the exchange\<close>






















subsection \<open>Every step keeps both directions\<close>
























subsection \<open>Reachable exchanges\<close>









subsection \<open>A whole exchange\<close>

























end
