(* ===== verification/CanaryState.thy ===== *)
theory CanaryState
  imports Autoscale Glob
begin

text \<open>
  Canary releases in progress (\<open>engine/canaryState.ts\<close>): the two maps of the module, every
  operation on them, and the judgement of a step (\<open>packages/schemas/src/canary.ts\<close>). A
  JavaScript \<open>Symbol\<close> is a number never handed out before. Milliseconds of a response are
  rationals.
\<close>

subsection \<open>Model\<close>

record canary_route =
  cr_runtime :: string
  cr_replicas :: nat
  cr_port :: "int option"
  cr_weight :: int

record canary_placement =
  cp_server :: "int option"
  cp_stable :: "string option"

definition CANARY_SAMPLE_CAP :: nat where
  "CANARY_SAMPLE_CAP = 20000"

record canary_sample =
  sm_requests :: nat
  sm_errors :: nat
  sm_durations :: "rat list"

record release_stats =
  rs_requests :: nat
  rs_errors :: nat
  rs_error_rate :: "rat option"
  rs_p95 :: "int option"

record stats_pair =
  sp_canary :: release_stats
  sp_stable :: release_stats

record active_canary =
  ca_owner :: nat
  ca_server :: "int option"
  ca_stable_runtime :: "string option"
  ca_deployment :: int
  ca_slug :: string
  ca_steps :: nat
  ca_step :: nat
  ca_route :: "canary_route option"
  ca_started :: ms
  ca_ends :: ms
  ca_measured :: bool
  ca_external :: bool
  ca_promote :: bool
  ca_canary :: canary_sample
  ca_stable :: canary_sample
  ca_observed :: "stats_pair option"

text \<open>The maps \<open>active\<close> and \<open>serviceBySlug\<close>, and the next symbol.\<close>

record canary_registry =
  cn_active :: "(int \<times> active_canary) list"
  cn_slugs :: "(string \<times> int) list"
  cn_next :: nat

definition empty_sample :: canary_sample where
  "empty_sample = \<lparr>sm_requests = 0, sm_errors = 0, sm_durations = []\<rparr>"

definition canary_of :: "canary_registry \<Rightarrow> int \<Rightarrow> active_canary option" where
  "canary_of r sid = map_of (cn_active r) sid"

definition endCanary :: "int \<Rightarrow> int option \<Rightarrow> nat option \<Rightarrow> canary_registry \<Rightarrow> canary_registry" where
  "endCanary sid deployment owner r =
     (case canary_of r sid of
        None \<Rightarrow> r
      | Some c \<Rightarrow>
          if (deployment \<noteq> None \<and> deployment \<noteq> Some (ca_deployment c)) \<or> (owner \<noteq> None \<and> owner \<noteq> Some (ca_owner c))
          then r
          else r\<lparr>cn_active := AList.delete sid (cn_active r),
                 cn_slugs := (if map_of (cn_slugs r) (ca_slug c) = Some sid
                              then AList.delete (ca_slug c) (cn_slugs r) else cn_slugs r)\<rparr>)"

text \<open>\<open>Inl\<close>: a placement on a node needs its id and its stable runtime.\<close>

definition bad_placement :: "canary_placement \<Rightarrow> bool" where
  "bad_placement p = (case cp_server p of None \<Rightarrow> False
     | Some n \<Rightarrow> n \<le> 0 \<or> n \<ge> 2 ^ 53 \<or> cp_stable p = None \<or> cp_stable p = Some [])"

definition beginCanary ::
  "int \<Rightarrow> string \<Rightarrow> int \<Rightarrow> nat \<Rightarrow> bool \<Rightarrow> bool \<Rightarrow> canary_placement \<Rightarrow> canary_registry \<Rightarrow>
     unit + (nat \<times> canary_registry)" where
  "beginCanary sid slug deployment steps measured external placement r =
     (if bad_placement placement then Inl ()
      else
        let owner = cn_next r;
            r' = endCanary sid None None r;
            c = \<lparr>ca_owner = owner, ca_server = cp_server placement, ca_stable_runtime = cp_stable placement,
                 ca_deployment = deployment, ca_slug = slug, ca_steps = steps, ca_step = 0, ca_route = None,
                 ca_started = 0, ca_ends = 0, ca_measured = measured, ca_external = external, ca_promote = False,
                 ca_canary = empty_sample, ca_stable = empty_sample, ca_observed = None\<rparr>
        in Inr (owner, r'\<lparr>cn_active := AList.update sid c (cn_active r'),
                         cn_slugs := AList.update slug sid (cn_slugs r'), cn_next := owner + 1\<rparr>))"

text \<open>A change of the canary of a service, where there is one.\<close>

definition change_canary :: "int \<Rightarrow> (active_canary \<Rightarrow> active_canary) \<Rightarrow> canary_registry \<Rightarrow> canary_registry" where
  "change_canary sid f r =
     (case canary_of r sid of None \<Rightarrow> r | Some c \<Rightarrow> r\<lparr>cn_active := AList.update sid (f c) (cn_active r)\<rparr>)"

definition setCanaryStep :: "int \<Rightarrow> nat \<Rightarrow> canary_route \<Rightarrow> ms \<Rightarrow> ms \<Rightarrow> canary_registry \<Rightarrow> canary_registry" where
  "setCanaryStep sid step route startedAt endsAt =
     change_canary sid (\<lambda>c. c\<lparr>ca_step := step, ca_route := Some route, ca_started := startedAt, ca_ends := endsAt,
       ca_canary := empty_sample, ca_stable := empty_sample, ca_observed := None\<rparr>)"

definition canaryRouteFor :: "int \<Rightarrow> canary_placement option \<Rightarrow> canary_registry \<Rightarrow> canary_route option" where
  "canaryRouteFor sid placement r =
     (case canary_of r sid of
        None \<Rightarrow> None
      | Some c \<Rightarrow>
          (case placement of
             None \<Rightarrow> ca_route c
           | Some p \<Rightarrow>
               if ca_server c \<noteq> cp_server p \<or> (ca_stable_runtime c \<noteq> None \<and> ca_stable_runtime c \<noteq> cp_stable p)
               then None else ca_route c))"

definition canaryActive :: "int \<Rightarrow> canary_registry \<Rightarrow> bool" where
  "canaryActive sid r \<longleftrightarrow> canary_of r sid \<noteq> None"

definition nodeCanaryRoutingActive :: "int \<Rightarrow> canary_registry \<Rightarrow> bool" where
  "nodeCanaryRoutingActive server r \<longleftrightarrow>
     list_ex (\<lambda>(_, c). ca_server c = Some server \<and> ca_route c \<noteq> None) (cn_active r)"

definition canaryOwnedBy :: "int \<Rightarrow> int \<Rightarrow> nat option \<Rightarrow> canary_registry \<Rightarrow> bool" where
  "canaryOwnedBy sid deployment owner r \<longleftrightarrow>
     (case canary_of r sid of
        None \<Rightarrow> False
      | Some c \<Rightarrow> ca_deployment c = deployment \<and> (owner = None \<or> owner = Some (ca_owner c)))"

definition js_num :: "char \<Rightarrow> bool" where
  "js_num c \<longleftrightarrow> 48 \<le> (of_char c :: nat) \<and> (of_char c :: nat) \<le> 57"

definition provider_char :: "char \<Rightarrow> bool" where
  "provider_char c \<longleftrightarrow>
     (let k = (of_char c :: nat) in 65 \<le> k \<and> k \<le> 90 \<or> 97 \<le> k \<and> k \<le> 122 \<or> 48 \<le> k \<and> k \<le> 57 \<or> k = 95 \<or> k = 45)"

text \<open>
  \<open>SERVICE_NAME_RE\<close>: the slug and whether the leaf is the canary's. The expression takes the
  longest slug, so a name without an \<open>@provider\<close> part is tried before one with it.
\<close>

definition leaf_body :: "string \<Rightarrow> string option" where
  "leaf_body body =
     (let digits = takeWhile js_num (rev body); rest = dropWhile js_num (rev body)
      in if digits = [] \<or> rest = [] \<or> hd rest \<noteq> CHR ''_'' then None
         else
           let name = rev (tl rest); slug = drop 4 name
           in if starts_with name ''svc_'' \<and> slug \<noteq> [] \<and> CHR 0x0A \<notin> set slug \<and> CHR 0x0D \<notin> set slug
              then Some slug else None)"

definition leaf_name :: "string \<Rightarrow> (string \<times> bool) option" where
  "leaf_name name =
     (if starts_with (rev name) (rev ''_canary'')
      then map_option (\<lambda>s. (s, True)) (leaf_body (take (length name - 7) name))
      else if starts_with (rev name) (rev ''_stable'')
      then map_option (\<lambda>s. (s, False)) (leaf_body (take (length name - 7) name))
      else None)"

definition service_name :: "string \<Rightarrow> (string \<times> bool) option" where
  "service_name name =
     (case leaf_name name of
        Some r \<Rightarrow> Some r
      | None \<Rightarrow>
          let rest = dropWhile provider_char (rev name)
          in if takeWhile provider_char (rev name) = [] \<or> rest = [] \<or> hd rest \<noteq> CHR ''@'' then None
             else leaf_name (rev (tl rest)))"

definition count_hit :: "nat \<Rightarrow> rat \<Rightarrow> canary_sample \<Rightarrow> canary_sample" where
  "count_hit status duration s =
     s\<lparr>sm_requests := sm_requests s + 1,
       sm_errors := (if status \<ge> 500 then sm_errors s + 1 else sm_errors s),
       sm_durations := (if length (sm_durations s) < CANARY_SAMPLE_CAP then sm_durations s @ [duration]
                        else sm_durations s)\<rparr>"

definition recordCanaryHit :: "string option \<Rightarrow> nat \<Rightarrow> rat \<Rightarrow> ms \<Rightarrow> canary_registry \<Rightarrow> canary_registry" where
  "recordCanaryHit name status duration start r =
     (case name of
        None \<Rightarrow> r
      | Some n \<Rightarrow>
          if n = [] \<or> cn_active r = [] then r
          else case service_name n of
            None \<Rightarrow> r
          | Some (slug, leaf) \<Rightarrow>
              (case map_of (cn_slugs r) slug of
                 None \<Rightarrow> r
               | Some sid \<Rightarrow>
                   change_canary sid (\<lambda>c.
                     if ca_route c = None \<or> ca_external c \<or> start < ca_started c then c
                     else if leaf then c\<lparr>ca_canary := count_hit status duration (ca_canary c)\<rparr>
                     else c\<lparr>ca_stable := count_hit status duration (ca_stable c)\<rparr>) r))"

definition canary_p95 :: "rat list \<Rightarrow> int option" where
  "canary_p95 ds = (if ds = [] then None else Some (js_round (sort ds ! ((19 * length ds + 19) div 20 - 1))))"

definition errorRatePercent :: "nat \<Rightarrow> nat \<Rightarrow> rat option" where
  "errorRatePercent errors requests =
     (if requests = 0 then None else Some (of_int (js_round (of_nat errors / of_nat requests * 10000)) / 100))"

definition canary_view :: "canary_sample \<Rightarrow> release_stats" where
  "canary_view s =
     \<lparr>rs_requests = sm_requests s, rs_errors = sm_errors s,
      rs_error_rate = errorRatePercent (sm_errors s) (sm_requests s), rs_p95 = canary_p95 (sm_durations s)\<rparr>"

definition current_stats :: "active_canary \<Rightarrow> stats_pair" where
  "current_stats c = (case ca_observed c of Some o' \<Rightarrow> o'
     | None \<Rightarrow> \<lparr>sp_canary = canary_view (ca_canary c), sp_stable = canary_view (ca_stable c)\<rparr>)"

definition canaryStats :: "int \<Rightarrow> canary_registry \<Rightarrow> stats_pair option" where
  "canaryStats sid r = map_option current_stats (canary_of r sid)"

definition setCanaryObservation :: "int \<Rightarrow> int \<Rightarrow> nat \<Rightarrow> stats_pair \<Rightarrow> canary_registry \<Rightarrow> bool \<times> canary_registry" where
  "setCanaryObservation sid deployment step stats r =
     (case canary_of r sid of
        None \<Rightarrow> (False, r)
      | Some c \<Rightarrow>
          if ca_route c = None \<or> ca_deployment c \<noteq> deployment \<or> ca_step c \<noteq> step then (False, r)
          else (True, change_canary sid (\<lambda>c. c\<lparr>ca_observed := Some stats\<rparr>) r))"

definition requestCanaryPromote :: "int \<Rightarrow> int \<Rightarrow> canary_registry \<Rightarrow> bool \<times> canary_registry" where
  "requestCanaryPromote sid deployment r =
     (case canary_of r sid of
        None \<Rightarrow> (False, r)
      | Some c \<Rightarrow>
          if ca_deployment c \<noteq> deployment then (False, r)
          else (True, change_canary sid (\<lambda>c. c\<lparr>ca_promote := True\<rparr>) r))"

definition canaryPromoteRequested :: "int \<Rightarrow> canary_registry \<Rightarrow> bool" where
  "canaryPromoteRequested sid r = (case canary_of r sid of None \<Rightarrow> False | Some c \<Rightarrow> ca_promote c)"

subsection \<open>The judgement of a step\<close>

record canary_config =
  cf_steps :: "int list"
  cf_step_seconds :: int
  cf_max_error_rate :: rat
  cf_max_p95 :: "int option"
  cf_min_requests :: nat

definition valid_canary_config :: "canary_config \<Rightarrow> bool" where
  "valid_canary_config cfg \<longleftrightarrow>
     list_all (\<lambda>w. 1 \<le> w \<and> w \<le> 99) (cf_steps cfg) \<and> 1 \<le> length (cf_steps cfg) \<and> length (cf_steps cfg) \<le> 5
     \<and> sorted_wrt (<) (cf_steps cfg)
     \<and> 30 \<le> cf_step_seconds cfg \<and> cf_step_seconds cfg \<le> 3600
     \<and> 0 \<le> cf_max_error_rate cfg \<and> cf_max_error_rate cfg \<le> 100
     \<and> (case cf_max_p95 cfg of None \<Rightarrow> True | Some p \<Rightarrow> 10 \<le> p \<and> p \<le> 600000)
     \<and> 1 \<le> cf_min_requests cfg \<and> cf_min_requests cfg \<le> 1000000"

datatype step_problem = ErrorShare rat nat rat | SlowP95 int nat int

definition late_p95 :: "release_stats \<Rightarrow> canary_config \<Rightarrow> step_problem option" where
  "late_p95 stats cfg =
     (case (cf_max_p95 cfg, rs_p95 stats) of
        (Some limit, Some p95) \<Rightarrow> if p95 > limit then Some (SlowP95 p95 (rs_requests stats) limit) else None
      | _ \<Rightarrow> None)"

definition canaryStepProblem :: "release_stats \<Rightarrow> canary_config \<Rightarrow> step_problem option" where
  "canaryStepProblem stats cfg =
     (if rs_requests stats < cf_min_requests cfg then None
      else case rs_error_rate stats of
        Some e \<Rightarrow>
          if e > cf_max_error_rate cfg then Some (ErrorShare e (rs_requests stats) (cf_max_error_rate cfg))
          else late_p95 stats cfg
      | None \<Rightarrow> late_p95 stats cfg)"

subsection \<open>What each operation does to a canary\<close>

lemma change_at: "canary_of (change_canary sid f r) s = (if s = sid then map_option f (canary_of r sid) else canary_of r s)"
  by (auto simp: change_canary_def canary_of_def split: option.split)

lemma change_slugs [simp]: "cn_slugs (change_canary sid f r) = cn_slugs r" "cn_next (change_canary sid f r) = cn_next r"
  by (simp_all add: change_canary_def split: option.splits)

lemma end_at: "canary_of (endCanary sid deployment owner r) s =
  (if s = sid \<and> (deployment = None \<or> map_option ca_deployment (canary_of r sid) = deployment)
      \<and> (owner = None \<or> map_option ca_owner (canary_of r sid) = owner) then None else canary_of r s)"
  by (auto simp: endCanary_def canary_of_def split: option.split)

lemma begin_at:
  assumes "beginCanary sid slug deployment steps measured external placement r = Inr (owner, r')"
  shows "owner = cn_next r" and "cn_next r' = cn_next r + 1"
    and "s \<noteq> sid \<Longrightarrow> canary_of r' s = canary_of r s"
    and "\<exists>c. canary_of r' sid = Some c \<and> ca_owner c = owner \<and> ca_deployment c = deployment \<and> ca_slug c = slug
      \<and> ca_route c = None \<and> ca_step c = 0 \<and> ca_external c = external"
    and "cn_slugs r' = AList.update slug sid (cn_slugs (endCanary sid None None r))"
  using assms end_at [of sid None None r s]
  by (auto simp: beginCanary_def canary_of_def Let_def endCanary_def split: if_splits option.splits)

subsection \<open>The slug index\<close>

text \<open>Every indexed slug leads to the canary that has it, and both maps hold a key once.\<close>

definition canary_index_ok :: "canary_registry \<Rightarrow> bool" where
  "canary_index_ok r \<longleftrightarrow> map_ok (cn_active r) \<and> map_ok (cn_slugs r)
     \<and> (\<forall>slug sid. map_of (cn_slugs r) slug = Some sid \<longrightarrow> (\<exists>c. canary_of r sid = Some c \<and> ca_slug c = slug))
     \<and> (\<forall>sid c. canary_of r sid = Some c \<longrightarrow> ca_owner c < cn_next r)"

inductive canary_op :: "canary_registry \<Rightarrow> canary_registry \<Rightarrow> bool" where
  begun: "beginCanary sid slug dep steps m ext p r = Inr (owner, r') \<Longrightarrow> canary_op r r'"
| ended: "canary_op r (endCanary sid dep owner r)"
| stepped: "canary_op r (setCanaryStep sid step route t0 t1 r)"
| hit: "canary_op r (recordCanaryHit name status duration start r)"
| observed: "canary_op r (snd (setCanaryObservation sid dep step stats r))"
| promoted: "canary_op r (snd (requestCanaryPromote sid dep r))"

lemma change_ok:
  assumes "canary_index_ok r" and "\<And>c. ca_slug (f c) = ca_slug c \<and> ca_owner (f c) = ca_owner c"
  shows "canary_index_ok (change_canary sid f r)"
proof -
  have "map_ok (cn_active (change_canary sid f r))"
    using assms(1) by (simp add: canary_index_ok_def change_canary_def split: option.split)
  then show ?thesis
    using assms by (fastforce simp: canary_index_ok_def change_at split: if_splits)
qed

lemma end_ok:
  assumes "canary_index_ok r"
  shows "canary_index_ok (endCanary sid dep owner r)"
proof (cases "canary_of r sid")
  case (Some c)
  show ?thesis
    using assms Some by (fastforce simp: endCanary_def canary_index_ok_def canary_of_def)
qed (use assms in \<open>simp add: endCanary_def\<close>)

lemma begin_ok:
  assumes "canary_index_ok r" and b: "beginCanary sid slug dep steps m ext p r = Inr (owner, r')"
  shows "canary_index_ok r'"
proof -
  define e where "e = endCanary sid None None r"
  have e: "canary_index_ok e" "canary_of e sid = None" "\<And>s. s \<noteq> sid \<Longrightarrow> canary_of e s = canary_of r s"
    using end_ok [OF assms(1)] end_at [of sid None None r] by (simp_all add: e_def)
  obtain c where c: "canary_of r' sid = Some c" "ca_slug c = slug" "ca_owner c = cn_next r"
    using begin_at(1,4) [OF b] by blast
  have others: "canary_of r' s = canary_of e s" if "s \<noteq> sid" for s
    using begin_at(3) [OF b that] e(3) [OF that] by simp
  have maps: "map_ok (cn_active r')" "map_ok (cn_slugs r')"
    using e(1) b by (auto simp: e_def canary_index_ok_def beginCanary_def Let_def split: if_splits)
  have index: "\<exists>c. canary_of r' t = Some c \<and> ca_slug c = s" if "map_of (cn_slugs r') s = Some t" for s t
  proof (cases "s = slug")
    case True
    then show ?thesis using that c begin_at(5) [OF b] by auto
  next
    case False
    then have "map_of (cn_slugs e) s = Some t" using that begin_at(5) [OF b] by (simp add: e_def)
    then obtain d where "canary_of e t = Some d" "ca_slug d = s" using e(1) by (auto simp: canary_index_ok_def)
    then show ?thesis using others [of t] e(2) by (cases "t = sid") auto
  qed
  have "ca_owner d < cn_next r'" if "canary_of r' t = Some d" for t d
    using that c others [of t] e(3) [of t] assms(1) begin_at(2) [OF b]
    by (cases "t = sid") (auto simp: canary_index_ok_def less_Suc_eq)
  then show ?thesis using maps index by (simp add: canary_index_ok_def)
qed

lemma canary_op_ok: "canary_op r r' \<Longrightarrow> canary_index_ok r \<Longrightarrow> canary_index_ok r'"
proof (induction rule: canary_op.induct)
  case (hit r name status duration start)
  then show ?case
    by (auto simp: recordCanaryHit_def intro!: change_ok split: option.split prod.split)
qed (auto simp: setCanaryStep_def setCanaryObservation_def requestCanaryPromote_def
      intro: begin_ok end_ok change_ok split: option.split)

interpretation canaries: guarded_system
  "\<lambda>r. r = \<lparr>cn_active = [], cn_slugs = [], cn_next = 0\<rparr>" canary_op canary_index_ok
proof unfold_locales
  fix r :: canary_registry
  assume "r = \<lparr>cn_active = [], cn_slugs = [], cn_next = 0\<rparr>"
  then show "canary_index_ok r" by (simp add: canary_index_ok_def canary_of_def)
qed (rule canary_op_ok)

lemma reachable_slug_index:
  assumes "canary_op\<^sup>*\<^sup>* \<lparr>cn_active = [], cn_slugs = [], cn_next = 0\<rparr> r" and "map_of (cn_slugs r) slug = Some sid"
  shows "\<exists>c. canary_of r sid = Some c \<and> ca_slug c = slug"
  using canaries.reachable_inv [OF refl assms(1)] assms(2) by (simp add: canary_index_ok_def)

subsection \<open>What a step measures\<close>

text \<open>The \<open>ServiceName\<close> Traefik writes for a leaf of a split.\<close>

definition leaf_of :: "string \<Rightarrow> nat \<Rightarrow> bool \<Rightarrow> string" where
  "leaf_of slug domain leaf =
     ''svc_'' @ slug @ ''_'' @ nat_text domain @ (if leaf then ''_canary@file'' else ''_stable@file'')"

lemma nat_text_num: "list_all js_num (nat_text n) \<and> nat_text n \<noteq> []"
proof (induction n rule: nat_text.induct)
  case (1 n)
  have "js_num (char_of (48 + k :: nat))" if "k < 10" for k using that by (simp add: js_num_def)
  from this [of n] this [of "n mod 10"] show ?case using 1 by (simp add: nat_text.simps [of n])
qed

lemma leaf_body_of:
  assumes "slug \<noteq> []" and "CHR 0x0A \<notin> set slug" "CHR 0x0D \<notin> set slug"
  shows "leaf_body (''svc_'' @ slug @ ''_'' @ nat_text domain) = Some slug"
proof -
  have digits: "\<forall>c \<in> set (rev (nat_text domain)). js_num c" "rev (nat_text domain) \<noteq> []"
    using nat_text_num [of domain] by (auto simp: list_all_iff)
  have cut: "takeWhile js_num (rev (nat_text domain) @ CHR ''_'' # t) = rev (nat_text domain)"
    "dropWhile js_num (rev (nat_text domain) @ CHR ''_'' # t) = CHR ''_'' # t" for t
    using digits(1) by (simp_all add: takeWhile_append dropWhile_append js_num_def [of "CHR ''_''"])
  have r: "rev (''svc_'' @ slug @ ''_'' @ nat_text domain) = rev (nat_text domain) @ CHR ''_'' # rev (''svc_'' @ slug)"
    by simp
  show ?thesis
    unfolding leaf_body_def r cut using assms digits(2) by (simp add: starts_with_def)
qed

lemma service_name_leaf:
  assumes "slug \<noteq> []" and "CHR 0x0A \<notin> set slug" "CHR 0x0D \<notin> set slug"
  shows "service_name (leaf_of slug domain leaf) = Some (slug, leaf)"
proof -
  let ?body = "''svc_'' @ slug @ ''_'' @ nat_text domain"
  have none: "leaf_name (leaf_of slug domain leaf) = None"
    by (simp add: leaf_name_def leaf_of_def starts_with_def)
  have split: "rev (leaf_of slug domain leaf) = ''elif'' @ CHR ''@'' # rev (?body @ (if leaf then ''_canary'' else ''_stable''))"
    by (simp add: leaf_of_def)
  have drop: "dropWhile provider_char (''elif'' @ CHR ''@'' # t) = CHR ''@'' # t"
    "takeWhile provider_char (''elif'' @ CHR ''@'' # t) = ''elif''" for t
    by (simp_all add: provider_char_def)
  have name: "leaf_name (?body @ (if leaf then ''_canary'' else ''_stable'')) = Some (slug, leaf)"
    using leaf_body_of [OF assms, of domain] by (simp add: leaf_name_def starts_with_def)
  show ?thesis
    unfolding service_name_def none option.case split drop Let_def list.sel rev_rev_ident name by simp
qed

record access_line =
  al_leaf :: bool
  al_domain :: nat
  al_status :: nat
  al_duration :: rat
  al_start :: ms

definition tail_line :: "string \<Rightarrow> access_line \<Rightarrow> canary_registry \<Rightarrow> canary_registry" where
  "tail_line slug l = recordCanaryHit (Some (leaf_of slug (al_domain l) (al_leaf l))) (al_status l) (al_duration l) (al_start l)"

lemma tail_lines_count:
  assumes "canary_of r sid = Some c" "map_of (cn_slugs r) slug = Some sid"
    and "ca_route c \<noteq> None" "\<not> ca_external c" "ca_started c = t0"
    and "slug \<noteq> []" "CHR 0x0A \<notin> set slug" "CHR 0x0D \<notin> set slug"
  shows "canary_of (fold (tail_line slug) ls r) sid = Some (c\<lparr>
     ca_canary := fold (\<lambda>l. count_hit (al_status l) (al_duration l)) (filter (\<lambda>l. al_leaf l \<and> t0 \<le> al_start l) ls) (ca_canary c),
     ca_stable := fold (\<lambda>l. count_hit (al_status l) (al_duration l)) (filter (\<lambda>l. \<not> al_leaf l \<and> t0 \<le> al_start l) ls) (ca_stable c)\<rparr>)"
  using assms(1-5)
proof (induction ls arbitrary: r c)
  case (Cons l ls)
  have ne: "leaf_of slug (al_domain l) (al_leaf l) \<noteq> []" "cn_active r \<noteq> []"
    using Cons.prems(1) by (auto simp: leaf_of_def canary_of_def)
  define f where "f = (\<lambda>c :: active_canary. if ca_route c = None \<or> ca_external c \<or> al_start l < ca_started c then c
                     else if al_leaf l then c\<lparr>ca_canary := count_hit (al_status l) (al_duration l) (ca_canary c)\<rparr>
                     else c\<lparr>ca_stable := count_hit (al_status l) (al_duration l) (ca_stable c)\<rparr>)"
  have step: "tail_line slug l r = change_canary sid f r"
    using ne Cons.prems(2) by (simp add: tail_line_def recordCanaryHit_def service_name_leaf [OF assms(6-8)] f_def)
  have "canary_of (fold (tail_line slug) ls (change_canary sid f r)) sid = Some (f c\<lparr>
     ca_canary := fold (\<lambda>l. count_hit (al_status l) (al_duration l)) (filter (\<lambda>l. al_leaf l \<and> t0 \<le> al_start l) ls) (ca_canary (f c)),
     ca_stable := fold (\<lambda>l. count_hit (al_status l) (al_duration l)) (filter (\<lambda>l. \<not> al_leaf l \<and> t0 \<le> al_start l) ls) (ca_stable (f c))\<rparr>)"
    by (rule Cons.IH) (use Cons.prems in \<open>simp_all add: change_at f_def\<close>)
  then show ?case
    using Cons.prems(3-5) by (simp add: step) (auto simp: f_def)
qed simp

lemma fold_count_hit:
  "sm_requests (fold (\<lambda>l. count_hit (al_status l) (al_duration l)) ls s) = sm_requests s + length ls"
  "sm_errors (fold (\<lambda>l. count_hit (al_status l) (al_duration l)) ls s)
     = sm_errors s + length (filter (\<lambda>l. al_status l \<ge> 500) ls)"
  by (induction ls arbitrary: s) (simp_all add: count_hit_def)

text \<open>
  The numbers of a step are exactly its own: after a step of a canary that is counted
  from the access log starts, the requests counted for a release are the lines of that leaf
  whose request began no earlier than the step, whatever other lines of the service (earlier
  ones too) the tailer reads in between, and the errors are those with a 5xx status.
\<close>

theorem step_counts_its_own_requests:
  assumes "canary_op\<^sup>*\<^sup>* \<lparr>cn_active = [], cn_slugs = [], cn_next = 0\<rparr> r"
    and "map_of (cn_slugs r) slug = Some sid" and "map_option ca_external (canary_of r sid) = Some False"
    and "slug \<noteq> []" "CHR 0x0A \<notin> set slug" "CHR 0x0D \<notin> set slug"
  shows "let stats = canaryStats sid (fold (tail_line slug) ls (setCanaryStep sid step route t0 t1 r));
             own = filter (\<lambda>l. t0 \<le> al_start l) ls;
             canary = filter al_leaf own; stable = filter (\<lambda>l. \<not> al_leaf l) own
    in map_option (\<lambda>p. (rs_requests (sp_canary p), rs_errors (sp_canary p), rs_requests (sp_stable p), rs_errors (sp_stable p))) stats
      = Some (length canary, length (filter (\<lambda>l. al_status l \<ge> 500) canary),
              length stable, length (filter (\<lambda>l. al_status l \<ge> 500) stable))"
proof -
  define r1 where "r1 = setCanaryStep sid step route t0 t1 r"
  obtain c where c: "canary_of r sid = Some c" "\<not> ca_external c"
    using reachable_slug_index [OF assms(1,2)] assms(3) by auto
  obtain c1 where c1: "canary_of r1 sid = Some c1" "ca_route c1 \<noteq> None" "\<not> ca_external c1" "ca_started c1 = t0"
    "ca_canary c1 = empty_sample" "ca_stable c1 = empty_sample" "ca_observed c1 = None"
    using c by (simp add: r1_def setCanaryStep_def change_at)
  have slug: "map_of (cn_slugs r1) slug = Some sid" using assms(2) by (simp add: r1_def setCanaryStep_def)
  show ?thesis
    unfolding Let_def r1_def [symmetric] canaryStats_def
      tail_lines_count [OF c1(1) slug c1(2-4) assms(4-6)]
    by (simp add: current_stats_def canary_view_def c1 fold_count_hit empty_sample_def conj_commute)
qed

definition example_registry :: canary_registry where
  "example_registry = (case beginCanary 7 ''web'' 3 1 False False \<lparr>cp_server = None, cp_stable = None\<rparr>
     \<lparr>cn_active = [], cn_slugs = [], cn_next = 0\<rparr> of Inl u \<Rightarrow> undefined | Inr p \<Rightarrow> snd p)"

theorem step_counts_its_own_requests_witness:
  "let line = \<lambda>leaf status start. \<lparr>al_leaf = leaf, al_domain = 4, al_status = status, al_duration = 12, al_start = start\<rparr>;
       ls = [line True 200 90, line True 200 100, line False 200 110, line True 502 120];
       stats = canaryStats 7 (fold (tail_line ''web'') ls
         (setCanaryStep 7 1 \<lparr>cr_runtime = ''nd-web-3'', cr_replicas = 1, cr_port = None, cr_weight = 10\<rparr> 100 400 example_registry))
   in map_option (\<lambda>p. (rs_requests (sp_canary p), rs_errors (sp_canary p), rs_requests (sp_stable p), rs_errors (sp_stable p))) stats
      = Some (2, 1, 1, 0)"
proof -
  have b: "beginCanary 7 ''web'' 3 1 False False \<lparr>cp_server = None, cp_stable = None\<rparr>
     \<lparr>cn_active = [], cn_slugs = [], cn_next = 0\<rparr> = Inr (0, example_registry)"
    by (simp add: example_registry_def beginCanary_def bad_placement_def Let_def)
  have "canary_op\<^sup>*\<^sup>* \<lparr>cn_active = [], cn_slugs = [], cn_next = 0\<rparr> example_registry"
    using canary_op.begun [OF b] by blast
  moreover have "map_of (cn_slugs example_registry) ''web'' = Some 7"
    "map_option ca_external (canary_of example_registry 7) = Some False"
    by (simp_all add: example_registry_def beginCanary_def bad_placement_def Let_def endCanary_def canary_of_def)
  ultimately show ?thesis
    unfolding Let_def by (subst step_counts_its_own_requests [unfolded Let_def]) simp_all
qed

end
