(* ===== verification/TrafficCounter.thy ===== *)
theory TrafficCounter
  imports CanaryState
begin

text \<open>
  The request counter of an observation window (\<open>lib/proxyTrafficCounter.ts\<close>): the class
  \<open>TrafficCounter\<close> and its two instances. It reads parsed access records; the regular
  expression that parses a line of Traefik's log is not modelled, the checks on the parsed
  numbers are.
\<close>

subsection \<open>Model\<close>


record access_record =
  ar_request :: string
  ar_status :: nat
  ar_sequence :: int
  ar_router :: string
  ar_upstream :: string
  ar_ms :: nat


record traffic_hit =
  th_group :: "string option"
  th_status :: nat
  th_ms :: nat

record traffic_counter =
  tc_records :: "(int \<times> traffic_hit) list"
  tc_start :: "int option"
  tc_end :: "int option"
  tc_finishing :: bool
  tc_count :: nat

record traffic_setup =
  ts_slug :: string
  ts_upstreams :: "(string \<times> string) list"
  ts_window :: string
  ts_suffix :: "string \<Rightarrow> bool"


text \<open>The constructor: \<open>http://name:port\<close> of each target leads to its group.\<close>

definition target_url :: "string \<times> nat \<Rightarrow> string" where
  "target_url t = ''http://'' @ fst t @ '':'' @ nat_text (snd t)"

definition upstreams_of :: "(string \<times> (string \<times> nat) list) list \<Rightarrow> (string \<times> string) list" where
  "upstreams_of groups =
     fold (\<lambda>(g, targets) m. fold (\<lambda>t m. AList.update (target_url t) g m) targets m) groups []"


definition serving_suffix :: "string \<Rightarrow> bool" where
  "serving_suffix s \<longleftrightarrow> takeWhile js_num s \<noteq> [] \<and> dropWhile js_num s \<in> {''@file'', ''_http@file''}"


definition serving_counter :: "string \<Rightarrow> (string \<times> nat) list \<Rightarrow> string \<Rightarrow> traffic_setup" where
  "serving_counter slug serving window =
     \<lparr>ts_slug = slug, ts_upstreams = upstreams_of [(''serving'', serving)], ts_window = window, ts_suffix = serving_suffix\<rparr>"





definition record_hit :: "access_record \<Rightarrow> string option \<Rightarrow> traffic_counter \<Rightarrow> traffic_counter" where
  "record_hit row g c =
     c\<lparr>tc_records := AList.update (ar_sequence row) \<lparr>th_group = g, th_status = ar_status row, th_ms = ar_ms row\<rparr> (tc_records c)\<rparr>"








subsection \<open>Windows\<close>






lemma hit_fields [simp]:
  "tc_start (record_hit row g c) = tc_start c" "tc_end (record_hit row g c) = tc_end c"
  "tc_count (record_hit row g c) = tc_count c"
  by (simp_all add: record_hit_def)















end
