(* ===== verification/Runs.thy ===== *)
theory Runs
  imports Prelude
begin

text \<open>
  Runs of asynchronous code, shared by the theories that model a function await by await
  (CanaryRun, DeployFinish). A run maps a world to a result and a world: \<open>None\<close> is a run that
  waits for an await nobody answered, \<open>Inl\<close> a thrown error, \<open>Inr\<close> a returned value.
\<close>

type_synonym ('e, 'w, 'a) run = "'w \<Rightarrow> ('e + 'a) option \<times> 'w"

definition pure_run :: "'a \<Rightarrow> ('e, 'w, 'a) run" where
  "pure_run a w = (Some (Inr a), w)"

definition throw_run :: "'e \<Rightarrow> ('e, 'w, 'a) run" where
  "throw_run e w = (Some (Inl e), w)"

definition bind_run :: "('e, 'w, 'a) run \<Rightarrow> ('a \<Rightarrow> ('e, 'w, 'b) run) \<Rightarrow> ('e, 'w, 'b) run" where
  "bind_run m f w =
     (case m w of
        (Some (Inr a), w') \<Rightarrow> f a w'
      | (Some (Inl e), w') \<Rightarrow> (Some (Inl e), w')
      | (None, w') \<Rightarrow> (None, w'))"

definition catch_run :: "('e, 'w, 'a) run \<Rightarrow> ('e \<Rightarrow> ('e, 'w, 'a) run) \<Rightarrow> ('e, 'w, 'a) run" where
  "catch_run m h w = (case m w of (Some (Inl e), w') \<Rightarrow> h e w' | r \<Rightarrow> r)"

text \<open>\<open>try { m } finally { \<dots> }\<close>, where the cleanup differs after a failure.\<close>

definition finally_run :: "('e, 'w, 'a) run \<Rightarrow> ('e, 'w, unit) run \<Rightarrow> ('e, 'w, unit) run \<Rightarrow> ('e, 'w, 'a) run" where
  "finally_run m failed passed =
     bind_run (catch_run m (\<lambda>e. bind_run failed (\<lambda>_. throw_run e))) (\<lambda>a. bind_run passed (\<lambda>_. pure_run a))"

text \<open>What runs without an await: reading the world, and changing it.\<close>

definition ask :: "('w \<Rightarrow> 'a) \<Rightarrow> ('e, 'w, 'a) run" where
  "ask f w = (Some (Inr (f w)), w)"

definition change :: "('w \<Rightarrow> 'w) \<Rightarrow> ('e, 'w, unit) run" where
  "change f w = (Some (Inr ()), f w)"

subsection \<open>Reading a finished run\<close>

lemma bind_ok: "bind_run m f w = (Some (Inr b), w') \<longleftrightarrow> (\<exists>a w1. m w = (Some (Inr a), w1) \<and> f a w1 = (Some (Inr b), w'))"
  by (auto simp: bind_run_def split: prod.split option.split sum.split)

lemma bind_fail: "bind_run m f w = (Some (Inl e), w') \<longleftrightarrow>
  m w = (Some (Inl e), w') \<or> (\<exists>a w1. m w = (Some (Inr a), w1) \<and> f a w1 = (Some (Inl e), w'))"
  by (auto simp: bind_run_def split: prod.split option.split sum.split)

lemma catch_ok: "catch_run m h w = (Some (Inr b), w') \<longleftrightarrow>
  m w = (Some (Inr b), w') \<or> (\<exists>e w1. m w = (Some (Inl e), w1) \<and> h e w1 = (Some (Inr b), w'))"
  by (auto simp: catch_run_def split: prod.split option.split sum.split)

lemma catch_fail: "catch_run m h w = (Some (Inl e'), w') \<longleftrightarrow> (\<exists>e w1. m w = (Some (Inl e), w1) \<and> h e w1 = (Some (Inl e'), w'))"
  by (auto simp: catch_run_def split: prod.split option.split sum.split)

lemmas run_steps_simps = bind_ok bind_fail catch_ok catch_fail ask_def pure_run_def throw_run_def change_def

lemma finally_ok: "finally_run m failed passed w = (Some (Inr a), w') \<longleftrightarrow>
  (\<exists>w1. m w = (Some (Inr a), w1) \<and> passed w1 = (Some (Inr ()), w'))"
  by (auto simp: finally_run_def run_steps_simps)

subsection \<open>What a run keeps\<close>

text \<open>An invariant of worlds; a run is stable when it keeps it, finished or waiting.\<close>

locale run_kept =
  fixes J :: "'w \<Rightarrow> bool"
begin

definition stable :: "('e, 'w, 'a) run \<Rightarrow> bool" where
  "stable m \<longleftrightarrow> (\<forall>w. J w \<longrightarrow> J (snd (m w)))"

lemma stable_pure [simp, intro]:
  "stable (pure_run a)" "stable (throw_run e)" "stable (ask f)" "stable (\<lambda>w. (None, w))"
  by (simp_all add: stable_def pure_run_def throw_run_def ask_def)

lemma stable_change: "(\<And>w. J w \<Longrightarrow> J (f w)) \<Longrightarrow> stable (change f)"
  by (simp add: stable_def change_def)

lemma stable_bind [intro]: "stable m \<Longrightarrow> (\<And>a. stable (f a)) \<Longrightarrow> stable (bind_run m f)"
  unfolding stable_def bind_run_def
  by (auto split: prod.split option.split sum.split dest: spec)

lemma stable_catch [intro]: "stable m \<Longrightarrow> (\<And>e. stable (h e)) \<Longrightarrow> stable (catch_run m h)"
  unfolding stable_def catch_run_def
  by (auto split: prod.split option.split sum.split dest: spec)

lemma stable_finally: "stable m \<Longrightarrow> stable a \<Longrightarrow> stable b \<Longrightarrow> stable (finally_run m a b)"
  unfolding finally_run_def by (intro stable_bind stable_catch stable_pure)

lemma stable_if [intro]: "stable m \<Longrightarrow> stable n \<Longrightarrow> stable (if c then m else n)"
  by simp

lemma stable_result: "stable m \<Longrightarrow> J w \<Longrightarrow> m w = (res, w') \<Longrightarrow> J w'"
  by (metis stable_def snd_conv)

end

subsection \<open>What a finished run has established\<close>

text \<open>
  A triple: from a world where \<open>P\<close> holds, a run that returns establishes \<open>Q\<close> of its value, one that
  throws establishes \<open>E\<close> of its error. A run that waits establishes nothing.
\<close>

definition triple :: "('w \<Rightarrow> bool) \<Rightarrow> ('e, 'w, 'a) run \<Rightarrow> ('a \<Rightarrow> 'w \<Rightarrow> bool) \<Rightarrow> ('e \<Rightarrow> 'w \<Rightarrow> bool) \<Rightarrow> bool" where
  "triple P m Q E \<longleftrightarrow>
     (\<forall>w. P w \<longrightarrow> (case m w of (None, w') \<Rightarrow> True | (Some (Inr a), w') \<Rightarrow> Q a w' | (Some (Inl e), w') \<Rightarrow> E e w'))"

lemma tripleI: "(\<And>w. P w \<Longrightarrow> case m w of (None, w') \<Rightarrow> True | (Some (Inr a), w') \<Rightarrow> Q a w' | (Some (Inl e), w') \<Rightarrow> E e w') \<Longrightarrow> triple P m Q E"
  by (simp add: triple_def)

lemma triple_returns: "triple P m Q E \<Longrightarrow> P w \<Longrightarrow> m w = (Some (Inr a), w') \<Longrightarrow> Q a w'"
  by (force simp: triple_def)

lemma triple_throws: "triple P m Q E \<Longrightarrow> P w \<Longrightarrow> m w = (Some (Inl e), w') \<Longrightarrow> E e w'"
  by (force simp: triple_def)

lemma triple_weaken:
  assumes "triple P' m Q' E'" and "\<And>w. P w \<Longrightarrow> P' w" and "\<And>a w. Q' a w \<Longrightarrow> Q a w" and "\<And>e w. E' e w \<Longrightarrow> E e w"
  shows "triple P m Q E"
  unfolding triple_def
proof (intro allI impI)
  fix w
  assume "P w"
  then have "case m w of (None, w') \<Rightarrow> True | (Some (Inr a), w') \<Rightarrow> Q' a w' | (Some (Inl e), w') \<Rightarrow> E' e w'"
    using assms(1,2) by (simp add: triple_def)
  then show "case m w of (None, w') \<Rightarrow> True | (Some (Inr a), w') \<Rightarrow> Q a w' | (Some (Inl e), w') \<Rightarrow> E e w'"
    using assms(3,4) by (auto split: prod.splits option.splits sum.splits)
qed

lemma triple_pre: "triple P' m Q E \<Longrightarrow> (\<And>w. P w \<Longrightarrow> P' w) \<Longrightarrow> triple P m Q E"
  by (rule triple_weaken)

lemma triple_pure: "(\<And>w. P w \<Longrightarrow> Q a w) \<Longrightarrow> triple P (pure_run a) Q E"
  by (simp add: triple_def pure_run_def)

lemma triple_throw: "(\<And>w. P w \<Longrightarrow> E e w) \<Longrightarrow> triple P (throw_run e) Q E"
  by (simp add: triple_def throw_run_def)

lemma triple_ask: "triple P (ask f) (\<lambda>a w. P w \<and> a = f w) E"
  by (simp add: triple_def ask_def)

lemma triple_asked: "triple P (ask f) (\<lambda>_. P) E"
  by (simp add: triple_def ask_def)

lemma triple_change: "(\<And>w. P w \<Longrightarrow> Q () (f w)) \<Longrightarrow> triple P (change f) Q E"
  by (simp add: triple_def change_def)

lemma triple_bind:
  assumes "triple P m R E" and "\<And>a. triple (R a) (f a) Q E"
  shows "triple P (bind_run m f) Q E"
proof (rule tripleI)
  fix w
  assume "P w"
  note m = assms(1) [unfolded triple_def, rule_format, OF this]
  obtain r w1 where w1: "m w = (r, w1)" by (cases "m w")
  consider "r = None" | e where "r = Some (Inl e)" | a where "r = Some (Inr a)"
    by (metis option.exhaust sumE)
  then show "case bind_run m f w of (None, w') \<Rightarrow> True | (Some (Inr a), w') \<Rightarrow> Q a w' | (Some (Inl e), w') \<Rightarrow> E e w'"
  proof cases
    case (2 e)
    then show ?thesis using m w1 by (simp add: bind_run_def)
  next
    case (3 a)
    then show ?thesis using m w1 assms(2) [unfolded triple_def, rule_format, of a w1] by (simp add: bind_run_def)
  qed (simp add: bind_run_def w1)
qed

lemma triple_catch:
  assumes "triple P m Q R" and "\<And>e. triple (R e) (h e) Q E"
  shows "triple P (catch_run m h) Q E"
proof (rule tripleI)
  fix w
  assume "P w"
  note m = assms(1) [unfolded triple_def, rule_format, OF this]
  obtain r w1 where w1: "m w = (r, w1)" by (cases "m w")
  consider "r = None" | e where "r = Some (Inl e)" | a where "r = Some (Inr a)"
    by (metis option.exhaust sumE)
  then show "case catch_run m h w of (None, w') \<Rightarrow> True | (Some (Inr a), w') \<Rightarrow> Q a w' | (Some (Inl e), w') \<Rightarrow> E e w'"
  proof cases
    case (2 e)
    then show ?thesis using m w1 assms(2) [unfolded triple_def, rule_format, of e w1] by (simp add: catch_run_def)
  next
    case (3 a)
    then show ?thesis using m w1 by (simp add: catch_run_def)
  qed (simp add: catch_run_def w1)
qed

lemma triple_if: "(c \<Longrightarrow> triple P m Q E) \<Longrightarrow> (\<not> c \<Longrightarrow> triple P n Q E) \<Longrightarrow> triple P (if c then m else n) Q E"
  by simp

lemma triple_conj: "triple P m Q E \<Longrightarrow> triple P' m Q' E' \<Longrightarrow>
    triple (\<lambda>w. P w \<and> P' w) m (\<lambda>a w. Q a w \<and> Q' a w) (\<lambda>e w. E e w \<and> E' e w)"
  unfolding triple_def by (fastforce split: prod.splits option.splits sum.splits)

text \<open>A last value, whatever was done before it; a handler that throws nothing.\<close>

lemma triple_last: "triple P (bind_run m (\<lambda>_. pure_run a)) (\<lambda>b _. b = a) (\<lambda>_ _. True)"
  unfolding triple_def bind_run_def pure_run_def by (auto split: prod.split option.split sum.split)

lemma triple_handled: "triple P (catch_run m (\<lambda>_. pure_run a)) (\<lambda>_ _. True) (\<lambda>_ _. False)"
  unfolding triple_def catch_run_def pure_run_def by (auto split: prod.split option.split sum.split)

lemma triple_false: "(\<And>w. \<not> P w) \<Longrightarrow> triple P m Q E"
  by (simp add: triple_def)

context run_kept begin

lemma stable_triple: "stable m \<Longrightarrow> triple J m (\<lambda>_. J) (\<lambda>_. J)"
  unfolding triple_def stable_def by (auto split: prod.split option.split sum.split)

end

subsection \<open>What holds of a run, ended or waiting\<close>

text \<open>A triple whose world satisfies \<open>N\<close> however the run stands: it may end, throw or wait.\<close>

definition safely :: "('w \<Rightarrow> bool) \<Rightarrow> ('w \<Rightarrow> bool) \<Rightarrow> ('e, 'w, 'a) run \<Rightarrow> ('a \<Rightarrow> 'w \<Rightarrow> bool) \<Rightarrow> ('e \<Rightarrow> 'w \<Rightarrow> bool) \<Rightarrow> bool" where
  "safely N P m Q E \<longleftrightarrow> triple P m Q E \<and> (\<forall>w. P w \<longrightarrow> N (snd (m w)))"

lemma safelyI: "triple P m Q E \<Longrightarrow> (\<And>w. P w \<Longrightarrow> N (snd (m w))) \<Longrightarrow> safely N P m Q E"
  by (simp add: safely_def)

lemma safely_holds: "safely N P m Q E \<Longrightarrow> P w \<Longrightarrow> N (snd (m w))"
  by (simp add: safely_def)

lemma safely_weaken: "safely N P' m Q' E' \<Longrightarrow> (\<And>w. P w \<Longrightarrow> P' w) \<Longrightarrow> (\<And>a w. Q' a w \<Longrightarrow> Q a w) \<Longrightarrow>
    (\<And>e w. E' e w \<Longrightarrow> E e w) \<Longrightarrow> safely N P m Q E"
  unfolding safely_def by (blast intro: triple_weaken)

lemma safely_bind:
  assumes "safely N P m R E" and "\<And>a. safely N (R a) (f a) Q E"
  shows "safely N P (bind_run m f) Q E"
proof (rule safelyI)
  show "triple P (bind_run m f) Q E"
    using assms unfolding safely_def by (blast intro: triple_bind)
  fix w
  assume "P w"
  then have m: "N (snd (m w))" "\<And>a w1. m w = (Some (Inr a), w1) \<Longrightarrow> R a w1"
    using assms(1) triple_returns [of P m R E w] unfolding safely_def by blast+
  show "N (snd (bind_run m f w))"
    using m safely_holds [OF assms(2)] by (auto simp: bind_run_def split: prod.split option.split sum.split)
qed

lemma safely_catch:
  assumes "safely N P m Q R" and "\<And>e. safely N (R e) (h e) Q E"
  shows "safely N P (catch_run m h) Q E"
proof (rule safelyI)
  show "triple P (catch_run m h) Q E"
    using assms unfolding safely_def by (blast intro: triple_catch)
  fix w
  assume "P w"
  then have m: "N (snd (m w))" "\<And>e w1. m w = (Some (Inl e), w1) \<Longrightarrow> R e w1"
    using assms(1) triple_throws [of P m Q R w] unfolding safely_def by blast+
  show "N (snd (catch_run m h w))"
    using m safely_holds [OF assms(2)] by (auto simp: catch_run_def split: prod.split option.split sum.split)
qed

lemma safely_pure: "(\<And>w. P w \<Longrightarrow> N w \<and> Q a w) \<Longrightarrow> safely N P (pure_run a) Q E"
  by (simp add: safely_def triple_def pure_run_def)

lemma safely_throw: "(\<And>w. P w \<Longrightarrow> N w \<and> E e w) \<Longrightarrow> safely N P (throw_run e) Q E"
  by (simp add: safely_def triple_def throw_run_def)

lemma safely_ask: "(\<And>w. P w \<Longrightarrow> N w) \<Longrightarrow> safely N P (ask f) (\<lambda>a w. P w \<and> a = f w) E"
  by (simp add: safely_def triple_def ask_def)

lemma safely_change: "(\<And>w. P w \<Longrightarrow> N (f w) \<and> Q () (f w)) \<Longrightarrow> safely N P (change f) Q E"
  by (simp add: safely_def triple_def change_def)

lemma safely_false: "(\<And>w. \<not> P w) \<Longrightarrow> safely N P m Q E"
  by (simp add: safely_def triple_def)

lemma safely_if: "(c \<Longrightarrow> safely N P m Q E) \<Longrightarrow> (\<not> c \<Longrightarrow> safely N P n Q E) \<Longrightarrow> safely N P (if c then m else n) Q E"
  by simp

context run_kept begin

lemma stable_safely: "stable m \<Longrightarrow> (\<And>w. J w \<Longrightarrow> N w) \<Longrightarrow> safely N J m (\<lambda>_. J) (\<lambda>_. J)"
  using stable_triple by (simp add: safely_def stable_def)

end

end
