(* ===== verification/CanaryRun.thy ===== *)
theory CanaryRun
  imports CanaryState Runs
begin

text \<open>
  The canary stage of the deploy pipeline (\<open>engine/canary.ts\<close>), await by await. A run consumes
  one reply per \<open>await\<close>: what the rest of the panel did to the canary registry meanwhile, how
  the awaited call ended, and the clock when it resumed. When the replies run out the run has
  not resumed, and its result is \<open>None\<close>. Failures are values; the texts of the messages are
  the constructors of an error type.
\<close>

subsection \<open>Who is released as a canary\<close>

datatype skip_reason = SkipNotDocker | SkipSwarm | SkipNotServing | SkipNoPrevious | SkipHostPorts | SkipRollback | SkipNoDomain

record skip_input =
  sk_config :: "canary_config option"
  sk_type :: string
  sk_orchestrator :: "string option"
  sk_previous :: "string option"
  sk_previous_serving :: "bool option"
  sk_runtime :: string
  sk_rollback :: bool
  sk_host_ports :: bool
  sk_routed_domains :: nat

definition canarySkipReason :: "skip_input \<Rightarrow> skip_reason option" where
  "canarySkipReason i =
     (if sk_config i = None then None
      else if sk_type i \<noteq> ''docker'' then Some SkipNotDocker
      else if sk_orchestrator i = Some ''swarm'' then Some SkipSwarm
      else if sk_previous_serving i = Some False then Some SkipNotServing
      else if sk_previous i = None \<or> sk_previous i = Some (sk_runtime i) then Some SkipNoPrevious
      else if sk_host_ports i then Some SkipHostPorts
      else if sk_rollback i then Some SkipRollback
      else if sk_routed_domains i = 0 then Some SkipNoDomain
      else None)"

subsection \<open>Runs\<close>

datatype abort_reason = ObservationUnavailable | NodeUnmeasured | ConfigNotWritten | Unhealthy int
  | ObservationIncomplete | ObservationForeign | StepFailed int step_problem

text \<open>\<open>CanaryAborted\<close>, \<open>ProxyRoutingUnconfirmed\<close>, and what a dependency or checkpoint throws.\<close>

datatype canary_error = CanaryAborted abort_reason | RoutingUnconfirmed | DepsError

text \<open>What the rest of the panel can do to the registry while a run awaits.\<close>

datatype panel_op =
    PanelBegin int string int nat bool bool canary_placement
  | PanelEnd int "int option" "nat option"
  | PanelStep int nat canary_route ms ms
  | PanelPromote int int
  | PanelHit "string option" nat rat ms

fun panel_do :: "panel_op \<Rightarrow> canary_registry \<Rightarrow> canary_registry" where
  "panel_do (PanelBegin sid slug dep steps m e p) r =
     (case beginCanary sid slug dep steps m e p r of Inl _ \<Rightarrow> r | Inr (_, r') \<Rightarrow> r')"
| "panel_do (PanelEnd sid dep owner) r = endCanary sid dep owner r"
| "panel_do (PanelStep sid step route t0 t1) r = setCanaryStep sid step route t0 t1 r"
| "panel_do (PanelPromote sid dep) r = snd (requestCanaryPromote sid dep r)"
| "panel_do (PanelHit name status duration start) r = recordCanaryHit name status duration start r"

text \<open>
  A reply: panel operations before and after the instant a route write reads the registry, and
  the error thrown, if any.
\<close>

record reply =
  rp_before :: "panel_op list"
  rp_after :: "panel_op list"
  rp_fail :: "canary_error option"
  rp_healthy :: bool
  rp_complete :: bool
  rp_stats :: stats_pair
  rp_now :: ms

datatype canary_log = StepRunning nat | StepMeasured nat release_stats | LogPromoted | LogAllPassed | LogFailed | LogBack

text \<open>
  \<open>cw_window\<close>: the observation of the step is open. \<open>cw_loaded\<close>: the splits of the service the proxy may have loaded, each the deployment it
  sends traffic to (\<open>None\<close>: no split). A confirmed write leaves one; a failed write may or
  may not have been applied.
\<close>

record canary_world =
  cw_reg :: canary_registry
  cw_loaded :: "(int \<times> canary_route) option list"
  cw_replies :: "reply list"
  cw_now :: ms
  cw_window :: bool
  cw_log :: "canary_log list"

type_synonym 'a canary_run = "(canary_error, canary_world, 'a) run"

abbreviation change_reg :: "(canary_registry \<Rightarrow> canary_registry) \<Rightarrow> unit canary_run" where
  "change_reg f \<equiv> change (\<lambda>w. w\<lparr>cw_reg := f (cw_reg w)\<rparr>)"

definition log_run :: "canary_log \<Rightarrow> unit canary_run" where
  "log_run l w = (Some (Inr ()), w\<lparr>cw_log := cw_log w @ [l]\<rparr>)"

text \<open>An \<open>await\<close>; \<open>write\<close> says whether it renders the route of the service.\<close>

definition rendered :: "int \<Rightarrow> canary_registry \<Rightarrow> (int \<times> canary_route) option" where
  "rendered sid r =
     (case canary_of r sid of None \<Rightarrow> None
      | Some c \<Rightarrow> (case canaryRouteFor sid None r of None \<Rightarrow> None | Some route \<Rightarrow> Some (ca_deployment c, route)))"

definition await_reply :: "reply canary_run" where
  "await_reply w =
     (case cw_replies w of
        [] \<Rightarrow> (None, w)
      | r # rs \<Rightarrow> (Some (Inr r), w\<lparr>cw_replies := rs, cw_now := rp_now r,
          cw_reg := fold panel_do (rp_after r) (fold panel_do (rp_before r) (cw_reg w))\<rparr>))"

definition await_ok :: "reply canary_run" where
  "await_ok = bind_run await_reply (\<lambda>r. case rp_fail r of None \<Rightarrow> pure_run r | Some e \<Rightarrow> throw_run e)"

definition writeConfig :: "int \<Rightarrow> unit canary_run" where
  "writeConfig sid w =
     (case cw_replies w of
        [] \<Rightarrow> (None, w)
      | r # rs \<Rightarrow>
          let reg = fold panel_do (rp_before r) (cw_reg w);
              w' = w\<lparr>cw_replies := rs, cw_now := rp_now r, cw_reg := fold panel_do (rp_after r) reg,
                     cw_loaded := rendered sid reg # (if rp_fail r = None then [] else cw_loaded w)\<rparr>
          in (Some (case rp_fail r of None \<Rightarrow> Inr () | Some e \<Rightarrow> Inl e), w'))"

subsection \<open>The stage\<close>

record run_deps =
  rd_service :: int
  rd_slug :: string
  rd_deployment :: int
  rd_server :: "int option"
  rd_stable :: "string option"
  rd_config :: canary_config
  rd_runtime :: string
  rd_replicas :: "nat option"
  rd_port :: "int option"
  rd_measured :: bool
  rd_open_traffic :: bool
  rd_probe_every :: ms

datatype run_end = Completed | PromotedEarly

definition assert_owner :: "run_deps \<Rightarrow> nat \<Rightarrow> unit canary_run" where
  "assert_owner d owner =
     bind_run (ask (\<lambda>w. canaryOwnedBy (rd_service d) (rd_deployment d) (Some owner) (cw_reg w)))
       (\<lambda>own. if own then pure_run () else throw_run RoutingUnconfirmed)"

definition checkpoint :: "run_deps \<Rightarrow> nat \<Rightarrow> unit canary_run" where
  "checkpoint d owner = bind_run await_ok (\<lambda>_. assert_owner d owner)"

definition split_route :: "run_deps \<Rightarrow> int \<Rightarrow> canary_route" where
  "split_route d weight =
     \<lparr>cr_runtime = rd_runtime d, cr_replicas = (case rd_replicas d of None \<Rightarrow> 1 | Some n \<Rightarrow> n),
      cr_port = rd_port d, cr_weight = weight\<rparr>"

definition step_ms :: "run_deps \<Rightarrow> ms" where
  "step_ms d = cf_step_seconds (rd_config d) * 1000"

text \<open>A checkpoint, and without another await the step's route from the clock now.\<close>

definition enter_step :: "run_deps \<Rightarrow> nat \<Rightarrow> nat \<Rightarrow> int \<Rightarrow> ms canary_run" where
  "enter_step d owner i weight =
     bind_run (checkpoint d owner) (\<lambda>_. bind_run (ask cw_now) (\<lambda>started.
       bind_run (change_reg (setCanaryStep (rd_service d) (i + 1) (split_route d weight) started (started + step_ms d)))
         (\<lambda>_. pure_run started)))"

definition observe :: "run_deps \<Rightarrow> nat \<Rightarrow> nat \<Rightarrow> bool \<Rightarrow> unit canary_run" where
  "observe d owner i finish =
     (if \<not> rd_measured d then pure_run ()
      else bind_run await_ok (\<lambda>snapshot. bind_run (checkpoint d owner) (\<lambda>_.
        if finish \<and> \<not> rp_complete snapshot then throw_run (CanaryAborted ObservationIncomplete)
        else bind_run (ask (\<lambda>w. setCanaryObservation (rd_service d) (rd_deployment d) (i + 1) (rp_stats snapshot) (cw_reg w)))
          (\<lambda>(taken, r'). if taken then change_reg (\<lambda>_. r') else throw_run (CanaryAborted ObservationForeign)))))"

definition probe_release :: "run_deps \<Rightarrow> nat \<Rightarrow> int \<Rightarrow> ms canary_run" where
  "probe_release d owner weight =
     bind_run await_ok (\<lambda>r. bind_run (checkpoint d owner) (\<lambda>_.
       if rp_healthy r then pure_run (rp_now r) else throw_run (CanaryAborted (Unhealthy weight))))"

text \<open>
  The loop of a step, with \<open>fuel\<close> rounds: \<open>Inl\<close> when a promote ends the run, \<open>Inr\<close> the
  time the last probe completed. Every round awaits, so the replies left are fuel enough.
\<close>

fun tick_loop :: "nat \<Rightarrow> run_deps \<Rightarrow> nat \<Rightarrow> nat \<Rightarrow> int \<Rightarrow> ms \<Rightarrow> ms \<Rightarrow> ms option \<Rightarrow> (unit + ms option) canary_run" where
  "tick_loop 0 d owner i weight started lastProbe completed = (\<lambda>w. (None, w))"
| "tick_loop (Suc fuel) d owner i weight started lastProbe completed =
     bind_run (ask cw_now) (\<lambda>now.
       if now < started + step_ms d then
         bind_run await_reply (\<lambda>_. bind_run (checkpoint d owner) (\<lambda>_. bind_run (observe d owner i False) (\<lambda>_.
           bind_run (ask (\<lambda>w. (canaryPromoteRequested (rd_service d) (cw_reg w), cw_now w))) (\<lambda>(promote, t).
             if promote \<and> rd_server d = None then
               bind_run (observe d owner i True) (\<lambda>_. bind_run (log_run LogPromoted) (\<lambda>_. pure_run (Inl ())))
             else if t - lastProbe \<ge> rd_probe_every d then
               bind_run (probe_release d owner weight) (\<lambda>doneAt. tick_loop fuel d owner i weight started t (Some doneAt))
             else tick_loop fuel d owner i weight started lastProbe completed))))
       else pure_run (Inr completed))"

definition judge_step :: "run_deps \<Rightarrow> nat \<Rightarrow> int \<Rightarrow> unit canary_run" where
  "judge_step d i weight =
     bind_run (ask (\<lambda>w. canaryStats (rd_service d) (cw_reg w))) (\<lambda>stats.
       if \<not> rd_measured d then pure_run ()
       else bind_run (log_run (StepMeasured (i + 1) (sp_canary (the stats)))) (\<lambda>_.
         case canaryStepProblem (sp_canary (the stats)) (rd_config d) of
           None \<Rightarrow> pure_run ()
         | Some p \<Rightarrow> throw_run (CanaryAborted (StepFailed weight p))))"

text \<open>Steps end with \<open>True\<close> when a promote ends the run.\<close>

definition step_rest :: "run_deps \<Rightarrow> nat \<Rightarrow> nat \<Rightarrow> int \<Rightarrow> ms \<Rightarrow> ms option \<Rightarrow> bool canary_run" where
  "step_rest d owner i weight started completed =
     bind_run
       (if completed = None \<or> the completed < started + step_ms d
        then bind_run (probe_release d owner weight) (\<lambda>_. pure_run ()) else pure_run ())
       (\<lambda>_. bind_run (observe d owner i True) (\<lambda>_. bind_run (judge_step d i weight) (\<lambda>_.
         bind_run (ask (\<lambda>w. rd_server d \<noteq> None \<and> canaryPromoteRequested (rd_service d) (cw_reg w))) (\<lambda>promote.
           if promote then bind_run (log_run LogPromoted) (\<lambda>_. pure_run True) else pure_run False))))"

definition after_loop :: "run_deps \<Rightarrow> nat \<Rightarrow> nat \<Rightarrow> int \<Rightarrow> ms \<Rightarrow> unit + ms option \<Rightarrow> bool canary_run" where
  "after_loop d owner i weight started r =
     (case r of Inl _ \<Rightarrow> pure_run True | Inr completed \<Rightarrow> step_rest d owner i weight started completed)"

definition set_window :: "bool \<Rightarrow> unit canary_run" where
  "set_window b w = (Some (Inr ()), w\<lparr>cw_window := b\<rparr>)"

definition step_body :: "nat \<Rightarrow> run_deps \<Rightarrow> nat \<Rightarrow> nat \<Rightarrow> int \<Rightarrow> bool canary_run" where
  "step_body fuel d owner i weight =
     bind_run (catch_run (writeConfig (rd_service d)) (\<lambda>_. throw_run (CanaryAborted ConfigNotWritten))) (\<lambda>_.
     bind_run (checkpoint d owner) (\<lambda>_.
     bind_run (if rd_measured d then bind_run await_ok (\<lambda>_. set_window True) else pure_run ()) (\<lambda>_.
     bind_run (enter_step d owner i weight) (\<lambda>started.
     bind_run (log_run (StepRunning (i + 1))) (\<lambda>_.
     bind_run (tick_loop fuel d owner i weight started started None) (after_loop d owner i weight started))))))"

text \<open>
  One step: a window that was opened is closed whatever happens, then ownership (after a
  failure) or the checkpoint (otherwise) is asserted.
\<close>

definition close_window :: "unit canary_run" where
  "close_window =
     bind_run (ask cw_window) (\<lambda>opened. if opened then bind_run await_ok (\<lambda>_. pure_run ()) else pure_run ())"

definition run_step :: "nat \<Rightarrow> run_deps \<Rightarrow> nat \<Rightarrow> nat \<Rightarrow> int \<Rightarrow> bool canary_run" where
  "run_step fuel d owner i weight =
     bind_run (set_window False) (\<lambda>_.
       finally_run
         (bind_run (enter_step d owner i weight) (\<lambda>_. step_body fuel d owner i weight))
         (bind_run close_window (\<lambda>_. assert_owner d owner))
         (bind_run close_window (\<lambda>_. checkpoint d owner)))"

fun run_steps :: "nat \<Rightarrow> run_deps \<Rightarrow> nat \<Rightarrow> nat \<Rightarrow> int list \<Rightarrow> run_end canary_run" where
  "run_steps fuel d owner i [] = bind_run (log_run LogAllPassed) (\<lambda>_. pure_run Completed)"
| "run_steps fuel d owner i (weight # ws) =
     bind_run (run_step fuel d owner i weight) (\<lambda>promoted.
       if promoted then pure_run PromotedEarly else run_steps fuel d owner (i + 1) ws)"

definition refuse_active :: "run_deps \<Rightarrow> unit canary_run" where
  "refuse_active d =
     bind_run (ask (\<lambda>w. canaryActive (rd_service d) (cw_reg w)))
       (\<lambda>taken. if taken then throw_run RoutingUnconfirmed else pure_run ())"

definition rollback_once :: "run_deps \<Rightarrow> unit canary_run" where
  "rollback_once d =
     bind_run (refuse_active d) (\<lambda>_. bind_run (writeConfig (rd_service d)) (\<lambda>_. refuse_active d))"

text \<open>The handler of a failed run: all traffic back, or the failure to confirm it.\<close>

definition roll_back :: "run_deps \<Rightarrow> nat \<Rightarrow> canary_error \<Rightarrow> 'a canary_run" where
  "roll_back d owner err =
     bind_run (log_run LogFailed) (\<lambda>_.
     bind_run (assert_owner d owner) (\<lambda>_.
     bind_run (change_reg (endCanary (rd_service d) (Some (rd_deployment d)) (Some owner))) (\<lambda>_.
     bind_run
       (catch_run (rollback_once d) (\<lambda>_.
          bind_run (refuse_active d) (\<lambda>_. bind_run await_reply (\<lambda>_.
            catch_run (rollback_once d) (\<lambda>_. throw_run RoutingUnconfirmed)))))
       (\<lambda>_. bind_run (log_run LogBack) (\<lambda>_. throw_run err)))))"

definition run_owned :: "nat \<Rightarrow> run_deps \<Rightarrow> unit + (nat \<times> canary_registry) \<Rightarrow> run_end canary_run" where
  "run_owned fuel d b =
     (case b of
        Inl _ \<Rightarrow> throw_run DepsError
      | Inr (owner, r') \<Rightarrow>
          bind_run (change_reg (\<lambda>_. r')) (\<lambda>_.
            catch_run (run_steps fuel d owner 0 (cf_steps (rd_config d))) (roll_back d owner)))"

definition runCanary :: "nat \<Rightarrow> run_deps \<Rightarrow> run_end canary_run" where
  "runCanary fuel d =
     (if rd_measured d \<and> \<not> rd_open_traffic d then throw_run (CanaryAborted ObservationUnavailable)
      else if rd_server d \<noteq> None \<and> \<not> rd_measured d then throw_run (CanaryAborted NodeUnmeasured)
      else
        bind_run await_ok (\<lambda>_. bind_run await_ok (\<lambda>_. bind_run await_ok (\<lambda>_. bind_run (refuse_active d) (\<lambda>_.
        bind_run (ask (\<lambda>w. beginCanary (rd_service d) (rd_slug d) (rd_deployment d) (length (cf_steps (rd_config d)))
            (rd_measured d) (rd_measured d) \<lparr>cp_server = rd_server d, cp_stable = rd_stable d\<rparr> (cw_reg w)))
          (run_owned fuel d))))))"

subsection \<open>What a run keeps\<close>

text \<open>
  An invariant of worlds for a deployment: kept by each await, log line and registry change of
  a run. A step is entered only by the owner, a canary begins only where none is active.
\<close>

locale run_invariant = run_kept J for J :: "canary_world \<Rightarrow> bool" +
  fixes d :: run_deps
  assumes J_await: "J w \<Longrightarrow> J (snd (await_reply w))"
    and J_write: "J w \<Longrightarrow> J (snd (writeConfig (rd_service d) w))"
    and J_log: "J w \<Longrightarrow> J (w\<lparr>cw_log := cw_log w @ [l]\<rparr>)"
    and J_window: "J w \<Longrightarrow> J (w\<lparr>cw_window := b\<rparr>)"
    and J_step: "J w \<Longrightarrow> canaryOwnedBy (rd_service d) (rd_deployment d) (Some owner) (cw_reg w) \<Longrightarrow>
      J (w\<lparr>cw_reg := setCanaryStep (rd_service d) n route t0 t1 (cw_reg w)\<rparr>)"
    and J_observed: "J w \<Longrightarrow>
      J (w\<lparr>cw_reg := snd (setCanaryObservation (rd_service d) (rd_deployment d) n stats (cw_reg w))\<rparr>)"
    and J_end: "J w \<Longrightarrow> J (w\<lparr>cw_reg := endCanary (rd_service d) (Some (rd_deployment d)) (Some owner) (cw_reg w)\<rparr>)"
    and J_begin: "J w \<Longrightarrow> \<not> canaryActive (rd_service d) (cw_reg w) \<Longrightarrow>
      beginCanary (rd_service d) (rd_slug d) (rd_deployment d) steps m e p (cw_reg w) = Inr (owner, r') \<Longrightarrow>
      J (w\<lparr>cw_reg := r'\<rparr>)"
begin

lemma stable_basic [simp, intro]:
  "stable await_reply" "stable (writeConfig (rd_service d))" "stable (log_run l)" "stable (set_window b)"
  by (simp_all add: stable_def log_run_def set_window_def J_await J_write J_log J_window)

lemma stable_await_ok: "stable await_ok"
  unfolding await_ok_def by (intro stable_bind) (auto split: option.split)

lemma stable_assert_owner: "stable (assert_owner d owner)"
  unfolding assert_owner_def by (intro stable_bind) auto

lemma stable_checkpoint: "stable (checkpoint d owner)"
  unfolding checkpoint_def by (intro stable_bind stable_await_ok stable_assert_owner)

lemma stable_enter_step: "stable (enter_step d owner i weight)"
  unfolding stable_def
proof (intro allI impI)
  fix w assume w: "J w"
  obtain r w' where c: "checkpoint d owner w = (r, w')" by (cases "checkpoint d owner w")
  have w': "J w'" using stable_checkpoint [of owner] w c by (force simp: stable_def)
  have "canaryOwnedBy (rd_service d) (rd_deployment d) (Some owner) (cw_reg w')" if "r = Some (Inr u)" for u
    using c that
    by (auto simp: checkpoint_def assert_owner_def bind_run_def ask_def pure_run_def throw_run_def
        split: prod.splits option.splits sum.splits if_splits)
  then show "J (snd (enter_step d owner i weight w))"
    using w' c by (auto simp: enter_step_def bind_run_def ask_def change_def pure_run_def
        split: option.split sum.split intro: J_step)
qed

lemma stable_observe: "stable (observe d owner i finish)"
proof -
  have "stable (bind_run (ask (\<lambda>w. setCanaryObservation (rd_service d) (rd_deployment d) n stats (cw_reg w)))
      (\<lambda>(taken, r'). if taken then change_reg (\<lambda>_. r') else throw_run (CanaryAborted ObservationForeign)))" for n stats
    using J_observed [where n = n and stats = stats]
    by (auto simp: stable_def bind_run_def ask_def change_def throw_run_def split: prod.split) (metis snd_conv)
  then show ?thesis
    unfolding observe_def using stable_await_ok stable_checkpoint by (auto intro!: stable_bind)
qed

lemma stable_probe: "stable (probe_release d owner weight)"
  unfolding probe_release_def using stable_await_ok stable_checkpoint by (auto intro!: stable_bind)

lemma stable_tick_loop: "stable (tick_loop fuel d owner i weight started lastProbe completed)"
proof (induction fuel arbitrary: lastProbe completed)
  case (Suc fuel)
  then show ?case
    using stable_checkpoint stable_observe stable_probe
    by (auto intro!: stable_bind split: prod.split)
qed simp

lemma stable_judge: "stable (judge_step d i weight)"
  unfolding judge_step_def by (auto intro!: stable_bind split: option.split)

lemma stable_step_rest: "stable (step_rest d owner i weight started completed)"
  unfolding step_rest_def using stable_probe stable_observe stable_judge by (auto intro!: stable_bind)

lemma stable_step_body: "stable (step_body fuel d owner i weight)"
  unfolding step_body_def after_loop_def
  using stable_checkpoint stable_await_ok stable_enter_step stable_tick_loop stable_step_rest
  by (auto intro!: stable_bind stable_catch split: sum.split)

lemma stable_close: "stable close_window"
  unfolding close_window_def using stable_await_ok by (auto intro!: stable_bind)

lemma stable_run_step: "stable (run_step fuel d owner i weight)"
  unfolding run_step_def
  by (intro stable_bind stable_finally stable_basic stable_enter_step stable_step_body stable_close
      stable_assert_owner stable_checkpoint)

lemma stable_run_steps: "stable (run_steps fuel d owner i ws)"
  by (induction ws arbitrary: i) (auto intro!: stable_bind stable_run_step)

lemma stable_refuse: "stable (refuse_active d)"
  unfolding refuse_active_def by (auto intro!: stable_bind)

lemma stable_rollback: "stable (rollback_once d)"
  unfolding rollback_once_def using stable_refuse by (auto intro!: stable_bind)

lemma stable_roll_back: "stable (roll_back d owner err)"
proof -
  have "stable (change_reg (endCanary (rd_service d) (Some (rd_deployment d)) (Some owner)))"
    using J_end by (simp add: stable_def change_def)
  then show ?thesis
    unfolding roll_back_def using stable_assert_owner stable_rollback stable_refuse
    by (auto intro!: stable_bind stable_catch)
qed

lemma stable_started:
  "stable (bind_run (refuse_active d) (\<lambda>_.
     bind_run (ask (\<lambda>w. beginCanary (rd_service d) (rd_slug d) (rd_deployment d) steps m e p (cw_reg w)))
       (run_owned fuel d)))"
  unfolding stable_def
proof (intro allI impI, goal_cases)
  case (1 w)
  have rest: "J (snd (catch_run (run_steps fuel d owner 0 (cf_steps (rd_config d))) (roll_back d owner) w'))" if "J w'" for owner w'
    using stable_catch [OF stable_run_steps stable_roll_back] that by (simp add: stable_def)
  show ?case
    using 1 by (auto simp: run_owned_def refuse_active_def bind_run_def ask_def pure_run_def throw_run_def change_def
        split: sum.split intro!: rest J_begin)
qed

theorem run_keeps: "J w \<Longrightarrow> J (snd (runCanary fuel d w))"
proof -
  have "stable (runCanary fuel d)"
    unfolding runCanary_def
    by (auto intro!: stable_bind [OF stable_await_ok] stable_started)
  then show "J w \<Longrightarrow> ?thesis" by (simp add: stable_def)
qed

end

subsection \<open>Ownership in a finished run\<close>

lemmas run_simps = run_steps_simps log_run_def

lemma owner_asserted: "assert_owner d owner w = (Some (Inr u), w') \<Longrightarrow>
  w' = w \<and> canaryOwnedBy (rd_service d) (rd_deployment d) (Some owner) (cw_reg w)"
  by (auto simp: assert_owner_def run_simps split: if_splits)

lemma checkpoint_owned: "checkpoint d owner w = (Some (Inr u), w') \<Longrightarrow>
  canaryOwnedBy (rd_service d) (rd_deployment d) (Some owner) (cw_reg w')"
  by (auto simp: checkpoint_def bind_ok dest: owner_asserted)

subsection \<open>Every step is judged\<close>

interpretation run_log: run_invariant "\<lambda>w. L \<subseteq> set (cw_log w)" d for L d
  by unfold_locales (auto simp: await_reply_def writeConfig_def Let_def split: list.split)

definition judged :: "run_deps \<Rightarrow> nat \<Rightarrow> canary_world \<Rightarrow> bool" where
  "judged d i w \<longleftrightarrow> (\<exists>st. StepMeasured (i + 1) st \<in> set (cw_log w) \<and> canaryStepProblem st (rd_config d) = None)"

lemma judged_stays:
  assumes "\<And>L. run_log.stable L m" and "judged d i w" and "m w = (r, w')"
  shows "judged d i w'"
proof -
  obtain st where st: "StepMeasured (i + 1) st \<in> set (cw_log w)" "canaryStepProblem st (rd_config d) = None"
    using assms(2) by (auto simp: judged_def)
  then have "{StepMeasured (i + 1) st} \<subseteq> set (cw_log (snd (m w)))"
    using assms(1) [of "{StepMeasured (i + 1) st}", unfolded run_log.stable_def, THEN spec, of w] by blast
  then show ?thesis using st assms(3) by (auto simp: judged_def)
qed

lemma step_rest_judges:
  assumes "step_rest d owner i weight started completed w = (Some (Inr False), w')" and "rd_measured d"
  shows "judged d i w'"
proof -
  obtain w1 where j: "judge_step d i weight w1 = (Some (Inr ()), w')"
    using assms(1) by (auto simp: step_rest_def run_simps split: if_splits)
  then show ?thesis
    using assms(2) by (auto simp: judge_step_def judged_def run_simps split: option.splits)
qed

lemma run_step_judges:
  assumes "run_step fuel d owner i weight w = (Some (Inr False), w')" and "rd_measured d"
  shows "judged d i w' \<and> canaryOwnedBy (rd_service d) (rd_deployment d) (Some owner) (cw_reg w')"
proof -
  obtain w1 w2 where body: "bind_run (enter_step d owner i weight) (\<lambda>_. step_body fuel d owner i weight) w1 = (Some (Inr False), w2)"
    and fin: "bind_run close_window (\<lambda>_. checkpoint d owner) w2 = (Some (Inr ()), w')"
    using assms(1) by (auto simp: run_step_def bind_ok finally_ok)
  obtain started r w3 where "after_loop d owner i weight started r w3 = (Some (Inr False), w2)"
    using body by (auto simp: step_body_def bind_ok)
  then have j2: "judged d i w2"
    using assms(2) by (cases r) (auto simp: after_loop_def pure_run_def intro: step_rest_judges)
  have "judged d i w'"
    by (rule judged_stays [where m = "bind_run close_window (\<lambda>_. checkpoint d owner)", OF _ j2 fin])
      (intro run_log.stable_bind run_log.stable_close run_log.stable_checkpoint)
  moreover have "canaryOwnedBy (rd_service d) (rd_deployment d) (Some owner) (cw_reg w')"
    using fin by (auto simp: bind_ok dest: checkpoint_owned)
  ultimately show ?thesis ..
qed

lemma run_steps_judge:
  assumes "rd_measured d"
  shows "run_steps fuel d owner i ws w = (Some (Inr Completed), w') \<Longrightarrow> ws \<noteq> [] \<Longrightarrow>
    (\<forall>k < length ws. judged d (i + k) w') \<and> canaryOwnedBy (rd_service d) (rd_deployment d) (Some owner) (cw_reg w')"
proof (induction ws arbitrary: i w)
  case (Cons weight ws)
  obtain w1 where step: "run_step fuel d owner i weight w = (Some (Inr False), w1)"
    and rest: "run_steps fuel d owner (i + 1) ws w1 = (Some (Inr Completed), w')"
    using Cons.prems(1) by (auto simp: bind_ok pure_run_def split: if_splits)
  note j = run_step_judges [OF step assms]
  have first: "judged d i w'"
    by (rule judged_stays [OF run_log.stable_run_steps _ rest]) (use j in simp)
  show ?case
  proof (cases "ws = []")
    case True
    then show ?thesis using rest j first by (auto simp: run_simps)
  next
    case False
    then have later: "\<forall>k < length ws. judged d (i + 1 + k) w'" "canaryOwnedBy (rd_service d) (rd_deployment d) (Some owner) (cw_reg w')"
      using Cons.IH [OF rest] by simp_all
    have "judged d (i + k) w'" if "k < length (weight # ws)" for k
      using later(1) first that by (cases k) auto
    then show ?thesis using later(2) by blast
  qed
qed simp

text \<open>
  A measured canary that completes has been judged at every step: each step's numbers
  of the new release were measured and passed the limits of the configuration, and at the end
  the deployment still owns the split, whatever the rest of the panel did in between.
\<close>

theorem completed_canary_was_judged:
  assumes "runCanary fuel d w = (Some (Inr Completed), w')" and "rd_measured d"
    and "cf_steps (rd_config d) \<noteq> []"
  shows "(\<forall>i < length (cf_steps (rd_config d)). \<exists>st. StepMeasured (i + 1) st \<in> set (cw_log w')
      \<and> canaryStepProblem st (rd_config d) = None)
    \<and> (\<exists>owner. canaryOwnedBy (rd_service d) (rd_deployment d) (Some owner) (cw_reg w'))"
proof -
  have thrown: "roll_back d owner e w1 \<noteq> (Some (Inr b), w2)" for owner e w1 w2 and b :: run_end
    by (auto simp: roll_back_def run_simps)
  obtain b w1 where "run_owned fuel d b w1 = (Some (Inr Completed), w')"
    using assms(1) by (auto simp: runCanary_def bind_ok throw_run_def split: if_splits)
  then obtain owner w1 where steps: "run_steps fuel d owner 0 (cf_steps (rd_config d)) w1 = (Some (Inr Completed), w')"
    using thrown by (cases b) (auto simp: run_owned_def bind_ok catch_ok throw_run_def)
  then show ?thesis
    using run_steps_judge [OF assms(2) steps assms(3)] by (auto simp: judged_def)
qed

subsection \<open>A failed run leaves no split behind\<close>

















subsection \<open>Other canaries are left alone\<close>

definition foreign :: "run_deps \<Rightarrow> (int \<Rightarrow> active_canary \<Rightarrow> bool) \<Rightarrow> canary_registry \<Rightarrow> bool" where
  "foreign d Q r \<longleftrightarrow> (\<forall>sid c. canary_of r sid = Some c \<and> ca_deployment c \<noteq> rd_deployment d \<longrightarrow> Q sid c)"

definition panel_keeps :: "(canary_registry \<Rightarrow> bool) \<Rightarrow> canary_world \<Rightarrow> bool" where
  "panel_keeps F w \<longleftrightarrow> (\<forall>r \<in> set (cw_replies w). \<forall>op \<in> set (rp_before r @ rp_after r). \<forall>reg. F reg \<longrightarrow> F (panel_do op reg))"

lemma panel_fold_keeps:
  "\<forall>op \<in> set ops. \<forall>reg. F reg \<longrightarrow> F (panel_do op reg) \<Longrightarrow> F reg \<Longrightarrow> F (fold panel_do ops reg)"
  by (induction ops arbitrary: reg) auto

lemma foreign_change:
  "map_option ca_deployment (canary_of r sid) = Some (rd_deployment d) \<Longrightarrow>
   (\<And>c. ca_deployment (f c) = ca_deployment c) \<Longrightarrow> foreign d Q r \<Longrightarrow> foreign d Q (change_canary sid f r)"
  by (auto simp: foreign_def change_at)

interpretation run_foreign: run_invariant
  "\<lambda>w. foreign d Q (cw_reg w) \<and> panel_keeps (foreign d Q) w" d for d Q
proof (unfold_locales, goal_cases)
  case (1 w)
  then show ?case
    by (auto simp: await_reply_def panel_keeps_def ball_Un intro!: panel_fold_keeps [of _ "foreign d Q"] split: list.split)
next
  case (2 w)
  then show ?case
    by (auto simp: writeConfig_def Let_def panel_keeps_def ball_Un intro!: panel_fold_keeps [of _ "foreign d Q"] split: list.split)
next
  case (5 w owner n route t0 t1)
  then show ?case
    by (auto simp: setCanaryStep_def canaryOwnedBy_def panel_keeps_def intro!: foreign_change split: option.splits)
next
  case (6 w n stats)
  then show ?case
    by (auto simp: setCanaryObservation_def panel_keeps_def intro!: foreign_change split: option.split)
next
  case (7 w owner)
  then show ?case
    by (auto simp: foreign_def end_at panel_keeps_def)
next
  case (8 w steps m e p owner r')
  have "foreign d Q r'"
    unfolding foreign_def
  proof (intro allI impI)
    fix sid c
    assume c: "canary_of r' sid = Some c \<and> ca_deployment c \<noteq> rd_deployment d"
    then have "sid \<noteq> rd_service d" using begin_at(4) [OF 8(3)] by auto
    then show "Q sid c" using c begin_at(3) [OF 8(3)] 8(1) by (auto simp: foreign_def)
  qed
  then show ?case using 8(1) by (simp add: panel_keeps_def)
qed (simp_all add: panel_keeps_def)

text \<open>
  A run only ever touches its own canary: whatever holds of every canary of other
  deployments, and is kept by the rest of the panel, is kept by the run - also when another
  deployment takes the service over while the run awaits. So a run whose ownership was lost
  neither moves, observes nor ends the canary of its successor.
\<close>

theorem run_leaves_other_canaries:
  assumes "foreign d Q (cw_reg w)"
    and "\<forall>r \<in> set (cw_replies w). \<forall>op \<in> set (rp_before r @ rp_after r).
      \<forall>reg. foreign d Q reg \<longrightarrow> foreign d Q (panel_do op reg)"
  shows "foreign d Q (cw_reg (snd (runCanary fuel d w)))"
  using run_foreign.run_keeps [of d Q w fuel] assms by (simp add: panel_keeps_def)

subsection \<open>A run only ever waits\<close>

text \<open>A run that is stuck has used up its replies, from any world with at most \<open>n\<close> of them.\<close>

definition waits :: "nat \<Rightarrow> 'a canary_run \<Rightarrow> bool" where
  "waits n m \<longleftrightarrow> (\<forall>w. length (cw_replies w) \<le> n \<longrightarrow>
     length (cw_replies (snd (m w))) \<le> length (cw_replies w) \<and> (fst (m w) = None \<longrightarrow> cw_replies (snd (m w)) = []))"

lemma waits_basic [simp, intro]:
  "waits n (pure_run a)" "waits n (throw_run e)" "waits n (ask f)" "waits n (log_run l)"
  "waits n (set_window b)" "waits n await_reply" "waits n (writeConfig sid)"
  by (auto simp: waits_def pure_run_def throw_run_def ask_def log_run_def change_def set_window_def
      await_reply_def writeConfig_def Let_def split: list.split)

lemma waits_change [simp]: "(\<And>w. cw_replies (f w) = cw_replies w) \<Longrightarrow> waits n (change f)"
  by (simp add: waits_def change_def)

lemma waits_result:
  assumes "waits n m" and "length (cw_replies w) \<le> n" and "m w = (res, w')"
  shows "length (cw_replies w') \<le> length (cw_replies w) \<and> (res = None \<longrightarrow> cw_replies w' = [])"
  using assms by (force simp: waits_def)

lemma waits_bind [intro]:
  assumes "waits n m" and "\<And>a. waits n (f a)"
  shows "waits n (bind_run m f)"
  unfolding waits_def
proof (intro allI impI)
  fix w :: canary_world
  assume w: "length (cw_replies w) \<le> n"
  obtain res w' where m: "m w = (res, w')" by (cases "m w")
  note r = waits_result [OF assms(1) w m]
  obtain res2 w2 where f: "f (projr (the res)) w' = (res2, w2)" by (cases "f (projr (the res)) w'")
  have "length (cw_replies w2) \<le> length (cw_replies w') \<and> (res2 = None \<longrightarrow> cw_replies w2 = [])"
    by (rule waits_result [OF assms(2) _ f]) (use r w in simp)
  then show "length (cw_replies (snd (bind_run m f w))) \<le> length (cw_replies w)
      \<and> (fst (bind_run m f w) = None \<longrightarrow> cw_replies (snd (bind_run m f w)) = [])"
    using m f r by (auto simp: bind_run_def split: option.split sum.split)
qed

lemma waits_catch [intro]:
  assumes "waits n m" and "\<And>e. waits n (h e)"
  shows "waits n (catch_run m h)"
  unfolding waits_def
proof (intro allI impI)
  fix w :: canary_world
  assume w: "length (cw_replies w) \<le> n"
  obtain res w' where m: "m w = (res, w')" by (cases "m w")
  note r = waits_result [OF assms(1) w m]
  obtain res2 w2 where f: "h (projl (the res)) w' = (res2, w2)" by (cases "h (projl (the res)) w'")
  have "length (cw_replies w2) \<le> length (cw_replies w') \<and> (res2 = None \<longrightarrow> cw_replies w2 = [])"
    by (rule waits_result [OF assms(2) _ f]) (use r w in simp)
  then show "length (cw_replies (snd (catch_run m h w))) \<le> length (cw_replies w)
      \<and> (fst (catch_run m h w) = None \<longrightarrow> cw_replies (snd (catch_run m h w)) = [])"
    using m f r by (auto simp: catch_run_def split: option.split sum.split)
qed

lemma waits_await_then:
  assumes "\<And>a n. n < m \<Longrightarrow> waits n (f a)"
  shows "waits m (bind_run await_reply f)"
  unfolding waits_def
proof (intro allI impI)
  fix w :: canary_world
  assume w: "length (cw_replies w) \<le> m"
  show "length (cw_replies (snd (bind_run await_reply f w))) \<le> length (cw_replies w)
      \<and> (fst (bind_run await_reply f w) = None \<longrightarrow> cw_replies (snd (bind_run await_reply f w)) = [])"
  proof (cases "cw_replies w")
    case Nil
    then show ?thesis by (simp add: bind_run_def await_reply_def)
  next
    case (Cons r rs)
    define v where "v = snd (await_reply w)"
    have v: "await_reply w = (Some (Inr r), v)" "cw_replies v = rs" by (simp_all add: v_def await_reply_def Cons)
    obtain res w' where f: "f r v = (res, w')" by (cases "f r v")
    have "length rs < m" using w by (simp add: Cons)
    then have "length (cw_replies w') \<le> length rs \<and> (res = None \<longrightarrow> cw_replies w' = [])"
      using waits_result [OF assms _ f] v(2) by auto
    then show ?thesis using v f by (simp add: bind_run_def Cons)
  qed
qed

lemma waits_await_ok: "waits n await_ok"
  unfolding await_ok_def by (auto intro!: waits_bind split: option.split)

lemma waits_checkpoint: "waits n (checkpoint d owner)" "waits n (assert_owner d owner)"
  unfolding checkpoint_def assert_owner_def using waits_await_ok by (auto intro!: waits_bind)

lemma waits_observe: "waits n (observe d owner i finish)"
  unfolding observe_def using waits_await_ok waits_checkpoint by (auto intro!: waits_bind split: prod.split)

lemma waits_probe: "waits n (probe_release d owner weight)"
  unfolding probe_release_def using waits_await_ok waits_checkpoint by (auto intro!: waits_bind)

lemma waits_tick_loop: "n < fuel \<Longrightarrow> waits n (tick_loop fuel d owner i weight started lastProbe completed)"
proof (induction fuel arbitrary: n lastProbe completed)
  case (Suc fuel)
  have "waits k (tick_loop fuel d owner i weight started lp c)" if "k < n" for k lp c
    using Suc.IH Suc.prems that by simp
  then show ?case
    using waits_checkpoint waits_observe waits_probe
    by (auto intro!: waits_await_then waits_bind [OF waits_basic(3)] waits_bind [OF waits_checkpoint(1)]
        waits_bind [OF waits_observe] waits_bind [OF waits_probe] waits_bind [OF waits_basic(4)] split: prod.split)
qed simp

lemma waits_run_step: "n < fuel \<Longrightarrow> waits n (run_step fuel d owner i weight)"
  unfolding run_step_def finally_run_def enter_step_def step_body_def after_loop_def step_rest_def judge_step_def close_window_def
  using waits_checkpoint waits_await_ok waits_observe waits_probe waits_tick_loop
  by (auto intro!: waits_bind waits_catch split: sum.split option.split)

lemma waits_run_steps: "n < fuel \<Longrightarrow> waits n (run_steps fuel d owner i ws)"
  by (induction ws arbitrary: i) (auto intro!: waits_bind waits_run_step)

lemma waits_roll_back: "waits n (roll_back d owner err)"
  unfolding roll_back_def rollback_once_def refuse_active_def using waits_checkpoint by (auto intro!: waits_bind waits_catch)

text \<open>
  A canary run never hangs by itself: with rounds for as many awaits as are answered,
  it has either returned or thrown, or it waits for an await that was not answered. Every loop
  of the run, however the clock moves, awaits in each round.
\<close>

theorem canary_run_only_waits:
  assumes "length (cw_replies w) < fuel" and "runCanary fuel d w = (None, w')"
  shows "cw_replies w' = []"
proof -
  have "waits n (run_owned fuel d b)" if "n < fuel" for n b
    unfolding run_owned_def using waits_run_steps [OF that] waits_roll_back
    by (auto intro!: waits_bind waits_catch split: sum.split)
  then have "waits (length (cw_replies w)) (runCanary fuel d)"
    unfolding runCanary_def refuse_active_def using waits_await_ok assms(1) by (auto intro!: waits_bind)
  from waits_result [OF this order_refl assms(2)] show ?thesis by simp
qed

subsection \<open>Runs on concrete replies\<close>

definition good_stats :: release_stats where
  "good_stats = \<lparr>rs_requests = 40, rs_errors = 1, rs_error_rate = Some 2, rs_p95 = Some 80\<rparr>"

definition answered :: "bool \<Rightarrow> ms \<Rightarrow> reply" where
  "answered healthy now = \<lparr>rp_before = [], rp_after = [PanelPromote 8 2], rp_fail = None, rp_healthy = healthy,
     rp_complete = True, rp_stats = \<lparr>sp_canary = good_stats, sp_stable = good_stats\<rparr>, rp_now = now\<rparr>"

definition other_canary :: active_canary where
  "other_canary = \<lparr>ca_owner = 0, ca_server = None, ca_stable_runtime = None, ca_deployment = 2, ca_slug = ''api'',
     ca_steps = 1, ca_step = 1, ca_route = None, ca_started = 0, ca_ends = 9, ca_measured = False, ca_external = False,
     ca_promote = True, ca_canary = empty_sample, ca_stable = empty_sample, ca_observed = None\<rparr>"

definition example_world :: "reply list \<Rightarrow> canary_world" where
  "example_world replies = \<lparr>cw_reg = \<lparr>cn_active = [(8, other_canary)], cn_slugs = [(''api'', 8)], cn_next = 1\<rparr>,
     cw_loaded = [None], cw_replies = replies, cw_now = 0, cw_window = False, cw_log = []\<rparr>"

definition example_deps :: run_deps where
  "example_deps = \<lparr>rd_service = 7, rd_slug = ''web'', rd_deployment = 3, rd_server = None, rd_stable = Some ''nd-web-2'',
     rd_config = \<lparr>cf_steps = [10], cf_step_seconds = 30, cf_max_error_rate = 5, cf_max_p95 = Some 100, cf_min_requests = 20\<rparr>,
     rd_runtime = ''nd-web-3'', rd_replicas = None, rd_port = None, rd_measured = True, rd_open_traffic = True,
     rd_probe_every = 15000\<rparr>"

abbreviation replies_of :: "bool \<Rightarrow> nat \<Rightarrow> reply list" where
  "replies_of healthy n \<equiv> replicate 8 (answered True 0) @ replicate n (answered healthy 40000)"

lemma example_completes:
  "fst (runCanary 20 example_deps (example_world (replies_of True 10))) = Some (Inr Completed)"
  by code_simp


lemma example_pending: "fst (runCanary 20 example_deps (example_world (replies_of True 9))) = None"
  by code_simp

lemma pair_fst: "fst p = a \<Longrightarrow> p = (a, snd p)"
  by (cases p) simp

theorem completed_canary_was_judged_witness:
  "\<exists>st. StepMeasured 1 st \<in> set (cw_log (snd (runCanary 20 example_deps (example_world (replies_of True 10)))))
    \<and> canaryStepProblem st (rd_config example_deps) = None"
proof -
  have "cf_steps (rd_config example_deps) = [10]" "rd_measured example_deps" by (simp_all add: example_deps_def)
  then show ?thesis
    using completed_canary_was_judged [OF pair_fst [OF example_completes]] by simp
qed


theorem run_leaves_other_canaries_witness:
  "foreign example_deps (\<lambda>sid c. sid = 8 \<and> c = other_canary)
     (cw_reg (snd (runCanary 20 example_deps (example_world (replies_of True 10)))))"
proof (rule run_leaves_other_canaries)
  let ?Q = "\<lambda>sid c. sid = 8 \<and> c = other_canary"
  show "foreign example_deps ?Q (cw_reg (example_world (replies_of True 10)))"
    by (simp add: foreign_def example_world_def canary_of_def)
  have "foreign example_deps ?Q (panel_do (PanelPromote 8 2) reg)" if "foreign example_deps ?Q reg" for reg
  proof -
    have "c\<lparr>ca_promote := True\<rparr> = c" if "c = other_canary" for c :: active_canary
      by (simp add: that other_canary_def)
    then show ?thesis
      using \<open>foreign example_deps ?Q reg\<close>
      by (fastforce simp: foreign_def requestCanaryPromote_def change_at example_deps_def split: option.split if_splits)
  qed
  then show "\<forall>r \<in> set (cw_replies (example_world (replies_of True 10))).
      \<forall>op \<in> set (rp_before r @ rp_after r). \<forall>reg. foreign example_deps ?Q reg \<longrightarrow> foreign example_deps ?Q (panel_do op reg)"
    by (auto simp: example_world_def answered_def)
qed

theorem canary_run_only_waits_witness:
  "cw_replies (snd (runCanary 20 example_deps (example_world (replies_of True 9)))) = []"
  by (rule canary_run_only_waits [OF _ pair_fst [OF example_pending]]) (simp add: example_world_def)

end
