(* ===== verification/DeployFinish.thy ===== *)
theory DeployFinish
  imports CanaryRun DeployQueue
begin

text \<open>
  How a deployment ends (\<open>engine/pipeline.ts\<close>): the failure path of \<open>runDeploymentCore\<close>, the
  routing transition after a healthy build, and the last resort of \<open>runDeployment\<close>, statement by
  statement. A run consumes one reply per \<open>await\<close>: what the rest of the panel does to the rows,
  the canaries and the proxy before and after the instant the awaited call takes effect, and how
  it ends. The service is a PM2 process, a Compose stack or a Docker container of the panel host
  (no node, no Swarm); \<open>fd_leased\<close> says whether a recovery lease (\<open>engine/primaryRecovery.ts\<close>)
  guards the transition.
\<close>

subsection \<open>Rows and replies\<close>

datatype service_status = SvcIdle | SvcDeploying | SvcRunning | SvcStopped | SvcError | SvcDeleting

text \<open>The columns of a service row the finish reads or writes.\<close>

record service_run =
  sr_status :: service_status
  sr_runtime :: "string option"
  sr_port :: "int option"
  sr_commit :: "string option"
  sr_replicas :: int
  sr_asleep :: bool

record built_runtime =
  rn_id :: string
  rn_port :: "int option"
  rn_replicas :: int

text \<open>\<open>DeploymentCancelled\<close>, \<open>ProxyRoutingUnconfirmed\<close>, \<open>PrimaryIdentityUnconfirmed\<close>, a lost lease, and any other.\<close>

datatype finish_error = ErrCancelled | ErrUnconfirmed | ErrIdentity | ErrLease | ErrOther

text \<open>What the rest of the panel does: cancel and remove routes, stop and start routes, the runtime
  reconcile, the worker, a route write of its own, a canary operation.\<close>

datatype env_op = EnvCancel int | EnvAbort | EnvRemove int | EnvEnqueue deployment | EnvClaim int
  | EnvStatus service_status | EnvDeleteService | EnvRender | EnvCanary panel_op

text \<open>\<open>Refused\<close>: the call answers no (or, for a route write, what a plain success is); \<open>Broken\<close>: it throws;
  \<open>Unclear\<close>: a route write without the proxy's acknowledgement.\<close>

datatype answer = Granted | Refused | Broken | Unclear

record finish_reply =
  fr_before :: "env_op list"
  fr_after :: "env_op list"
  fr_answer :: answer
  fr_db_fails :: bool
  fr_fence :: bool
  fr_now :: ms

text \<open>
  \<open>fz_loaded\<close>: the runtimes the proxy may send the service's traffic to. \<open>fz_touched\<close> and
  \<open>fz_confirmed\<close>: the lease's \<open>routingTouched\<close> and the row its last confirmed write rendered.
  \<open>fz_stopped\<close>: the runtimes stopped, each with whether the proxy might have used it then.
\<close>

record finish_world =
  fz_deps :: "deployment list"
  fz_service :: "service_run option"
  fz_canaries :: canary_registry
  fz_loaded :: "string list"
  fz_touched :: bool
  fz_confirmed :: "service_run option"
  fz_aborted :: bool
  fz_stopped :: "(string \<times> bool) list"
  fz_replies :: "finish_reply list"
  fz_now :: ms

text \<open>
  What the finish knows: ids, type, the runtime and values of the row read before the deploy,
  whether the builder can revive a runtime, the owner of the canary, the commit built.
\<close>

record finish_deps =
  fd_service :: int
  fd_deployment :: int
  fd_type :: string
  fd_previous :: "(string \<times> int option) option"
  fd_commit :: "string option"
  fd_replicas :: int
  fd_revive :: bool
  fd_leased :: bool
  fd_canary_held :: bool
  fd_canary_owner :: "nat option"
  fd_sha :: "string option"

type_synonym 'a finish_run = "(finish_error, finish_world, 'a) run"

text \<open>The runtimes a rendered configuration sends the service's traffic to: its row's, and a canary's share.\<close>

definition rendered_to :: "int \<Rightarrow> finish_world \<Rightarrow> string list" where
  "rendered_to sid w =
     (case fz_service w of None \<Rightarrow> [] | Some s \<Rightarrow> (case sr_runtime s of None \<Rightarrow> [] | Some r \<Rightarrow> [r])) @
     (case canaryRouteFor sid None (fz_canaries w) of None \<Rightarrow> [] | Some route \<Rightarrow> [cr_runtime route])"

definition in_progress :: "deploy_status \<Rightarrow> bool" where
  "in_progress s \<longleftrightarrow> s = Building \<or> s = Deploying"

text \<open>Only a queued row is claimed, a row that is not running or in flight removed.\<close>

fun env_do :: "int \<Rightarrow> env_op \<Rightarrow> finish_world \<Rightarrow> finish_world" where
  "env_do sid (EnvCancel i) w = w\<lparr>fz_deps := map (\<lambda>d.
      if dep_id d = i \<and> isCancellable (dep_status d) then d\<lparr>dep_status := Cancelled, dep_finished := Some (fz_now w)\<rparr> else d) (fz_deps w)\<rparr>"
| "env_do sid EnvAbort w = w\<lparr>fz_aborted := True\<rparr>"
| "env_do sid (EnvRemove i) w = w\<lparr>fz_deps := filter (\<lambda>d. \<not> (dep_id d = i \<and> dep_status d \<in> {Superseded, Failed, Cancelled})) (fz_deps w)\<rparr>"
| "env_do sid (EnvEnqueue d) w =
     (if dep_id d \<in> set (map dep_id (fz_deps w)) then w else w\<lparr>fz_deps := fz_deps w @ [d\<lparr>dep_status := Queued\<rparr>]\<rparr>)"
| "env_do sid (EnvClaim i) w = w\<lparr>fz_deps := map (\<lambda>d.
      if dep_id d = i \<and> dep_status d = Queued then d\<lparr>dep_status := Building\<rparr> else d) (fz_deps w)\<rparr>"
| "env_do sid (EnvStatus st) w = w\<lparr>fz_service := map_option (\<lambda>s. s\<lparr>sr_status := st\<rparr>) (fz_service w)\<rparr>"
| "env_do sid EnvDeleteService w = w\<lparr>fz_service := None, fz_deps := filter (\<lambda>d. dep_service d \<noteq> sid) (fz_deps w)\<rparr>"
| "env_do sid EnvRender w = w\<lparr>fz_loaded := rendered_to sid w\<rparr>"
| "env_do sid (EnvCanary op) w = w\<lparr>fz_canaries := panel_do op (fz_canaries w)\<rparr>"

subsection \<open>Awaits\<close>

text \<open>An await whose effect is \<open>f\<close>, at one instant between what the panel does before and after.\<close>

definition await_do :: "finish_deps \<Rightarrow> (finish_reply \<Rightarrow> finish_world \<Rightarrow> (finish_error + 'a) \<times> finish_world) \<Rightarrow> 'a finish_run" where
  "await_do d f w =
     (case fz_replies w of
        [] \<Rightarrow> (None, w)
      | r # rs \<Rightarrow>
          (case f r (fold (env_do (fd_service d)) (fr_before r) (w\<lparr>fz_replies := rs, fz_now := fr_now r\<rparr>)) of
             (res, w') \<Rightarrow> (Some res, fold (env_do (fd_service d)) (fr_after r) w')))"

text \<open>A statement: it throws, or takes effect. \<open>fenced\<close>: what \<open>runtimeFence()\<close> adds to its condition.\<close>

definition statement :: "finish_deps \<Rightarrow> (bool \<Rightarrow> finish_world \<Rightarrow> 'a \<times> finish_world) \<Rightarrow> 'a finish_run" where
  "statement d f = await_do d (\<lambda>r w.
     if fr_db_fails r then (Inl ErrOther, w)
     else (case f (fd_leased d \<longrightarrow> fr_fence r) w of (a, w') \<Rightarrow> (Inr a, w')))"

definition own_row :: "finish_deps \<Rightarrow> finish_world \<Rightarrow> deployment option" where
  "own_row d w = List.find (\<lambda>r. dep_id r = fd_deployment d) (fz_deps w)"

definition change_rows :: "(deployment \<Rightarrow> bool) \<Rightarrow> (ms \<Rightarrow> deployment \<Rightarrow> deployment) \<Rightarrow> finish_world \<Rightarrow> bool \<times> finish_world" where
  "change_rows P f w =
     (list_ex P (fz_deps w), w\<lparr>fz_deps := map (\<lambda>d. if P d then f (fz_now w) d else d) (fz_deps w)\<rparr>)"

definition settle_row :: "deploy_status \<Rightarrow> ms \<Rightarrow> deployment \<Rightarrow> deployment" where
  "settle_row st now r = r\<lparr>dep_status := st, dep_finished := Some now\<rparr>"

text \<open>\<open>UPDATE deployments\<close> of this deployment where its status is one of \<open>from\<close>; whether a row changed.\<close>

definition update_own :: "finish_deps \<Rightarrow> deploy_status list \<Rightarrow> (ms \<Rightarrow> deployment \<Rightarrow> deployment) \<Rightarrow> bool finish_run" where
  "update_own d from f = statement d (\<lambda>fenced.
     change_rows (\<lambda>r. dep_id r = fd_deployment d \<and> dep_status r \<in> set from \<and> fenced) f)"

text \<open>\<open>UPDATE services\<close> of this service where \<open>P\<close>; whether the row changed.\<close>

definition change_service :: "(service_run \<Rightarrow> bool) \<Rightarrow> (service_run \<Rightarrow> service_run) \<Rightarrow> finish_world \<Rightarrow> bool \<times> finish_world" where
  "change_service P f w =
     (case fz_service w of
        None \<Rightarrow> (False, w)
      | Some s \<Rightarrow> if P s then (True, w\<lparr>fz_service := Some (f s)\<rparr>) else (False, w))"

definition update_service :: "finish_deps \<Rightarrow> (service_run \<Rightarrow> bool) \<Rightarrow> (service_run \<Rightarrow> service_run) \<Rightarrow> bool finish_run" where
  "update_service d P f = statement d (\<lambda>fenced. change_service (\<lambda>s. P s \<and> fenced) f)"

definition not_stopped :: "service_run \<Rightarrow> bool" where
  "not_stopped s \<longleftrightarrow> sr_status s \<noteq> SvcStopped"

definition serving :: "string \<Rightarrow> service_run \<Rightarrow> bool" where
  "serving rt s \<longleftrightarrow> sr_runtime s = Some rt \<and> sr_status s = SvcRunning"

text \<open>A row that is gone counts as cancelled.\<close>

definition isCancelled :: "finish_deps \<Rightarrow> bool finish_run" where
  "isCancelled d = statement d (\<lambda>_ w.
     (case own_row d w of None \<Rightarrow> True | Some r \<Rightarrow> dep_status r = Cancelled, w))"

text \<open>The check of the lease, where there is one.\<close>

definition check_lease :: "finish_deps \<Rightarrow> unit finish_run" where
  "check_lease d =
     (if \<not> fd_leased d then pure_run ()
      else await_do d (\<lambda>r w. (if fr_db_fails r then Inl ErrOther else if fr_fence r then Inr () else Inl ErrLease, w)))"

text \<open>\<open>current\<close> of the lease: the service row, or a throw.\<close>

definition lease_current :: "finish_deps \<Rightarrow> service_run finish_run" where
  "lease_current d = await_do d (\<lambda>r w.
     (if fr_db_fails r then Inl ErrOther else if \<not> fr_fence r then Inl ErrLease
      else case fz_service w of None \<Rightarrow> Inl ErrOther | Some s \<Rightarrow> Inr s, w))"

text \<open>\<open>writeDynamicConfig\<close>: a plain failure is one before the file is replaced.\<close>

definition write_config :: "finish_deps \<Rightarrow> unit finish_run" where
  "write_config d = await_do d (\<lambda>r w.
     case fr_answer r of
       Broken \<Rightarrow> (Inl ErrOther, w)
     | Unclear \<Rightarrow> (Inl ErrUnconfirmed, w\<lparr>fz_loaded := rendered_to (fd_service d) w @ fz_loaded w\<rparr>)
     | _ \<Rightarrow> (Inr (), w\<lparr>fz_loaded := rendered_to (fd_service d) w\<rparr>))"

text \<open>What the lease compares of a service row.\<close>

definition route_print :: "service_run \<Rightarrow> string option \<times> service_status \<times> int option \<times> int \<times> bool" where
  "route_print s = (sr_runtime s, sr_status s, sr_port s, sr_replicas s, sr_asleep s)"

definition lease_confirm :: "finish_deps \<Rightarrow> unit finish_run" where
  "lease_confirm d =
     bind_run (lease_current d) (\<lambda>before. bind_run (write_config d) (\<lambda>_. bind_run (lease_current d) (\<lambda>s.
       if route_print s \<noteq> route_print before then throw_run ErrOther
       else change (\<lambda>w. w\<lparr>fz_confirmed := Some s\<rparr>))))"

definition flip_routing :: "finish_deps \<Rightarrow> unit finish_run" where
  "flip_routing d = (if fd_leased d then lease_confirm d else write_config d)"

text \<open>
  \<open>builder.stop\<close> and its \<open>catch\<close>. A lease wraps it: it retires a generation of the transition only
  while the row names another one, and the route to that one is confirmed once routing was touched.
\<close>

definition stop_effect :: "finish_deps \<Rightarrow> string \<Rightarrow> unit finish_run" where
  "stop_effect d rt = await_do d (\<lambda>r w.
     (if fr_answer r = Broken then Inl ErrOther else Inr (), w\<lparr>fz_stopped := fz_stopped w @ [(rt, rt \<in> set (fz_loaded w))]\<rparr>))"

definition may_retire :: "finish_deps \<Rightarrow> string \<Rightarrow> string \<Rightarrow> service_run \<Rightarrow> finish_world \<Rightarrow> bool" where
  "may_retire d candidate rt s w \<longleftrightarrow>
     (rt = candidate \<or> map_option fst (fd_previous d) = Some rt) \<and> sr_runtime s \<noteq> Some rt
     \<and> (fz_touched w \<longrightarrow> map_option route_print (fz_confirmed w) = Some (route_print s))"

definition stop_runtime :: "finish_deps \<Rightarrow> string \<Rightarrow> string \<Rightarrow> unit finish_run" where
  "stop_runtime d candidate rt =
     catch_run
       (if \<not> fd_leased d then stop_effect d rt
        else bind_run (lease_current d) (\<lambda>s. bind_run (ask (may_retire d candidate rt s)) (\<lambda>may.
          if may then stop_effect d rt else throw_run ErrOther)))
       (\<lambda>_. pure_run ())"

text \<open>A probe or a revival: what throws counts as no.\<close>

definition ask_builder :: "finish_deps \<Rightarrow> bool finish_run" where
  "ask_builder d = await_do d (\<lambda>r w. (Inr (fr_answer r = Granted), w))"

definition pause_run :: "finish_deps \<Rightarrow> unit finish_run" where
  "pause_run d = await_do d (\<lambda>r w. (Inr (), w))"

subsection \<open>The failure path\<close>

datatype finish_end = Live | RolledBack | NeverUp | Down | CancelledEarly | Orphaned | RoutingFailed | CancelledLate
  | HandedOver

text \<open>Both statements of \<open>safeFail\<close> are tried, neither throws.\<close>

definition safeFail :: "finish_deps \<Rightarrow> string option \<Rightarrow> unit finish_run" where
  "safeFail d rt =
     bind_run (catch_run (update_own d [Queued, Building, Deploying] (settle_row Failed)) (\<lambda>_. pure_run False)) (\<lambda>_.
     bind_run (catch_run (update_service d not_stopped (\<lambda>s. s\<lparr>sr_status := SvcError, sr_runtime := rt\<rparr>)) (\<lambda>_. pure_run False))
       (\<lambda>_. pure_run ()))"

definition set_status :: "service_status \<Rightarrow> service_run \<Rightarrow> service_run" where
  "set_status st s = s\<lparr>sr_status := st\<rparr>"

text \<open>A cancel kills the running step, so the error is not always the cancellation itself.\<close>

definition was_cancelled :: "finish_deps \<Rightarrow> finish_error \<Rightarrow> bool finish_run" where
  "was_cancelled d err =
     bind_run (ask fz_aborted) (\<lambda>aborted.
       if err = ErrCancelled \<or> aborted then pure_run True else isCancelled d)"

text \<open>A canary that still holds a share is routed back first; \<open>True\<close> when that is not confirmed.\<close>

definition end_canary :: "finish_deps \<Rightarrow> finish_world \<Rightarrow> finish_world" where
  "end_canary d w = w\<lparr>fz_canaries := endCanary (fd_service d) (Some (fd_deployment d)) (fd_canary_owner d) (fz_canaries w)\<rparr>"

definition retain_candidate :: "finish_deps \<Rightarrow> finish_error \<Rightarrow> bool finish_run" where
  "retain_candidate d err =
     bind_run (ask (\<lambda>w. (canaryActive (fd_service d) (fz_canaries w),
         canaryOwnedBy (fd_service d) (fd_deployment d) (fd_canary_owner d) (fz_canaries w)))) (\<lambda>(active, owned).
       let retain = (err = ErrUnconfirmed \<or> err = ErrIdentity) in
       if \<not> active then pure_run retain
       else if \<not> owned then throw_run ErrUnconfirmed
       else bind_run (change (end_canary d)) (\<lambda>_.
         catch_run (bind_run (flip_routing d) (\<lambda>_. pure_run retain)) (\<lambda>_. pure_run True)))"

text \<open>Whether the previous runtime serves, after reviving one this deploy stopped.\<close>

definition previous_serves :: "finish_deps \<Rightarrow> bool \<Rightarrow> string option \<Rightarrow> bool \<Rightarrow> bool finish_run" where
  "previous_serves d has_builder candidate retain =
     (case fd_previous d of
        None \<Rightarrow> pure_run False
      | Some (prev, _) \<Rightarrow>
          if \<not> has_builder then pure_run False
          else bind_run (if \<not> retain \<and> candidate \<noteq> Some prev \<and> fd_revive d then ask_builder d else pure_run False)
            (\<lambda>_. ask_builder d))"

definition record_failure :: "finish_deps \<Rightarrow> bool \<Rightarrow> bool \<Rightarrow> finish_end finish_run" where
  "record_failure d cancelled restored =
     (if restored then
        bind_run (update_service d not_stopped (set_status SvcRunning)) (\<lambda>_.
        bind_run (update_own d [Building, Deploying] (settle_row (if cancelled then Cancelled else Failed))) (\<lambda>_. pure_run RolledBack))
      else if cancelled then
        bind_run (update_service d not_stopped (set_status SvcIdle)) (\<lambda>_.
        bind_run (update_own d [Building, Deploying] (settle_row Cancelled)) (\<lambda>_. pure_run NeverUp))
      else
        bind_run (check_lease d) (\<lambda>_. bind_run (safeFail d (map_option fst (fd_previous d))) (\<lambda>_. pure_run Down)))"

text \<open>
  The \<open>catch\<close> of the pipeline: \<open>has_builder\<close> once a builder was chosen, \<open>candidate\<close> once it
  started a runtime.
\<close>

definition fail_path :: "finish_deps \<Rightarrow> finish_error \<Rightarrow> bool \<Rightarrow> string option \<Rightarrow> finish_end finish_run" where
  "fail_path d err has_builder candidate =
     bind_run (check_lease d) (\<lambda>_. bind_run (was_cancelled d err) (\<lambda>cancelled. bind_run (retain_candidate d err) (\<lambda>retain.
     bind_run
       (case candidate of
          Some rt \<Rightarrow> if \<not> retain \<and> map_option fst (fd_previous d) \<noteq> Some rt then stop_runtime d rt rt else pure_run ()
        | None \<Rightarrow> pure_run ()) (\<lambda>_.
     bind_run (previous_serves d has_builder candidate retain) (record_failure d cancelled)))))"

subsection \<open>The routing transition\<close>

definition to_previous :: "finish_deps \<Rightarrow> string \<Rightarrow> int option \<Rightarrow> service_run \<Rightarrow> service_run" where
  "to_previous d prev port s =
     s\<lparr>sr_status := SvcRunning, sr_runtime := Some prev, sr_port := port, sr_commit := fd_commit d, sr_replicas := fd_replicas d\<rparr>"

definition in_place :: "finish_deps \<Rightarrow> built_runtime \<Rightarrow> bool" where
  "in_place d rt \<longleftrightarrow> map_option fst (fd_previous d) = Some (rn_id rt)"

text \<open>The deployment was not \<open>building\<close> any more.\<close>

definition cancelled_early :: "finish_deps \<Rightarrow> built_runtime \<Rightarrow> finish_end finish_run" where
  "cancelled_early d rt =
     bind_run (check_lease d) (\<lambda>_.
     bind_run
       (if in_place d rt then
          update_service d not_stopped (\<lambda>s. s\<lparr>sr_status := SvcRunning, sr_runtime := Some (rn_id rt)\<rparr>)
        else
          bind_run
            (if fd_canary_held d
             then catch_run (bind_run (write_config d) (\<lambda>_. pure_run True)) (\<lambda>_. pure_run False)
             else pure_run True) (\<lambda>canRetire.
          bind_run (if canRetire then stop_runtime d (rn_id rt) (rn_id rt) else pure_run ()) (\<lambda>_.
          bind_run (if canRetire \<and> fd_previous d \<noteq> None \<and> fd_revive d then ask_builder d else pure_run False) (\<lambda>_.
            case fd_previous d of
              Some (prev, _) \<Rightarrow> update_service d not_stopped (\<lambda>s. s\<lparr>sr_status := SvcRunning, sr_runtime := Some prev\<rparr>)
            | None \<Rightarrow> update_service d not_stopped (set_status SvcIdle)))))
       (\<lambda>_. pure_run CancelledEarly))"

text \<open>The routing could not be confirmed twice; \<open>uncertain\<close>: the proxy may have loaded it.\<close>

definition revert_routing :: "finish_deps \<Rightarrow> built_runtime \<Rightarrow> bool \<Rightarrow> unit finish_run" where
  "revert_routing d rt uncertain =
     (if in_place d rt \<or> fd_type d = ''pm2'' then
        bind_run (update_service d (serving (rn_id rt)) (set_status SvcRunning)) (\<lambda>_. pure_run ())
      else case fd_previous d of
        Some (prev, port) \<Rightarrow>
          bind_run (update_service d (serving (rn_id rt)) (to_previous d prev port)) (\<lambda>restored.
            if \<not> restored then pure_run ()
            else bind_run
              (if uncertain then catch_run (bind_run (flip_routing d) (\<lambda>_. pure_run True)) (\<lambda>_. pure_run False) else pure_run True)
              (\<lambda>canRetire. if canRetire then stop_runtime d (rn_id rt) (rn_id rt) else pure_run ()))
      | None \<Rightarrow>
          if uncertain then pure_run ()
          else bind_run (update_service d (serving (rn_id rt)) (\<lambda>s. s\<lparr>sr_status := SvcError, sr_runtime := None\<rparr>))
            (\<lambda>cleared. if cleared then stop_runtime d (rn_id rt) (rn_id rt) else pure_run ()))"

definition routing_failed :: "finish_deps \<Rightarrow> built_runtime \<Rightarrow> finish_error \<Rightarrow> finish_error \<Rightarrow> finish_end finish_run" where
  "routing_failed d rt first second =
     bind_run (check_lease d) (\<lambda>_. bind_run (isCancelled d) (\<lambda>cancelled.
     bind_run (update_own d [Deploying] (settle_row (if cancelled then Cancelled else Failed))) (\<lambda>_.
     bind_run (revert_routing d rt (first = ErrUnconfirmed \<or> second = ErrUnconfirmed)) (\<lambda>_. pure_run RoutingFailed))))"

text \<open>The promotion found the deployment cancelled or the service changed.\<close>

definition cancelled_late :: "finish_deps \<Rightarrow> built_runtime \<Rightarrow> finish_end finish_run" where
  "cancelled_late d rt =
     bind_run (check_lease d) (\<lambda>_. bind_run (update_own d [Deploying] (settle_row Cancelled)) (\<lambda>_.
     bind_run
       (case fd_previous d of
          Some (prev, port) \<Rightarrow>
            if in_place d rt \<or> fd_type d = ''pm2'' then pure_run ()
            else bind_run (ask_builder d) (\<lambda>healthy.
              if \<not> healthy then pure_run ()
              else bind_run (update_service d (serving (rn_id rt)) (to_previous d prev port)) (\<lambda>restored.
                if \<not> restored then pure_run ()
                else catch_run (bind_run (flip_routing d) (\<lambda>_. stop_runtime d (rn_id rt) (rn_id rt))) (\<lambda>_. pure_run ())))
        | None \<Rightarrow> pure_run ()) (\<lambda>_. pure_run CancelledLate)))"

text \<open>The promotion: one statement over the deployment and the service row.\<close>

definition promote :: "finish_deps \<Rightarrow> built_runtime \<Rightarrow> bool finish_run" where
  "promote d rt = statement d (\<lambda>fenced w.
     change_rows (\<lambda>r. dep_id r = fd_deployment d \<and> dep_status r = Deploying \<and> fenced
         \<and> (case fz_service w of None \<Rightarrow> False | Some s \<Rightarrow> serving (rn_id rt) s))
       (settle_row Running) w)"

definition supersede :: "finish_deps \<Rightarrow> bool finish_run" where
  "supersede d = statement d (\<lambda>fenced.
     change_rows (\<lambda>r. dep_service r = fd_service d \<and> dep_status r = Running \<and> dep_id r \<noteq> fd_deployment d \<and> fenced)
       (\<lambda>now r. r\<lparr>dep_status := Superseded\<rparr>))"

text \<open>After the promotion: the older release is superseded, its runtime drained and stopped.\<close>

definition go_live :: "finish_deps \<Rightarrow> built_runtime \<Rightarrow> finish_end finish_run" where
  "go_live d rt =
     bind_run (supersede d) (\<lambda>_.
     bind_run
       (case fd_previous d of
          Some (prev, _) \<Rightarrow>
            if in_place d rt then pure_run ()
            else bind_run (pause_run d) (\<lambda>_. stop_runtime d (rn_id rt) prev)
        | None \<Rightarrow> pure_run ())
       (\<lambda>_. bind_run (check_lease d) (\<lambda>_. pure_run Live)))"

definition promote_or_cancel :: "finish_deps \<Rightarrow> built_runtime \<Rightarrow> finish_end finish_run" where
  "promote_or_cancel d rt =
     bind_run (promote d rt) (\<lambda>promoted. if promoted then go_live d rt else cancelled_late d rt)"

definition route_new :: "finish_deps \<Rightarrow> built_runtime \<Rightarrow> finish_end finish_run" where
  "route_new d rt =
     bind_run
       (catch_run (bind_run (flip_routing d) (\<lambda>_. pure_run None)) (\<lambda>first.
          bind_run (check_lease d) (\<lambda>_. bind_run (pause_run d) (\<lambda>_.
          catch_run (bind_run (flip_routing d) (\<lambda>_. pure_run None)) (\<lambda>second. pure_run (Some (first, second)))))))
       (\<lambda>failure. case failure of
          None \<Rightarrow> promote_or_cancel d rt
        | Some (first, second) \<Rightarrow> routing_failed d rt first second)"

definition publish :: "finish_deps \<Rightarrow> built_runtime \<Rightarrow> service_run \<Rightarrow> service_run" where
  "publish d rt s =
     s\<lparr>sr_status := SvcRunning, sr_runtime := Some (rn_id rt), sr_port := rn_port rt, sr_commit := fd_sha d,
       sr_replicas := rn_replicas rt, sr_asleep := False\<rparr>"

text \<open>\<open>intentCandidate\<close> of the lease: from here its routing counts as touched.\<close>

definition intend_candidate :: "finish_deps \<Rightarrow> unit finish_run" where
  "intend_candidate d =
     (if \<not> fd_leased d then pure_run ()
      else bind_run (check_lease d) (\<lambda>_. change (\<lambda>w. w\<lparr>fz_touched := True, fz_confirmed := None\<rparr>)))"

definition release_canary :: "finish_deps \<Rightarrow> unit finish_run" where
  "release_canary d =
     (if \<not> fd_canary_held d then pure_run ()
      else bind_run (ask (\<lambda>w. canaryOwnedBy (fd_service d) (fd_deployment d) (fd_canary_owner d) (fz_canaries w))) (\<lambda>owned.
        if fd_canary_owner d \<noteq> None \<and> \<not> owned then throw_run ErrUnconfirmed else change (end_canary d)))"

definition finalize :: "finish_deps \<Rightarrow> built_runtime \<Rightarrow> finish_end finish_run" where
  "finalize d rt =
     bind_run (intend_candidate d) (\<lambda>_.
     bind_run (update_own d [Building] (\<lambda>now r. r\<lparr>dep_status := Deploying, dep_finished := None\<rparr>)) (\<lambda>finalized.
     bind_run (release_canary d) (\<lambda>_.
       if \<not> finalized then cancelled_early d rt
       else bind_run (update_service d not_stopped (publish d rt)) (\<lambda>persisted.
         if \<not> persisted
         then bind_run (check_lease d) (\<lambda>_. bind_run (stop_runtime d (rn_id rt) (rn_id rt)) (\<lambda>_. pure_run Orphaned))
         else route_new d rt))))"

subsection \<open>The whole finish\<close>

text \<open>\<open>failUnsettledDeployment\<close>: a run that threw settles its row if nothing else did.\<close>

definition failUnsettledDeployment :: "finish_deps \<Rightarrow> unit finish_run" where
  "failUnsettledDeployment d =
     bind_run (update_own d [Queued, Building, Deploying] (settle_row Failed)) (\<lambda>settled.
       if \<not> settled then pure_run ()
       else bind_run (statement d (\<lambda>_ w. (own_row d w, w))) (\<lambda>row.
         if row = None then pure_run ()
         else bind_run (update_service d (\<lambda>s. sr_status s = SvcDeploying) (set_status SvcError)) (\<lambda>_. pure_run ())))"

text \<open>A lost lease leaves the rows to the recovery.\<close>

definition last_resort :: "finish_deps \<Rightarrow> finish_error \<Rightarrow> finish_end finish_run" where
  "last_resort d err =
     (if err = ErrLease then pure_run HandedOver
      else bind_run (check_lease d) (\<lambda>_.
        bind_run (catch_run (failUnsettledDeployment d) (\<lambda>_. pure_run ())) (\<lambda>_. throw_run err)))"

text \<open>What the build came to: an error (with the builder chosen and the runtime started), or a healthy runtime.\<close>

datatype build_result = BuildFailed finish_error bool "string option" | BuildHealthy built_runtime

definition finishDeployment :: "finish_deps \<Rightarrow> build_result \<Rightarrow> finish_end finish_run" where
  "finishDeployment d built =
     catch_run
       (case built of
          BuildFailed err has_builder candidate \<Rightarrow> fail_path d err has_builder candidate
        | BuildHealthy rt \<Rightarrow> finalize d rt)
       (last_resort d)"

end
