(* ===== verification/FinishFrames.thy ===== *)
theory FinishFrames
  imports DeployFinish
begin

text \<open>
  How to reason about the end of a deployment (theory DeployFinish) with the rest of the panel
  acting inside every await: invariants of the awaits (\<open>finish_env\<close>), also of the route writes
  (\<open>finish_frame\<close>), also of every row update (\<open>finish_invariant\<close>), and the rules that turn what an await does at its instant
  into what holds after it.
\<close>

subsection \<open>Frames\<close>

lemma fold_keeps: "Q v \<Longrightarrow> (\<And>v x. Q v \<Longrightarrow> x \<in> set xs \<Longrightarrow> Q (f x v)) \<Longrightarrow> Q (fold f xs v)"
  by (induction xs arbitrary: v) auto

text \<open>
  What the awaits around the row updates keep. \<open>okr\<close> restricts the replies, so also what the
  rest of the panel does in them.
\<close>

locale finish_env = run_kept "\<lambda>w. I w \<and> (\<forall>r \<in> set (fz_replies w). okr r)"
  for I :: "finish_world \<Rightarrow> bool" and okr :: "finish_reply \<Rightarrow> bool" +
  fixes d :: finish_deps
  assumes I_env: "I w \<Longrightarrow> okr r \<Longrightarrow> op \<in> set (fr_before r @ fr_after r) \<Longrightarrow> I (env_do (fd_service d) op w)"
    and I_tick: "I w \<Longrightarrow> I (w\<lparr>fz_replies := rs, fz_now := t\<rparr>)"
begin

abbreviation J :: "finish_world \<Rightarrow> bool" where
  "J \<equiv> \<lambda>w. I w \<and> (\<forall>r \<in> set (fz_replies w). okr r)"

lemma env_replies: "fz_replies (env_do sid op w) = fz_replies w"
  by (cases op) (auto simp: Let_def)

lemma J_env: "J w \<Longrightarrow> okr r \<Longrightarrow> set ops \<subseteq> set (fr_before r @ fr_after r) \<Longrightarrow> J (fold (env_do (fd_service d)) ops w)"
proof (induction ops arbitrary: w)
  case (Cons op ops)
  then have "J (env_do (fd_service d) op w)" using I_env by (simp add: env_replies)
  then show ?case using Cons by simp
qed simp

lemma stable_await:
  assumes "\<And>r w. okr r \<Longrightarrow> J w \<Longrightarrow> J (snd (f r w))"
  shows "stable (await_do d f)"
  unfolding stable_def
proof (intro allI impI)
  fix w
  assume w: "J w"
  show "J (snd (await_do d f w))"
  proof (cases "fz_replies w")
    case (Cons r rs)
    define w1 where "w1 = fold (env_do (fd_service d)) (fr_before r) (w\<lparr>fz_replies := rs, fz_now := fr_now r\<rparr>)"
    have okr: "okr r" using w Cons by simp
    have "J (w\<lparr>fz_replies := rs, fz_now := fr_now r\<rparr>)" using w Cons I_tick by simp
    then have "J w1" unfolding w1_def by (rule J_env [OF _ okr]) simp
    then have "J (snd (f r w1))" using assms okr by blast
    then have "J (fold (env_do (fd_service d)) (fr_after r) (snd (f r w1)))" by (rule J_env [OF _ okr]) simp
    then show ?thesis by (cases "f r w1") (simp add: await_do_def Cons w1_def [symmetric])
  qed (use w in \<open>simp add: await_do_def\<close>)
qed

lemma stable_statement:
  assumes "\<And>c w. J w \<Longrightarrow> J (snd (f c w))"
  shows "stable (statement d f)"
  unfolding statement_def
proof (rule stable_await)
  fix r w
  assume "J w"
  then show "J (snd (if fr_db_fails r then (Inl ErrOther, w)
      else case f (fd_leased d \<longrightarrow> fr_fence r) w of (a, w') \<Rightarrow> (Inr a, w')))"
    using assms [of w "fd_leased d \<longrightarrow> fr_fence r"] by (auto split: prod.split)
qed

text \<open>What an await establishes at its instant holds of the world it returns, if the rest of the panel keeps it.\<close>

lemma triple_await:
  assumes "\<And>r w. okr r \<Longrightarrow> J w \<Longrightarrow> (case f r w of (Inr a, w') \<Rightarrow> Q a w' | (Inl e, w') \<Rightarrow> E e w')"
    and "\<And>a w r op. Q a w \<Longrightarrow> okr r \<Longrightarrow> op \<in> set (fr_before r @ fr_after r) \<Longrightarrow> Q a (env_do (fd_service d) op w)"
    and "\<And>e w r op. E e w \<Longrightarrow> okr r \<Longrightarrow> op \<in> set (fr_before r @ fr_after r) \<Longrightarrow> E e (env_do (fd_service d) op w)"
  shows "triple J (await_do d f) Q E"
proof (rule tripleI)
  fix w
  assume w: "J w"
  show "case await_do d f w of (None, w') \<Rightarrow> True | (Some (Inr a), w') \<Rightarrow> Q a w' | (Some (Inl e), w') \<Rightarrow> E e w'"
  proof (cases "fz_replies w")
    case (Cons r rs)
    define w1 where "w1 = fold (env_do (fd_service d)) (fr_before r) (w\<lparr>fz_replies := rs, fz_now := fr_now r\<rparr>)"
    have okr: "okr r" using w Cons by simp
    have "J (w\<lparr>fz_replies := rs, fz_now := fr_now r\<rparr>)" using w Cons I_tick by simp
    then have w1: "J w1" unfolding w1_def by (rule J_env [OF _ okr]) simp
    obtain res w2 where f: "f r w1 = (res, w2)" by (cases "f r w1")
    note post = assms(1) [OF okr w1, unfolded f]
    show ?thesis
    proof (cases res)
      case (Inl e)
      have "E e (fold (env_do (fd_service d)) (fr_after r) w2)"
        by (rule fold_keeps [where Q = "E e"]) (use post Inl assms(3) okr in auto)
      then show ?thesis by (simp add: await_do_def Cons w1_def [symmetric] f Inl)
    next
      case (Inr a)
      have "Q a (fold (env_do (fd_service d)) (fr_after r) w2)"
        by (rule fold_keeps [where Q = "Q a"]) (use post Inr assms(2) okr in auto)
      then show ?thesis by (simp add: await_do_def Cons w1_def [symmetric] f Inr)
    qed
  qed (simp add: await_do_def)
qed

lemma triple_statement:
  assumes "\<And>r w. okr r \<Longrightarrow> J w \<Longrightarrow> \<not> fr_db_fails r \<Longrightarrow>
      (case f (fd_leased d \<longrightarrow> fr_fence r) w of (a, w') \<Rightarrow> Q a w')"
    and "\<And>r w. okr r \<Longrightarrow> J w \<Longrightarrow> fr_db_fails r \<Longrightarrow> E ErrOther w"
    and "\<And>a w r op. Q a w \<Longrightarrow> okr r \<Longrightarrow> op \<in> set (fr_before r @ fr_after r) \<Longrightarrow> Q a (env_do (fd_service d) op w)"
    and "\<And>e w r op. E e w \<Longrightarrow> okr r \<Longrightarrow> op \<in> set (fr_before r @ fr_after r) \<Longrightarrow> E e (env_do (fd_service d) op w)"
  shows "triple J (statement d f) Q E"
  unfolding statement_def
proof (rule triple_await)
  fix r w
  assume "okr r" "J w"
  then show "case if fr_db_fails r then (Inl ErrOther, w) else case f (fd_leased d \<longrightarrow> fr_fence r) w of (a, w') \<Rightarrow> (Inr a, w')
      of (Inr a, w') \<Rightarrow> Q a w' | (Inl e, w') \<Rightarrow> E e w'"
    using assms(1,2) [of r w] by (auto split: prod.splits)
qed (use assms(3,4) in blast)+

lemma await_waits: "await_do d f w = (None, w') \<Longrightarrow> w' = w"
  by (auto simp: await_do_def split: list.splits prod.splits)

lemma safely_awaited:
  assumes "triple J (await_do d f) Q E" and "\<And>w. I w \<Longrightarrow> N w" and "\<And>a w. Q a w \<Longrightarrow> N w" and "\<And>e w. E e w \<Longrightarrow> N w"
  shows "safely N J (await_do d f) Q E"
proof (rule safelyI [OF assms(1)])
  fix w
  assume w: "J w"
  show "N (snd (await_do d f w))"
  proof (cases "fst (await_do d f w)")
    case None
    then have "await_do d f w = (None, snd (await_do d f w))" by (metis surjective_pairing)
    then show ?thesis using await_waits [of f w "snd (await_do d f w)"] assms(2) w by metis
  next
    case (Some res)
    then have run: "await_do d f w = (Some res, snd (await_do d f w))" by (metis surjective_pairing)
    show ?thesis
    proof (cases res)
      case (Inl e)
      show ?thesis by (rule assms(4) [OF triple_throws [OF assms(1) w run [unfolded Inl]]])
    next
      case (Inr a)
      show ?thesis by (rule assms(3) [OF triple_returns [OF assms(1) w run [unfolded Inr]]])
    qed
  qed
qed

text \<open>An update of the service row that reports a change has made it; one that does not has changed nothing.\<close>

lemma safely_update_service:
  assumes "\<And>w s. I w \<Longrightarrow> fz_service w = Some s \<Longrightarrow> Ps s \<Longrightarrow> R (w\<lparr>fz_service := Some (h s)\<rparr>)"
    and "\<And>w r op. R w \<Longrightarrow> okr r \<Longrightarrow> op \<in> set (fr_before r @ fr_after r) \<Longrightarrow> R (env_do (fd_service d) op w)"
    and "\<And>w. I w \<Longrightarrow> N w" and "\<And>w. R w \<Longrightarrow> N w"
  shows "safely N J (update_service d Ps h) (\<lambda>a w. if a then R w \<and> (\<forall>r \<in> set (fz_replies w). okr r) else J w) (\<lambda>_. J)"
  unfolding update_service_def statement_def
proof (rule safely_awaited [OF triple_await], goal_cases)
  case (1 r w)
  then show ?case using assms(1) [of w] by (auto simp: change_service_def split: option.split)
next
  case (2 a w r op)
  then show ?case using assms(2) [of w r op] I_env [of w r op] env_replies by (auto split: if_splits)
next
  case (3 e w r op)
  then show ?case using I_env env_replies by simp
qed (use assms(3,4) in \<open>auto split: if_splits\<close>)

lemma stable_reads:
  "stable (isCancelled d)" "stable (check_lease d)" "stable (lease_current d)" "stable (ask_builder d)" "stable (pause_run d)"
  unfolding isCancelled_def check_lease_def lease_current_def ask_builder_def pause_run_def
  by (auto intro!: stable_statement stable_await)

end

text \<open>Also kept by a route write, confirmed or not.\<close>

locale finish_frame = finish_env I okr d
  for I :: "finish_world \<Rightarrow> bool" and okr :: "finish_reply \<Rightarrow> bool" and d :: finish_deps +
  assumes I_write: "I w \<Longrightarrow> I (w\<lparr>fz_loaded := rendered_to (fd_service d) w\<rparr>)"
      "I w \<Longrightarrow> I (w\<lparr>fz_loaded := rendered_to (fd_service d) w @ fz_loaded w\<rparr>)"
    and I_confirmed: "I w \<Longrightarrow> I (w\<lparr>fz_confirmed := Some s\<rparr>)"
begin

lemma stable_write_config: "stable (write_config d)"
  unfolding write_config_def by (rule stable_await) (auto intro: I_write split: answer.split)

lemma stable_confirm: "stable (lease_confirm d)"
  unfolding lease_confirm_def
  by (intro stable_bind stable_reads stable_write_config stable_if stable_pure stable_change) (auto intro: I_confirmed)

lemma stable_flip: "stable (flip_routing d)"
  unfolding flip_routing_def by (intro stable_if stable_confirm stable_write_config)

lemma stable_stop:
  assumes "\<And>w. I w \<Longrightarrow> I (w\<lparr>fz_stopped := fz_stopped w @ [(rt, rt \<in> set (fz_loaded w))]\<rparr>)"
  shows "stable (stop_runtime d c rt)"
proof -
  have "stable (stop_effect d rt)"
    unfolding stop_effect_def by (rule stable_await) (use assms in auto)
  then show ?thesis
    unfolding stop_runtime_def by (auto intro!: stable_catch stable_bind stable_reads)
qed

end

text \<open>
  With the row updates: a service row that is not stopped may be rewritten, and the deployment's
  own row only while it is queued or in progress.
\<close>

locale finish_invariant = finish_frame I okr d
  for I :: "finish_world \<Rightarrow> bool" and okr :: "finish_reply \<Rightarrow> bool" and d :: finish_deps +
  assumes I_stopped: "I w \<Longrightarrow> I (w\<lparr>fz_stopped := l\<rparr>)"
    and I_touched: "I w \<Longrightarrow> I (w\<lparr>fz_touched := True, fz_confirmed := None\<rparr>)"
    and I_canary: "I w \<Longrightarrow> I (end_canary d w)"
    and I_service: "I w \<Longrightarrow> (\<And>s. Ps s \<Longrightarrow> not_stopped s) \<Longrightarrow> I (snd (change_service Ps f w))"
    and I_own: "I w \<Longrightarrow> (\<And>r. P r \<Longrightarrow> dep_id r = fd_deployment d \<and> dep_status r \<in> {Queued, Building, Deploying})
      \<Longrightarrow> (\<And>t r. dep_id (g t r) = dep_id r) \<Longrightarrow> I (snd (change_rows P g w))"
    and I_supersede: "I w \<Longrightarrow> I (snd (change_rows (\<lambda>r. dep_service r = fd_service d \<and> dep_status r = Running
      \<and> dep_id r \<noteq> fd_deployment d \<and> c) (\<lambda>now r. r\<lparr>dep_status := Superseded\<rparr>) w))"
begin

lemma changed_replies: "fz_replies (snd (change_rows P f w)) = fz_replies w"
  "fz_replies (snd (change_service Ps g w)) = fz_replies w"
  by (auto simp: change_rows_def change_service_def split: option.split)

lemma stable_update_own: "set from \<subseteq> {Queued, Building, Deploying} \<Longrightarrow> (\<And>t r. dep_id (g t r) = dep_id r) \<Longrightarrow>
    stable (update_own d from g)"
  unfolding update_own_def by (rule stable_statement) (auto simp: changed_replies intro!: I_own)

lemma stable_update_service: "(\<And>s. P s \<Longrightarrow> not_stopped s) \<Longrightarrow> stable (update_service d P g)"
  unfolding update_service_def by (rule stable_statement) (auto simp: changed_replies intro!: I_service)

lemma serving_not_stopped [simp]: "serving rt s \<Longrightarrow> not_stopped s"
  by (simp add: serving_def not_stopped_def)

lemma settle_id [simp]: "dep_id (settle_row st t r) = dep_id r"
  by (simp add: settle_row_def)

lemma stable_stops: "stable (stop_runtime d c rt)"
  by (rule stable_stop) (rule I_stopped)

lemmas stable_parts = stable_bind stable_catch stable_reads stable_write_config stable_flip stable_stops
  stable_update_own stable_update_service

lemma stable_fail_path: "stable (fail_path d err hb cand)"
proof -
  have retain: "stable (retain_candidate d err)"
    unfolding retain_candidate_def Let_def
    by (auto intro!: stable_parts stable_change I_canary simp: end_canary_def split: prod.split)
  have serves: "stable (previous_serves d hb cand r)" for r
    unfolding previous_serves_def by (auto intro!: stable_parts split: option.split)
  have recorded: "stable (record_failure d c r)" for c r
    unfolding record_failure_def safeFail_def by (auto intro!: stable_parts)
  show ?thesis
    unfolding fail_path_def was_cancelled_def
    by (auto intro!: stable_parts retain serves recorded split: option.split)
qed

lemma stable_cancelled_early: "stable (cancelled_early d rt)"
  unfolding cancelled_early_def by (auto intro!: stable_parts split: option.split)

lemma stable_routing_failed: "stable (routing_failed d rt e1 e2)"
  unfolding routing_failed_def revert_routing_def by (auto intro!: stable_parts split: option.split)

lemma stable_cancelled_late: "stable (cancelled_late d rt)"
  unfolding cancelled_late_def by (auto intro!: stable_parts split: option.split)

lemma stable_promote: "stable (promote d rt)"
  unfolding promote_def by (rule stable_statement) (auto simp: changed_replies intro!: I_own)

lemma stable_go_live: "stable (go_live d rt)"
proof -
  have "stable (supersede d)"
    unfolding supersede_def by (rule stable_statement) (auto simp: changed_replies intro!: I_supersede)
  then show ?thesis
    unfolding go_live_def by (auto intro!: stable_parts split: option.split)
qed

lemma stable_route_new: "stable (route_new d rt)"
  unfolding route_new_def promote_or_cancel_def
  using stable_routing_failed stable_cancelled_late stable_promote stable_go_live
  by (auto intro!: stable_parts split: option.split prod.split)

lemma stable_finalize: "stable (finalize d rt)"
proof -
  have "stable (intend_candidate d)"
    unfolding intend_candidate_def by (auto intro!: stable_parts stable_change I_touched)
  moreover have "stable (release_canary d)"
    unfolding release_canary_def by (auto intro!: stable_parts stable_change I_canary simp: end_canary_def)
  ultimately show ?thesis
    unfolding finalize_def using stable_cancelled_early stable_route_new
    by (auto intro!: stable_parts)
qed

lemma stable_last_resort: "stable (last_resort d err)"
proof -
  have "stable (statement d (\<lambda>_ w. (own_row d w, w)))" by (rule stable_statement) simp
  then show ?thesis
    unfolding last_resort_def failUnsettledDeployment_def
    by (auto intro!: stable_parts simp: not_stopped_def)
qed

lemma finish_keeps: "J w \<Longrightarrow> J (snd (finishDeployment d b w))"
proof -
  have "stable (finishDeployment d b)"
    unfolding finishDeployment_def
    by (auto intro!: stable_catch stable_fail_path stable_finalize stable_last_resort split: build_result.split)
  then show "J w \<Longrightarrow> ?thesis" by (simp add: stable_def)
qed

end

end
