(* ===== verification/FinishSafety.thy ===== *)
theory FinishSafety
  imports FinishProperties
begin

text \<open>
  The end of a deployment never stops a runtime the proxy may still send traffic to (theory
  DeployFinish): the arguments that \<open>retain\<close>, \<open>canRetire\<close> and the recovery lease make, with the
  rest of the panel writing routes and rows inside every await.
\<close>

subsection \<open>What holds around the stops\<close>

text \<open>Every runtime stopped so far was out of use.\<close>

definition clean :: "finish_world \<Rightarrow> bool" where
  "clean w \<longleftrightarrow> (\<forall>(rt, used) \<in> set (fz_stopped w). \<not> used)"

text \<open>The service row names no runtime of \<open>R\<close>.\<close>

definition unnamed :: "string set \<Rightarrow> finish_world \<Rightarrow> bool" where
  "unnamed R w \<longleftrightarrow> (\<forall>s rt. fz_service w = Some s \<and> sr_runtime s = Some rt \<longrightarrow> rt \<notin> R)"

text \<open>No canary holds a share, and the service row names no runtime of \<open>R\<close>: a configuration rendered now leaves \<open>R\<close> out.\<close>

definition apart :: "finish_deps \<Rightarrow> string set \<Rightarrow> finish_world \<Rightarrow> bool" where
  "apart d R w \<longleftrightarrow> clean w \<and> canary_of (fz_canaries w) (fd_service d) = None \<and> unnamed R w"

text \<open>Nor may the proxy still use one.\<close>

definition off :: "finish_deps \<Rightarrow> string set \<Rightarrow> finish_world \<Rightarrow> bool" where
  "off d R w \<longleftrightarrow> apart d R w \<and> set (fz_loaded w) \<inter> R = {}"

text \<open>A lease that has announced the new routing and confirmed none of it retires nothing.\<close>

definition unconfirmed :: "finish_deps \<Rightarrow> finish_world \<Rightarrow> bool" where
  "unconfirmed d w \<longleftrightarrow> (fd_leased d \<longrightarrow> fz_touched w \<and> fz_confirmed w = None)"

text \<open>
  The new runtime \<open>c\<close> is published and its routing not confirmed yet; \<open>u\<close>: no route write was left
  without an acknowledgement.
\<close>

definition pending :: "finish_deps \<Rightarrow> string set \<Rightarrow> string \<Rightarrow> bool \<Rightarrow> finish_world \<Rightarrow> bool" where
  "pending d R c u w \<longleftrightarrow> apart d R w \<and> unconfirmed d w \<and> (u \<and> \<not> fd_leased d \<longrightarrow> c \<notin> set (fz_loaded w))"

text \<open>
  Nobody else begins or ends a canary of the service (a service has one active deployment), and
  without a lease nobody else writes the routes while the run is between its route writes.
\<close>

definition steady :: "finish_deps \<Rightarrow> finish_reply \<Rightarrow> bool" where
  "steady d r \<longleftrightarrow> (\<forall>op \<in> set (fr_before r @ fr_after r).
     (case op of
        EnvCanary (PanelBegin sid slug dep steps m e p) \<Rightarrow> sid \<noteq> fd_service d
      | EnvCanary (PanelEnd sid dep owner) \<Rightarrow> sid \<noteq> fd_service d
      | EnvRender \<Rightarrow> fd_leased d
      | _ \<Rightarrow> True))"

text \<open>The canary of the service, if any, is this deployment's.\<close>

definition owned :: "finish_deps \<Rightarrow> finish_world \<Rightarrow> bool" where
  "owned d w \<longleftrightarrow> (\<forall>c. canary_of (fz_canaries w) (fd_service d) = Some c \<longrightarrow>
     ca_deployment c = fd_deployment d \<and> (fd_canary_owner d = None \<or> fd_canary_owner d = Some (ca_owner c)))"

subsection \<open>What the panel keeps\<close>

lemma change_of: "canary_of (change_canary i f r) sid =
    (if i = sid then map_option f (canary_of r sid) else canary_of r sid)"
  by (auto simp: change_canary_def canary_of_def split: option.split)

lemma end_of: "canary_of (endCanary i dep owner r) sid = canary_of r sid" if "i \<noteq> sid"
  using that by (auto simp: endCanary_def canary_of_def delete_conv split: option.split)

lemma begin_of: "beginCanary i slug dep steps m e p r = Inr (n, r') \<Longrightarrow> i \<noteq> sid \<Longrightarrow> canary_of r' sid = canary_of r sid"
  using end_of [of i sid None None r] by (auto simp: beginCanary_def canary_of_def Let_def split: if_splits)

lemma steady_canary:
  assumes "steady d r" and "EnvCanary op \<in> set (fr_before r @ fr_after r)"
  shows "map_option (\<lambda>c. (ca_deployment c, ca_owner c)) (canary_of (panel_do op reg) (fd_service d)) =
    map_option (\<lambda>c. (ca_deployment c, ca_owner c)) (canary_of reg (fd_service d))"
proof -
  have kept: "case op of PanelBegin sid slug dep steps m e p \<Rightarrow> sid \<noteq> fd_service d | PanelEnd sid dep owner \<Rightarrow> sid \<noteq> fd_service d | _ \<Rightarrow> True"
    using assms by (auto simp: steady_def split: panel_op.split dest!: bspec [of _ _ "EnvCanary op"])
  show ?thesis
  proof (cases op)
    case (PanelBegin sid slug dep steps m e p)
    then show ?thesis
      using kept begin_of [of sid slug dep steps m e p reg] by (auto split: sum.split prod.split)
  next
    case (PanelEnd sid dep owner)
    then show ?thesis using kept end_of by simp
  next
    case (PanelHit name status duration start)
    then show ?thesis
      by (auto simp: recordCanaryHit_def change_of option.map_comp comp_def intro!: map_option_cong split: option.split prod.split)
  qed (auto simp: setCanaryStep_def requestCanaryPromote_def change_of option.map_comp comp_def split: option.split)
qed

lemma no_canary_env:
  assumes "steady d r" and "op \<in> set (fr_before r @ fr_after r)"
  shows "canary_of (fz_canaries (env_do sid op w)) (fd_service d) = None
    \<longleftrightarrow> canary_of (fz_canaries w) (fd_service d) = None"
proof (cases op)
  case (EnvCanary p)
  then show ?thesis using steady_canary [of d r p "fz_canaries w"] assms by (auto simp: map_option_is_None dest: arg_cong [where f = "\<lambda>x. x = None"])
qed simp_all

lemma owned_env:
  assumes "steady d r" and "op \<in> set (fr_before r @ fr_after r)" and "owned d w"
  shows "owned d (env_do sid op w)"
proof (cases op)
  case (EnvCanary p)
  show ?thesis
    unfolding owned_def
  proof (intro allI impI)
    fix c
    assume "canary_of (fz_canaries (env_do sid op w)) (fd_service d) = Some c"
    moreover have "EnvCanary p \<in> set (fr_before r @ fr_after r)" using assms(2) EnvCanary by simp
    note steady_canary [OF assms(1) this, of "fz_canaries w"]
    ultimately have "map_option (\<lambda>c. (ca_deployment c, ca_owner c)) (canary_of (fz_canaries w) (fd_service d)) = Some (ca_deployment c, ca_owner c)"
      by (simp add: EnvCanary)
    then show "ca_deployment c = fd_deployment d \<and> (fd_canary_owner d = None \<or> fd_canary_owner d = Some (ca_owner c))"
      using assms(3) by (auto simp: owned_def)
  qed
qed (use assms in \<open>simp_all add: owned_def\<close>)

lemma runtime_same:
  "fz_service (env_do sid op w) = Some s \<Longrightarrow> \<exists>s'. fz_service w = Some s' \<and> sr_runtime s' = sr_runtime s"
  by (cases op) (auto split: if_splits)

lemma stopped_same [simp]: "fz_stopped (env_do sid op w) = fz_stopped w" "clean (env_do sid op w) = clean w"
  by (cases op; simp add: clean_def)+

lemma unnamed_env: "unnamed R w \<Longrightarrow> unnamed R (env_do sid op w)"
  unfolding unnamed_def using runtime_same by metis

lemma unnamed_rendered:
  assumes "unnamed R w" and "canary_of (fz_canaries w) sid = None"
  shows "set (rendered_to sid w) \<inter> R = {}"
proof (cases "fz_service w")
  case (Some s)
  then have "set_option (sr_runtime s) \<inter> R = {}" using assms(1) by (cases "sr_runtime s") (auto simp: unnamed_def)
  then show ?thesis using Some assms(2) by (cases "sr_runtime s") (simp_all add: rendered_to_def canaryRouteFor_def)
qed (simp add: rendered_to_def canaryRouteFor_def assms(2))

lemma rendered_apart: "apart d R w \<Longrightarrow> set (rendered_to (fd_service d) w) \<inter> R = {}"
  by (simp add: apart_def unnamed_rendered)

lemma loaded_env:
  "op \<noteq> EnvRender \<Longrightarrow> fz_loaded (env_do sid op w) = fz_loaded w"
  "fz_touched (env_do sid op w) = fz_touched w" "fz_confirmed (env_do sid op w) = fz_confirmed w"
  by (cases op; simp)+

lemma clean_same [simp]:
  "clean (w\<lparr>fz_replies := rs\<rparr>) = clean w" "clean (w\<lparr>fz_now := t\<rparr>) = clean w" "clean (w\<lparr>fz_loaded := l\<rparr>) = clean w"
  "clean (w\<lparr>fz_confirmed := c\<rparr>) = clean w" "clean (w\<lparr>fz_touched := b\<rparr>) = clean w"
  by (simp_all add: clean_def)

lemma unnamed_same [simp]:
  "unnamed R (w\<lparr>fz_replies := rs\<rparr>) = unnamed R w" "unnamed R (w\<lparr>fz_now := t\<rparr>) = unnamed R w"
  "unnamed R (w\<lparr>fz_loaded := l\<rparr>) = unnamed R w" "unnamed R (w\<lparr>fz_confirmed := c\<rparr>) = unnamed R w"
  "unnamed R (w\<lparr>fz_touched := b\<rparr>) = unnamed R w" "unnamed R (w\<lparr>fz_stopped := l'\<rparr>) = unnamed R w"
  by (simp_all add: unnamed_def)

lemma apart_same [simp]:
  "apart d R (w\<lparr>fz_replies := rs\<rparr>) = apart d R w" "apart d R (w\<lparr>fz_now := t\<rparr>) = apart d R w"
  "apart d R (w\<lparr>fz_loaded := l\<rparr>) = apart d R w" "apart d R (w\<lparr>fz_confirmed := c\<rparr>) = apart d R w"
  "apart d R (w\<lparr>fz_touched := b\<rparr>) = apart d R w"
  by (simp_all add: apart_def)

lemma apart_env:
  assumes "apart d R w" and "steady d r" and "op \<in> set (fr_before r @ fr_after r)"
  shows "apart d R (env_do sid op w)"
  using assms no_canary_env [OF assms(2,3)] by (simp add: apart_def unnamed_env)



subsection \<open>Frames of the phases\<close>






lemma clean_of [dest]:
  "apart d R w \<Longrightarrow> clean w" "off d R w \<Longrightarrow> clean w" "pending d R c u w \<Longrightarrow> clean w"
  by (simp_all add: apart_def off_def pending_def)

subsection \<open>Route writes\<close>

lemma rendered_same [simp]: "rendered_to sid (w\<lparr>fz_loaded := l\<rparr>) = rendered_to sid w"
  by (simp add: rendered_to_def)








lemma pending_leased: "fd_leased d \<Longrightarrow> pending d R c u w = pending d R c v w"
  by (simp add: pending_def)



subsection \<open>Stops\<close>




subsection \<open>The failure path\<close>









lemma end_canary_same [simp]: "clean (end_canary d w) = clean w" "unnamed R (end_canary d w) = unnamed R w"
  "fz_replies (end_canary d w) = fz_replies w" "fz_loaded (end_canary d w) = fz_loaded w"
  "fz_touched (end_canary d w) = fz_touched w" "fz_confirmed (end_canary d w) = fz_confirmed w"
  "fz_canaries (end_canary d w) = endCanary (fd_service d) (Some (fd_deployment d)) (fd_canary_owner d) (fz_canaries w)"
  by (simp_all add: end_canary_def clean_def unnamed_def)







subsection \<open>The routing transition\<close>


lemma rows_same [simp]:
  "clean (w\<lparr>fz_deps := l\<rparr>) = clean w" "unnamed R (w\<lparr>fz_deps := l\<rparr>) = unnamed R w" "clean (w\<lparr>fz_service := sv\<rparr>) = clean w"
  by (simp_all add: clean_def unnamed_def)












subsection \<open>From the build to the routes\<close>

text \<open>A healthy build: the new runtime \<open>c\<close> is only in a route if its canary is held.\<close>

definition built :: "finish_deps \<Rightarrow> string \<Rightarrow> finish_world \<Rightarrow> bool" where
  "built d c w \<longleftrightarrow> clean w \<and> unnamed {c} w \<and> owned d w
     \<and> (\<not> fd_canary_held d \<longrightarrow> canary_of (fz_canaries w) (fd_service d) = None \<and> c \<notin> set (fz_loaded w))"

text \<open>Its canary has ended.\<close>

definition released :: "finish_deps \<Rightarrow> string \<Rightarrow> finish_world \<Rightarrow> bool" where
  "released d c w \<longleftrightarrow> apart d {c} w \<and> unconfirmed d w \<and> (\<not> fd_canary_held d \<longrightarrow> c \<notin> set (fz_loaded w))"

lemma owned_same [simp]:
  "owned d (w\<lparr>fz_replies := rs\<rparr>) = owned d w" "owned d (w\<lparr>fz_now := t\<rparr>) = owned d w" "owned d (w\<lparr>fz_loaded := l\<rparr>) = owned d w"
  "owned d (w\<lparr>fz_touched := b\<rparr>) = owned d w" "owned d (w\<lparr>fz_confirmed := cf\<rparr>) = owned d w" "owned d (w\<lparr>fz_deps := ds\<rparr>) = owned d w"
  by (simp_all add: owned_def)

lemma built_env:
  assumes "built d c w" and "steady d r" and "op \<in> set (fr_before r @ fr_after r)"
  shows "built d c (env_do (fd_service d) op w)"
proof -
  have "c \<notin> set (fz_loaded (env_do (fd_service d) op w))" if "\<not> fd_canary_held d"
    using assms(1) that unnamed_rendered [of "{c}" w "fd_service d"]
    by (cases "op = EnvRender") (auto simp: built_def loaded_env)
  then show ?thesis
    using assms(1) no_canary_env [OF assms(2,3), of "fd_service d" w] owned_env [OF assms(2,3)] unnamed_env
    by (simp add: built_def)
qed

interpretation built: finish_env "built d c" "steady d" d for d c
  by (unfold_locales, rule built_env) (simp_all add: built_def)


lemma released_env:
  assumes "released d c w" and "steady d r" and "op \<in> set (fr_before r @ fr_after r)"
  shows "released d c (env_do (fd_service d) op w)"
proof -
  have "c \<notin> set (fz_loaded (env_do (fd_service d) op w))" if "\<not> fd_canary_held d"
    using assms(1) that rendered_apart [of d "{c}" w]
    by (cases "op = EnvRender") (auto simp: released_def loaded_env)
  then show ?thesis
    using assms(1) apart_env [OF _ assms(2,3)] by (simp add: released_def unconfirmed_def loaded_env)
qed

interpretation released: finish_env "released d c" "steady d" d for d c
  by (unfold_locales, rule released_env) (simp_all add: released_def unconfirmed_def)









end
