(* ===== verification/NetAddress.thy ===== *)
theory NetAddress
  imports Slug
begin

unbundle bit_operations_syntax

text \<open>
  IP address literals as \<open>node:net\<close> accepts them (\<open>isIP\<close>) and the text primitives both address
  parsers of the server build on (\<open>lib/egressGuard.ts\<close>, \<open>lib/ipAllowlist.ts\<close>): \<open>split\<close>, \<open>Number\<close>,
  \<open>parseInt(s, 16)\<close>, \<open>toString(16)\<close>. Numbers are the JavaScript numbers of the code, all below
  2^16, where its 32 bit operators are those on \<open>nat\<close>.
\<close>

subsection \<open>Digits and numbers\<close>

definition dec_char :: "char \<Rightarrow> bool" where
  "dec_char c \<longleftrightarrow> 48 \<le> (of_char c :: nat) \<and> (of_char c :: nat) \<le> 57"

definition dec_nat :: "string \<Rightarrow> nat" where
  "dec_nat = foldl (\<lambda>n c. 10 * n + (of_char c - 48)) 0"

text \<open>The classes \<open>[0-9a-f]\<close> and \<open>[0-9a-fA-F]\<close>.\<close>

definition hex_lower :: "char \<Rightarrow> bool" where
  "hex_lower c \<longleftrightarrow> dec_char c \<or> 97 \<le> (of_char c :: nat) \<and> (of_char c :: nat) \<le> 102"

definition hex_char :: "char \<Rightarrow> bool" where
  "hex_char c \<longleftrightarrow> hex_lower c \<or> 65 \<le> (of_char c :: nat) \<and> (of_char c :: nat) \<le> 70"

definition hex_val :: "char \<Rightarrow> nat" where
  "hex_val c = (let k = of_char c in if k \<le> 57 then k - 48 else if k \<le> 70 then k - 55 else k - 87)"

definition hex_nat :: "string \<Rightarrow> nat" where
  "hex_nat = foldl (\<lambda>n c. 16 * n + hex_val c) 0"

text \<open>\<open>toString(16)\<close>.\<close>

definition hex_digit :: "nat \<Rightarrow> char" where
  "hex_digit n = char_of (if n < 10 then 48 + n else 87 + n)"

fun hex_text :: "nat \<Rightarrow> string" where
  "hex_text n = (if n < 16 then [hex_digit n] else hex_text (n div 16) @ [hex_digit (n mod 16)])"

declare hex_text.simps [simp del]

subsection \<open>Splitting\<close>

abbreviation dot :: char where "dot \<equiv> CHR 0x2E"

abbreviation colon :: char where "colon \<equiv> CHR 0x3A"

abbreviation split_dots :: "string \<Rightarrow> string list" where
  "split_dots \<equiv> split_on (\<lambda>c. c = dot)"

abbreviation split_colons :: "string \<Rightarrow> string list" where
  "split_colons \<equiv> split_on (\<lambda>c. c = colon)"

text \<open>\<open>split('::')\<close>.\<close>

fun halves :: "string \<Rightarrow> string list" where
  "halves [] = [[]]"
| "halves [c] = [[c]]"
| "halves (c # d # cs) =
     (if c = colon \<and> d = colon then [] # halves cs
      else (case halves (d # cs) of [] \<Rightarrow> [[c]] | w # ws \<Rightarrow> (c # w) # ws))"

text \<open>The part before the zone, \<open>split('%')[0]\<close>.\<close>

definition before_zone :: "string \<Rightarrow> string" where
  "before_zone s = takeWhile (\<lambda>c. c \<noteq> CHR 0x25) s"

subsection \<open>isIP\<close>

text \<open>A decimal octet without leading zeros.\<close>

definition v4_seg :: "string \<Rightarrow> bool" where
  "v4_seg s \<longleftrightarrow> list_all dec_char s \<and> s \<noteq> [] \<and> length s \<le> 3 \<and> (length s > 1 \<longrightarrow> hd s \<noteq> CHR ''0'') \<and> dec_nat s \<le> 255"

definition is_v4 :: "string \<Rightarrow> bool" where
  "is_v4 s \<longleftrightarrow> (let p = split_dots s in length p = 4 \<and> list_all v4_seg p)"

definition v6_seg :: "string \<Rightarrow> bool" where
  "v6_seg s \<longleftrightarrow> list_all hex_char s \<and> s \<noteq> [] \<and> length s \<le> 4"

text \<open>How many groups a run of segments stands for: a last dotted quad counts as two.\<close>

definition v6_count :: "string list \<Rightarrow> nat option" where
  "v6_count segs =
     (if segs = [] then Some 0
      else if list_all v6_seg segs then Some (length segs)
      else if list_all v6_seg (butlast segs) \<and> is_v4 (last segs) then Some (length segs + 1)
      else None)"

definition segments :: "string \<Rightarrow> string list" where
  "segments s = (if s = [] then [] else split_colons s)"

definition v6_body :: "string \<Rightarrow> bool" where
  "v6_body s =
     (case halves s of
        [all] \<Rightarrow> v6_count (segments all) = Some 8
      | [left, right] \<Rightarrow> list_all v6_seg (segments left)
          \<and> (case v6_count (segments right) of None \<Rightarrow> False | Some n \<Rightarrow> length (segments left) + n \<le> 7)
      | _ \<Rightarrow> False)"

definition zone_char :: "char \<Rightarrow> bool" where
  "zone_char c \<longleftrightarrow> dec_char c \<or> c = CHR ''-'' \<or> c = dot \<or> c = colon
     \<or> 97 \<le> (of_char c :: nat) \<and> (of_char c :: nat) \<le> 122 \<or> 65 \<le> (of_char c :: nat) \<and> (of_char c :: nat) \<le> 90"

definition is_v6 :: "string \<Rightarrow> bool" where
  "is_v6 s \<longleftrightarrow> v6_body (before_zone s)
     \<and> (before_zone s = s \<or>
        (let zone = drop (Suc (length (before_zone s))) s in zone \<noteq> [] \<and> list_all zone_char zone))"

definition net_isIP :: "string \<Rightarrow> nat" where
  "net_isIP s = (if is_v4 s then 4 else if is_v6 s then 6 else 0)"

subsection \<open>Texts of numbers\<close>

lemma nat_text_nonempty [simp]: "nat_text n \<noteq> []"
  by (simp add: nat_text.simps [of n])

lemma nat_text_dec: "list_all dec_char (nat_text n)"
proof (induction n rule: nat_text.induct)
  case (1 n)
  have d: "dec_char (char_of (48 + k))" if "k < 10" for k :: nat
    using that by (simp add: dec_char_def of_char_of)
  show ?case using 1 d [of n] d [of "n mod 10"] by (simp add: nat_text.simps [of n])
qed

lemma dec_nat_append: "dec_nat (s @ [c]) = 10 * dec_nat s + (of_char c - 48)"
  by (simp add: dec_nat_def)

lemma dec_nat_text [simp]: "dec_nat (nat_text n) = n"
proof (induction n rule: nat_text.induct)
  case (1 n)
  show ?case
  proof (cases "n < 10")
    case True
    then show ?thesis by (simp add: nat_text.simps [of n] dec_nat_def of_char_of)
  next
    case False
    then show ?thesis using 1 by (simp add: nat_text.simps [of n] dec_nat_append of_char_of)
  qed
qed

lemma nat_text_lead: "length (nat_text n) > 1 \<Longrightarrow> hd (nat_text n) \<noteq> CHR ''0''"
proof (induction n rule: nat_text.induct)
  case (1 n)
  have n: "\<not> n < 10" using 1(2) by (auto simp: nat_text.simps [of n])
  then have eq: "nat_text n = nat_text (n div 10) @ [char_of (48 + n mod 10)]" by (simp add: nat_text.simps [of n])
  show ?case
  proof (cases "n div 10 < 10")
    case True
    have "(char_of (48 + n div 10) :: char) \<noteq> CHR ''0''"
    proof
      assume "(char_of (48 + n div 10) :: char) = CHR ''0''"
      then have "(of_char (char_of (48 + n div 10) :: char) :: nat) = of_char (CHR ''0'')" by simp
      then show False using True n by (simp add: of_char_of)
    qed
    then show ?thesis using True by (simp add: eq nat_text.simps [of "n div 10"])
  next
    case False
    then have "length (nat_text (n div 10)) > 1"
      by (simp add: nat_text.simps [of "n div 10"])
    then show ?thesis using 1(1) [OF n] by (simp add: eq)
  qed
qed

lemma nat_text_short: "n < 1000 \<Longrightarrow> length (nat_text n) \<le> 3"
  by (simp add: nat_text.simps [of n] nat_text.simps [of "n div 10"] nat_text.simps [of "n div 10 div 10"])

lemma v4_seg_text: "n < 256 \<Longrightarrow> v4_seg (nat_text n)"
  using nat_text_dec nat_text_lead nat_text_short [of n] by (simp add: v4_seg_def)

lemma v4_seg_bound: "v4_seg s \<Longrightarrow> dec_nat s < 256"
  by (simp add: v4_seg_def)

lemma hex_digit_seg: "n < 16 \<Longrightarrow> hex_lower (hex_digit n) \<and> hex_val (hex_digit n) = n"
  by (simp add: hex_lower_def dec_char_def hex_digit_def hex_val_def of_char_of Let_def)

lemma hex_nat_append: "hex_nat (s @ [c]) = 16 * hex_nat s + hex_val c"
  by (simp add: hex_nat_def)

lemma hex_text_props: "hex_nat (hex_text n) = n \<and> list_all hex_lower (hex_text n) \<and> hex_text n \<noteq> []"
proof (induction n rule: hex_text.induct)
  case (1 n)
  show ?case
  proof (cases "n < 16")
    case True
    then show ?thesis using hex_digit_seg [of n] by (simp add: hex_text.simps [of n] hex_nat_def)
  next
    case False
    then show ?thesis
      using 1 hex_digit_seg [of "n mod 16"] by (simp add: hex_text.simps [of n] hex_nat_append)
  qed
qed

lemma hex_text_short: "n < 65536 \<Longrightarrow> length (hex_text n) \<le> 4"
  by (simp add: hex_text.simps [of n] hex_text.simps [of "n div 16"] hex_text.simps [of "n div 16 div 16"]
      hex_text.simps [of "n div 16 div 16 div 16"])

lemma hex_lower_char: "hex_lower c \<Longrightarrow> hex_char c"
  by (simp add: hex_char_def)

lemma hex_text_seg: "n < 65536 \<Longrightarrow> v6_seg (hex_text n)"
  using hex_text_props [of n] hex_text_short [of n] by (auto simp: v6_seg_def list_all_iff hex_lower_char)

lemma hex_val_bound: "hex_char c \<Longrightarrow> hex_val c < 16"
  by (auto simp: hex_char_def hex_lower_def dec_char_def hex_val_def Let_def)

lemma hex_nat_bound: "list_all hex_char s \<Longrightarrow> hex_nat s < 16 ^ length s"
proof (induction s rule: rev_induct)
  case (snoc c s)
  then show ?case using hex_val_bound [of c] by (simp add: hex_nat_append)
qed (simp add: hex_nat_def)

lemma v6_seg_bound: "v6_seg s \<Longrightarrow> hex_nat s < 65536"
proof -
  assume s: "v6_seg s"
  then have "hex_nat s < 16 ^ length s" using hex_nat_bound by (simp add: v6_seg_def)
  also have "(16 :: nat) ^ length s \<le> 16 ^ 4" using s by (intro power_increasing) (simp_all add: v6_seg_def)
  finally show ?thesis by simp
qed

subsection \<open>Splitting and joining\<close>

lemma split_on_nonempty [simp]: "split_on P s \<noteq> []"
  by (induction P s rule: split_on.induct) (auto split: list.splits)

lemma split_on_free: "list_all (\<lambda>c. \<not> P c) s \<Longrightarrow> split_on P s = [s]"
  by (induction s) auto

lemma split_on_sep: "list_all (\<lambda>c. \<not> P c) s \<Longrightarrow> P c \<Longrightarrow> split_on P (s @ c # t) = s # split_on P t"
  by (induction s) auto

lemma split_on_join:
  assumes "P c" and "\<And>w. w \<in> set ws \<Longrightarrow> list_all (\<lambda>c. \<not> P c) w" and "ws \<noteq> []"
  shows "split_on P (js_join [c] ws) = ws"
  using assms(2,3)
proof (induction "[c]" ws rule: js_join.induct)
  case (3 x y xs)
  then show ?case using split_on_sep [of P x c] assms(1) by simp
qed (simp_all add: split_on_free)

lemma split_on_pieces: "w \<in> set (split_on P s) \<Longrightarrow> list_all (\<lambda>c. \<not> P c) w"
  by (induction P s arbitrary: w rule: split_on.induct) (auto split: if_splits list.splits)

lemma join_split: "js_join [c] (split_on (\<lambda>x. x = c) s) = s"
proof (induction s)
  case (Cons a s)
  obtain w ws where w: "split_on (\<lambda>x. x = c) s = w # ws" by (cases "split_on (\<lambda>x. x = c) s") auto
  then show ?case using Cons by (cases ws) auto
qed simp

lemma dec_free: "list_all dec_char s \<Longrightarrow> \<not> dec_char c \<Longrightarrow> list_all (\<lambda>x. x \<noteq> c) s"
  by (auto simp: list_all_iff)

lemma hex_free: "list_all hex_char s \<Longrightarrow> \<not> hex_char c \<Longrightarrow> list_all (\<lambda>x. x \<noteq> c) s"
  by (auto simp: list_all_iff)

lemma not_digits [simp]: "\<not> dec_char dot" "\<not> dec_char colon" "\<not> hex_char dot" "\<not> hex_char colon"
  "\<not> dec_char CHR 0x2F" "\<not> hex_char CHR 0x2F" "\<not> dec_char CHR 0x25" "\<not> hex_char CHR 0x25"
  by (simp_all add: dec_char_def hex_char_def hex_lower_def)

lemma dec_hex: "dec_char c \<Longrightarrow> hex_lower c"
  by (simp add: hex_lower_def)

text \<open>A text in which no two colons meet and that does not end with one is one half.\<close>

fun single_colons :: "string \<Rightarrow> bool" where
  "single_colons [] = True"
| "single_colons [c] = (c \<noteq> colon)"
| "single_colons (c # d # cs) = (\<not> (c = colon \<and> d = colon) \<and> single_colons (d # cs))"

lemma halves_nonempty [simp]: "halves s \<noteq> []"
  by (induction s rule: halves.induct) (auto split: list.splits)

lemma halves_single: "single_colons s \<Longrightarrow> halves s = [s]"
  by (induction s rule: single_colons.induct) auto

lemma halves_double: "single_colons s \<Longrightarrow> halves (s @ colon # colon # t) = s # halves t"
  by (induction s rule: single_colons.induct) (auto split: list.split)

lemma single_join:
  assumes "\<And>w. w \<in> set ws \<Longrightarrow> w \<noteq> [] \<and> list_all (\<lambda>c. c \<noteq> colon) w"
  shows "single_colons (js_join [colon] ws)"
proof -
  have single: "single_colons w" if "list_all (\<lambda>c. c \<noteq> colon) w" for w
    using that by (induction w rule: single_colons.induct) auto
  have append: "single_colons (w @ colon # t)" if "w \<noteq> []" "list_all (\<lambda>c. c \<noteq> colon) w" "t \<noteq> []" "hd t \<noteq> colon" "single_colons t" for w t
    using that by (induction w rule: single_colons.induct) (cases t; auto)+
  have hd: "hd (js_join [colon] (y # ys)) \<noteq> colon \<and> js_join [colon] (y # ys) \<noteq> []" if "y \<noteq> []" "list_all (\<lambda>c. c \<noteq> colon) y" for y ys
    using that by (cases y; cases ys) auto
  show ?thesis
    using assms
  proof (induction "[colon]" ws rule: js_join.induct)
    case (3 x y xs)
    then show ?case using append [of x "js_join [colon] (y # xs)"] hd [of y xs] by simp
  qed (simp_all add: single)
qed

text \<open>Conversely, each half of a literal with only proper segments is such a text.\<close>

lemma halves_join: "js_join [colon, colon] (halves s) = s"
proof (induction s rule: halves.induct)
  case (3 c d cs)
  show ?case
  proof (cases "c = colon \<and> d = colon")
    case True
    then show ?thesis using 3(1) by (cases "halves cs") auto
  next
    case False
    obtain w ws where "halves (d # cs) = w # ws" by (cases "halves (d # cs)") auto
    then show ?thesis using 3(2) [OF False] False by (cases ws) auto
  qed
qed simp_all

subsection \<open>Bit masks\<close>

text \<open>Keeping the high bits of a number of \<open>k\<close> bits.\<close>

lemma mask_high:
  assumes "w < 2 ^ k" and "n \<le> k"
  shows "w AND push_bit n (mask (k - n)) = w div 2 ^ n * (2 ^ n :: nat)"
proof -
  have "take_bit k w = w" using assms(1) by (simp add: take_bit_nat_eq_self_iff)
  then have "bit w i \<Longrightarrow> i < k" for i
    by (metis bit_take_bit_iff)
  then have "w AND push_bit n (mask (k - n)) = push_bit n (drop_bit n w)"
    using assms(2) by (auto simp: bit_eq_iff bit_simps intro: diff_less_mono)
  then show ?thesis by (simp add: push_bit_eq_mult drop_bit_eq_div)
qed

text \<open>\<open>(x << 8) | y\<close>.\<close>

lemma push_or: "y < 256 \<Longrightarrow> push_bit 8 x OR y = x * 256 + (y :: nat)"
proof -
  assume "y < 256"
  then have "take_bit 8 y = y" by (simp add: take_bit_nat_eq_self_iff)
  then have "push_bit 8 x AND y = 0"
    by (metis bit_and_iff bit_eqI bit_push_bit_iff bit_take_bit_iff bit_0_eq bot_apply bot_bool_def linorder_not_less)
  then show ?thesis using disjunctive_add_eq_or [of "push_bit 8 x" y] by (simp add: push_bit_eq_mult)
qed

text \<open>\<open>x >> 8\<close> and \<open>x & 0xff\<close>.\<close>

lemma byte_parts: "drop_bit 8 n = n div 256" "n AND 0xff = n mod 256" for n :: nat
  using take_bit_eq_mask [of 8 n] by (simp_all add: drop_bit_eq_div take_bit_eq_mod mask_eq_exp_minus_1)

subsection \<open>The number a literal stands for\<close>

text \<open>The reading of RFC 4291: a dotted quad at the end is two groups, the double colon the zeros that are missing.\<close>

definition v4_words :: "string \<Rightarrow> nat list" where
  "v4_words s = (let v = map dec_nat (split_dots s) in [v ! 0 * 256 + v ! 1, v ! 2 * 256 + v ! 3])"

definition seg_words :: "string list \<Rightarrow> nat list" where
  "seg_words segs = concat (map (\<lambda>s. if is_v4 s then v4_words s else [hex_nat s]) segs)"

definition v6_words :: "string \<Rightarrow> nat list" where
  "v6_words s =
     (case halves s of
        [all] \<Rightarrow> seg_words (segments all)
      | left # right # _ \<Rightarrow>
          let l = seg_words (segments left); r = seg_words (segments right)
          in l @ replicate (8 - length l - length r) 0 @ r)"

lemma v6_not_v4: "v6_seg s \<Longrightarrow> \<not> is_v4 s"
proof
  assume "v6_seg s" "is_v4 s"
  then have "split_dots s = [s]" by (intro split_on_free) (auto simp: v6_seg_def list_all_iff)
  then show False using \<open>is_v4 s\<close> by (simp add: is_v4_def)
qed

lemma v4_parts:
  assumes "is_v4 s"
  obtains a b c d where "split_dots s = [a, b, c, d]" "v4_seg a" "v4_seg b" "v4_seg c" "v4_seg d"
  using assms by (auto simp: is_v4_def Let_def numeral_eq_Suc length_Suc_conv)

lemma list_all_join: "list_all P sep \<Longrightarrow> \<forall>w \<in> set ws. list_all P w \<Longrightarrow> list_all P (js_join sep ws)"
  by (induction sep ws rule: js_join.induct) auto

lemma v4_chars: "is_v4 s \<Longrightarrow> list_all (\<lambda>c. dec_char c \<or> c = dot) s"
proof -
  assume "is_v4 s"
  then have "\<forall>w \<in> set (split_dots s). list_all (\<lambda>c. dec_char c \<or> c = dot) w"
    by (auto simp: is_v4_def Let_def list_all_iff v4_seg_def)
  from list_all_join [OF _ this, of "[dot]"] show ?thesis by (simp add: join_split)
qed

lemma v4_words_bound: "is_v4 s \<Longrightarrow> length (v4_words s) = 2 \<and> (\<forall>w \<in> set (v4_words s). w < 65536)"
proof -
  assume "is_v4 s"
  then obtain a b c d where "split_dots s = [a, b, c, d]" "v4_seg a" "v4_seg b" "v4_seg c" "v4_seg d"
    by (rule v4_parts)
  then show ?thesis
    using v4_seg_bound [of a] v4_seg_bound [of b] v4_seg_bound [of c] v4_seg_bound [of d] by (simp add: v4_words_def)
qed

lemma seg_words_plain: "list_all v6_seg segs \<Longrightarrow> seg_words segs = map hex_nat segs"
  by (induction segs) (auto simp: seg_words_def v6_not_v4)

lemma seg_words_append: "seg_words (xs @ ys) = seg_words xs @ seg_words ys"
  by (simp add: seg_words_def)

text \<open>The two shapes of a run of segments.\<close>

lemma v6_count_cases:
  assumes "v6_count segs = Some n"
  obtains "list_all v6_seg segs" "n = length segs" "seg_words segs = map hex_nat segs"
  | init q where "segs = init @ [q]" "list_all v6_seg init" "is_v4 q" "n = length init + 2"
      "seg_words segs = map hex_nat init @ v4_words q"
proof (cases "list_all v6_seg segs")
  case True
  then show ?thesis using assms that(1) seg_words_plain by (auto simp: v6_count_def split: if_splits)
next
  case False
  then have ne: "segs \<noteq> []" and h: "list_all v6_seg (butlast segs)" "is_v4 (last segs)" "n = length segs + 1"
    using assms by (auto simp: v6_count_def split: if_splits)
  have "segs = butlast segs @ [last segs]" using ne by simp
  moreover have "seg_words (butlast segs @ [last segs]) = map hex_nat (butlast segs) @ v4_words (last segs)"
    using h seg_words_plain [OF h(1)] by (simp add: seg_words_append) (simp add: seg_words_def)
  ultimately show ?thesis using that(2) [of "butlast segs" "last segs"] h ne by simp
qed

lemma seg_words_count:
  assumes "v6_count segs = Some n"
  shows "length (seg_words segs) = n \<and> (\<forall>w \<in> set (seg_words segs). w < 65536)"
  using assms
proof (cases rule: v6_count_cases)
  case 1
  then show ?thesis using v6_seg_bound by (auto simp: list_all_iff)
next
  case (2 init q)
  then show ?thesis using v6_seg_bound v4_words_bound [of q] by (auto simp: list_all_iff)
qed

lemma v6_body_cases:
  assumes "v6_body s"
  obtains all where "halves s = [all]" "v6_count (segments all) = Some 8"
  | left right n where "halves s = [left, right]" "list_all v6_seg (segments left)"
      "v6_count (segments right) = Some n" "length (segments left) + n \<le> 7"
  using assms by (auto simp: v6_body_def split: list.splits option.splits)

lemma v6_words_bound:
  assumes "v6_body s"
  shows "length (v6_words s) = 8 \<and> (\<forall>w \<in> set (v6_words s). w < 65536)"
  using assms
proof (cases rule: v6_body_cases)
  case (1 all)
  then show ?thesis using seg_words_count [of "segments all" 8] by (simp add: v6_words_def)
next
  case (2 left right n)
  have "v6_count (segments left) = Some (length (segments left))" using 2(2) by (auto simp: v6_count_def)
  from seg_words_count [OF this] seg_words_count [OF 2(3)] show ?thesis
    using 2 by (auto simp: v6_words_def Let_def)
qed

text \<open>The octets and the words of an address as one number.\<close>

definition v4_number :: "nat list \<Rightarrow> nat" where
  "v4_number v = v ! 0 * 2 ^ 24 + v ! 1 * 2 ^ 16 + v ! 2 * 2 ^ 8 + v ! 3"

definition v6_number :: "nat list \<Rightarrow> nat" where
  "v6_number = foldl (\<lambda>a w. a * 2 ^ 16 + w) 0"

definition bytes_number :: "nat list \<Rightarrow> nat" where
  "bytes_number = foldl (\<lambda>a b. a * 256 + b) 0"

lemma v6_number_append: "v6_number (xs @ ys) = v6_number xs * 2 ^ (16 * length ys) + v6_number ys"
proof (induction ys rule: rev_induct)
  case (snoc y ys)
  then show ?case by (simp add: v6_number_def append_assoc [symmetric] power_add del: append_assoc)
qed (simp add: v6_number_def)

lemma v6_number_bound: "\<forall>w \<in> set ys. w < 65536 \<Longrightarrow> v6_number ys < 2 ^ (16 * length ys)"
proof (induction ys rule: rev_induct)
  case (snoc y ys)
  then have "v6_number ys + 1 \<le> 2 ^ (16 * length ys)" and y: "y < 65536" by auto
  then have "(v6_number ys + 1) * 65536 \<le> 2 ^ (16 * length ys) * 65536" by (intro mult_right_mono) auto
  then show ?case using y by (simp add: v6_number_append power_add) (simp add: v6_number_def)
qed (simp add: v6_number_def)

lemma bytes_number_append: "bytes_number (xs @ ys) = bytes_number xs * 256 ^ length ys + bytes_number ys"
proof (induction ys rule: rev_induct)
  case (snoc y ys)
  then show ?case by (simp add: bytes_number_def append_assoc [symmetric] del: append_assoc)
qed (simp add: bytes_number_def)

lemma bytes_number_Cons: "bytes_number (b # bs) = b * 256 ^ length bs + bytes_number bs"
  using bytes_number_append [of "[b]" bs] by (simp add: bytes_number_def)

lemma bytes_number_bound: "\<forall>b \<in> set bs. b < 256 \<Longrightarrow> bytes_number bs < 256 ^ length bs"
proof (induction bs)
  case (Cons b bs)
  then have "bytes_number bs < 256 ^ length bs" "b + 1 \<le> 256" by auto
  then have "b * 256 ^ length bs + bytes_number bs < (b + 1) * 256 ^ length bs" by simp
  also have "\<dots> \<le> 256 * 256 ^ length bs" using \<open>b + 1 \<le> 256\<close> by (rule mult_le_mono1)
  finally show ?case by (simp add: bytes_number_Cons)
qed (simp add: bytes_number_def)

lemma bytes_number_inject:
  assumes "length xs = length ys" and "\<forall>b \<in> set xs \<union> set ys. b < 256" and "bytes_number xs = bytes_number ys"
  shows "xs = ys"
  using assms
proof (induction xs ys rule: list_induct2)
  case (Cons x xs y ys)
  have small: "bytes_number xs < 256 ^ length ys" "bytes_number ys < 256 ^ length ys"
    using bytes_number_bound [of xs] bytes_number_bound [of ys] Cons.prems(1) Cons.hyps by auto
  have eq: "x * 256 ^ length ys + bytes_number xs = y * 256 ^ length ys + bytes_number ys"
    using Cons.prems(2) Cons.hyps by (simp add: bytes_number_Cons)
  have "x = y \<and> bytes_number xs = bytes_number ys"
    using arg_cong [OF eq, of "\<lambda>n. n div 256 ^ length ys"] arg_cong [OF eq, of "\<lambda>n. n mod 256 ^ length ys"] small by simp
  then show ?case using Cons by simp
qed simp

end
