(* ===== verification/EgressGuard.thy ===== *)
theory EgressGuard
  imports NetAddress
begin

text \<open>
  The guard of outbound requests (\<open>lib/egressGuard.ts\<close>): which address literals count as private,
  the check of a URL with the addresses its host resolved to, and the lookup that pins a
  connection to them. The URL as \<open>new URL\<close> reads it and the answer of the resolver are inputs.
\<close>

subsection \<open>Private addresses\<close>










subsection \<open>Checking a URL\<close>










subsection \<open>The blocked address space\<close>






subsection \<open>Octets\<close>







subsection \<open>The parser\<close>

lemma lower_eq: "js_lower_char c = d \<Longrightarrow> \<not> (97 \<le> (of_char d :: nat) \<and> (of_char d :: nat) \<le> 122) \<Longrightarrow> of_char d < (192 :: nat) \<Longrightarrow> c = d"
  by (auto simp: js_lower_char_def Let_def of_char_of split: if_splits)

lemma lower_sep [simp]: "js_lower_char c = colon \<longleftrightarrow> c = colon" "js_lower_char c = CHR 0x25 \<longleftrightarrow> c = CHR 0x25"
  using lower_eq [of c colon] lower_eq [of c "CHR 0x25"] by (auto simp: js_lower_char_def)


lemma lower_idem [simp]: "js_lower (js_lower s) = js_lower s"
proof -
  have "js_lower_char (js_lower_char c) = js_lower_char c" for c
    by (simp add: js_lower_char_def Let_def of_char_of)
  then show ?thesis by (simp add: js_lower_def)
qed


lemma split_lower: "split_colons (js_lower s) = map js_lower (split_colons s)"
  by (induction s) (auto simp: js_lower_def split: list.split)



lemma zone_idem [simp]: "before_zone (before_zone s) = before_zone s"
  by (simp add: before_zone_def takeWhile_idem)

lemma segments_lower: "segments (js_lower s) = map js_lower (segments s)"
  by (simp add: segments_def split_lower) (simp add: js_lower_def)












subsection \<open>The code blocks exactly the blocked space\<close>





subsection \<open>What a guarded request dials\<close>





end
