(* ===== verification/IpAllowlist.thy ===== *)
theory IpAllowlist
  imports NetAddress AccessModel
begin

text \<open>
  IP allow lists (\<open>lib/ipAllowlist.ts\<close>) of public databases and port mappings: an entry is an
  address or a range, checked by \<open>isIP\<close>, read into bytes, its host bits cleared, and printed in
  its canonical form. Texts are 8-bit characters.
\<close>

subsection \<open>Bytes\<close>

definition ipv4Bytes :: "string \<Rightarrow> nat list" where
  "ipv4Bytes addr = map dec_nat (split_dots addr)"

text \<open>What \<open>lastIndexOf(':')\<close> splits a text into, the colon with the first part.\<close>

definition after_colon :: "string \<Rightarrow> string" where
  "after_colon s = rev (takeWhile (\<lambda>c. c \<noteq> colon) (rev s))"

definition upto_colon :: "string \<Rightarrow> string" where
  "upto_colon s = rev (dropWhile (\<lambda>c. c \<noteq> colon) (rev s))"

definition ipv6Bytes :: "string \<Rightarrow> nat list" where
  "ipv6Bytes addr =
     (let quad = dot \<in> set (after_colon addr);
          tail = (if quad then ipv4Bytes (after_colon addr) else []);
          text = (if quad then upto_colon addr @ ''0:0'' else addr);
          hs = halves text;
          head = segments (hs ! 0);
          rest = (if length hs > 1 then segments (hs ! 1) else []);
          fill = (if length hs > 1 then 8 - length head - length rest else 0);
          groups = map hex_nat (head @ replicate fill ''0'' @ rest);
          bytes = concat (map (\<lambda>g. [drop_bit 8 g, g AND 0xff]) groups)
      in if tail = [] then bytes else take 12 bytes @ tail @ drop 16 bytes)"

subsection \<open>The canonical text\<close>

text \<open>The loop over the runs of zero groups: the first of the longest ones, of at least two.\<close>

function scan_runs :: "nat \<Rightarrow> nat list \<Rightarrow> nat option \<times> nat \<Rightarrow> nat option \<times> nat" where
  "scan_runs i [] best = best"
| "scan_runs i (g # gs) best =
     (if g \<noteq> 0 then scan_runs (i + 1) gs best
      else
        let run = length (takeWhile (\<lambda>x. x = 0) (g # gs)) in
        scan_runs (i + run) (dropWhile (\<lambda>x. x = 0) (g # gs)) (if run > snd best \<and> run \<ge> 2 then (Some i, run) else best))"
  by pat_completeness auto
termination
  by (relation "measure (\<lambda>(i, gs, best). length gs)") (auto simp: le_imp_less_Suc length_dropWhile_le)

fun groups_of :: "nat list \<Rightarrow> nat list" where
  "groups_of (a # b # bs) = (push_bit 8 a OR b) # groups_of bs"
| "groups_of _ = []"

definition formatIpv6 :: "nat list \<Rightarrow> string" where
  "formatIpv6 bytes =
     (let groups = groups_of bytes; hex = map hex_text groups in
      case scan_runs 0 groups (None, 0) of
        (None, _) \<Rightarrow> js_join [colon] hex
      | (Some start, len) \<Rightarrow> js_join [colon] (take start hex) @ [colon, colon] @ js_join [colon] (drop (start + len) hex))"

definition maskBytes :: "nat list \<Rightarrow> nat \<Rightarrow> nat list" where
  "maskBytes bytes plen = map (\<lambda>(i, b).
     let bits = min 8 (plen - i * 8) in
     if bits = 8 then b else b AND (push_bit (8 - bits) 0xff AND 0xff)) (enumerate 0 bytes)"

subsection \<open>Entries\<close>

definition slash_char :: char where
  "slash_char = CHR 0x2F"

definition not_an_address :: string where
  "not_an_address = ''is not an IP address or CIDR range''"

definition normaliseAllowlistEntry :: "string \<Rightarrow> http_error + string" where
  "normaliseAllowlistEntry raw =
     (let entry = js_trim raw;
          bad = (\<lambda>why. badRequest (''ipAllowlist: '' @ quoted (take 64 entry) @ '' '' @ why) ''invalid_allowlist'')
      in
      if entry = [] \<or> length entry > 64 then Inl (bad not_an_address)
      else
        let parts = split_on (\<lambda>c. c = slash_char) entry in
        if length parts > 2 then Inl (bad not_an_address)
        else
          let addr = parts ! 0;
              family = (if CHR 0x25 \<in> set addr then 0 else net_isIP addr)
          in
          if family = 0 then Inl (bad not_an_address)
          else
            let max_prefix = (if family = 4 then 32 else 128);
                given = (if length parts = 2 then Some (parts ! 1) else None);
                plen = (case given of None \<Rightarrow> max_prefix | Some t \<Rightarrow> dec_nat t)
            in
            if given \<noteq> None \<and> \<not> (list_all dec_char (the given) \<and> 1 \<le> length (the given) \<and> length (the given) \<le> 3)
            then Inl (bad ''has an invalid prefix length'')
            else if given \<noteq> None \<and> plen > max_prefix then Inl (bad (''has a prefix longer than /'' @ nat_text max_prefix))
            else if given \<noteq> None \<and> plen = 0 then Inl (bad ''allows every address on the internet (/0 is refused)'')
            else
              let bytes = (if family = 4 then ipv4Bytes addr else ipv6Bytes addr) in
              if family = 6 \<and> list_all (\<lambda>b. b = 0) (take 10 bytes) \<and> bytes ! 10 = 0xff \<and> bytes ! 11 = 0xff
              then Inl (bad ''is an IPv4-mapped IPv6 address: write the IPv4 form instead'')
              else
                let masked = maskBytes bytes plen;
                    text = (if family = 4 then js_join [dot] (map nat_text masked) else formatIpv6 masked)
                in Inr (text @ [slash_char] @ nat_text plen))"

definition PUBLIC_ACCESS_ALLOWLIST_MAX :: nat where
  "PUBLIC_ACCESS_ALLOWLIST_MAX = 100"

fun collect_entries :: "string list \<Rightarrow> string list \<Rightarrow> http_error + string list" where
  "collect_entries [] out = Inr out"
| "collect_entries (e # es) out =
     rbind (normaliseAllowlistEntry e) (\<lambda>n. collect_entries es (if n \<in> set out then out else out @ [n]))"

definition normaliseAllowlist :: "string list \<Rightarrow> http_error + string list" where
  "normaliseAllowlist entries =
     (if entries = [] then Inl (badRequest ''ipAllowlist: at least one address or range is required'' ''invalid_allowlist'')
      else rbind (collect_entries entries []) (\<lambda>out.
        if length out > PUBLIC_ACCESS_ALLOWLIST_MAX
        then Inl (badRequest (''ipAllowlist: at most '' @ nat_text PUBLIC_ACCESS_ALLOWLIST_MAX @ '' entries'') ''invalid_allowlist'')
        else Inr out))"

subsection \<open>Both parsers read the same address\<close>

definition word_bytes :: "nat list \<Rightarrow> nat list" where
  "word_bytes ws = concat (map (\<lambda>w. [w div 256, w mod 256]) ws)"

lemma js_join_snoc: "js_join [c] (xs @ [y]) = (if xs = [] then y else js_join [c] xs @ c # y)"
  by (induction "[c]" xs rule: js_join.induct) auto

lemma colon_last: "list_all (\<lambda>c. c \<noteq> colon) q \<Longrightarrow> after_colon (p @ colon # q) = q \<and> upto_colon (p @ colon # q) = p @ [colon]"
proof -
  assume "list_all (\<lambda>c. c \<noteq> colon) q"
  then have "\<forall>c \<in> set (rev q). c \<noteq> colon" by (simp add: list_all_iff)
  then have "takeWhile (\<lambda>c. c \<noteq> colon) (rev q @ colon # rev p) = rev q" "dropWhile (\<lambda>c. c \<noteq> colon) (rev q @ colon # rev p) = colon # rev p"
    by (subst takeWhile_append2 dropWhile_append2; simp)+
  then show ?thesis by (simp add: after_colon_def upto_colon_def)
qed

lemma after_colon_sub: "set (after_colon s) \<subseteq> set s"
  using set_takeWhileD by (fastforce simp: after_colon_def)

lemma segs_text:
  assumes "list_all v6_seg (segments s)"
  shows "single_colons s" and "dot \<notin> set s"
proof -
  have s: "s = js_join [colon] (segments s)" by (simp add: segments_def join_split)
  have seg: "list_all hex_char w \<and> w \<noteq> []" if "w \<in> set (segments s)" for w
    using that assms by (auto simp: list_all_iff v6_seg_def)
  then have free: "w \<noteq> [] \<and> list_all (\<lambda>c. c \<noteq> colon) w" if "w \<in> set (segments s)" for w
    using that by (simp add: hex_free)
  from single_join [OF free] show "single_colons s" using s by metis
  have "list_all (\<lambda>c. c \<noteq> dot) (js_join [colon] (segments s))"
    using seg by (intro list_all_join) (simp_all add: hex_free)
  then show "dot \<notin> set s" using s by (simp add: list_all_iff) metis
qed

lemma bytes_of_groups: "concat (map (\<lambda>g. [drop_bit 8 g, g AND 0xff]) ws) = word_bytes ws"
  by (simp only: word_bytes_def byte_parts)

lemma word_bytes_append: "word_bytes (xs @ ys) = word_bytes xs @ word_bytes ys"
  by (simp add: word_bytes_def)

lemma word_bytes_length: "length (word_bytes ws) = 2 * length ws"
  by (induction ws) (simp_all add: word_bytes_def)

lemma quad_bytes: "is_v4 q \<Longrightarrow> ipv4Bytes q = word_bytes (v4_words q) \<and> length (ipv4Bytes q) = 4"
proof (elim v4_parts)
  fix a b c d
  assume "split_dots q = [a, b, c, d]" "v4_seg a" "v4_seg b" "v4_seg c" "v4_seg d"
  then show ?thesis using v4_seg_bound by (simp add: ipv4Bytes_def v4_words_def word_bytes_def)
qed

lemma quad_free: "is_v4 q \<Longrightarrow> list_all (\<lambda>c. c \<noteq> colon) q \<and> dot \<in> set q"
proof
  assume q: "is_v4 q"
  show "list_all (\<lambda>c. c \<noteq> colon) q" using v4_chars [OF q] by (auto simp: list_all_iff)
  show "dot \<in> set q"
  proof (rule ccontr)
    assume "dot \<notin> set q"
    then have "split_dots q = [q]" by (intro split_on_free) (auto simp: list_all_iff)
    then show False using q by (simp add: is_v4_def)
  qed
qed

text \<open>The bytes of the segments, where a dotted tail was replaced by two zero groups.\<close>

lemma zero_tail:
  assumes "is_v4 q" and "length (L @ map hex_nat init) = 6"
  shows "(let bytes = word_bytes (L @ map hex_nat (init @ [''0'', ''0''])) in take 12 bytes @ ipv4Bytes q @ drop 16 bytes)
    = word_bytes (L @ map hex_nat init @ v4_words q)"
proof -
  have "word_bytes (L @ map hex_nat (init @ [''0'', ''0''])) = word_bytes (L @ map hex_nat init) @ [0, 0, 0, 0]"
    by (simp add: word_bytes_append) (simp add: word_bytes_def hex_nat_def hex_val_def)
  moreover have "length (word_bytes (L @ map hex_nat init)) = 12" using assms(2) by (simp add: word_bytes_length)
  ultimately show ?thesis
    using quad_bytes [OF assms(1)] by (simp add: word_bytes_append Let_def)
qed

lemma seg_free: "list_all v6_seg segs \<Longrightarrow> w \<in> set (segs @ [''0'', ''0'']) \<Longrightarrow> w \<noteq> [] \<and> list_all (\<lambda>c. c \<noteq> colon) w"
proof -
  assume "list_all v6_seg segs" "w \<in> set (segs @ [''0'', ''0''])"
  then have "v6_seg w \<or> w = ''0''" by (auto simp: list_all_iff)
  then show ?thesis by (auto simp: v6_seg_def hex_free)
qed

lemma segments_joined: "list_all v6_seg segs \<Longrightarrow> segments (js_join [colon] (segs @ [''0'', ''0''])) = segs @ [''0'', ''0'']"
proof -
  assume segs: "list_all v6_seg segs"
  have "split_colons (js_join [colon] (segs @ [''0'', ''0''])) = segs @ [''0'', ''0'']"
    using seg_free [OF segs] by (intro split_on_join) auto
  moreover have "js_join [colon] (segs @ [''0'', ''0'']) \<noteq> []"
    using js_join_snoc [of colon "segs @ [''0'']" "''0''"] by simp
  ultimately show ?thesis by (simp add: segments_def)
qed

text \<open>A literal whose right half ends in a dotted quad, and what its tail is replaced by.\<close>

lemma quad_text:
  assumes "segments right = init @ [q]" and "list_all v6_seg init" and "is_v4 q" and "pre = [] \<or> (\<exists>p. pre = p @ [colon])"
    and "pre \<noteq> [] \<or> init \<noteq> []"
  shows "after_colon (pre @ right) = q"
    and "upto_colon (pre @ right) @ ''0:0'' = pre @ js_join [colon] (init @ [''0'', ''0''])"
proof -
  have right: "right = js_join [colon] (init @ [q])"
    using assms(1) join_split [of colon right] by (auto simp: segments_def split: if_splits)
  have free: "list_all (\<lambda>c. c \<noteq> colon) q" using quad_free [OF assms(3)] ..
  obtain p where p: "pre @ right = p @ colon # q" "p @ [colon] = pre @ (if init = [] then [] else js_join [colon] init @ [colon])"
    using assms(4,5) by (cases "init = []") (auto simp: right js_join_snoc)
  have zeros: "js_join [colon] (init @ [''0'', ''0'']) = (if init = [] then [] else js_join [colon] init @ [colon]) @ ''0:0''"
    using js_join_snoc [of colon "init @ [''0'']" "''0''"] js_join_snoc [of colon init "''0''"] by auto
  show "after_colon (pre @ right) = q" "upto_colon (pre @ right) @ ''0:0'' = pre @ js_join [colon] (init @ [''0'', ''0''])"
    using colon_last [OF free, of p] by (simp_all add: p zeros)
qed

lemma ipv6Bytes_body:
  assumes "v6_body s"
  shows "ipv6Bytes s = word_bytes (v6_words s)"
  using assms
proof (cases rule: v6_body_cases)
  case (1 all)
  have s: "s = all" using halves_join [of s] by (simp add: 1(1))
  show ?thesis
    using 1(2)
  proof (cases rule: v6_count_cases)
    case plain: 1
    have "dot \<notin> set (after_colon s)" using segs_text(2) [OF plain(1)] after_colon_sub s by blast
    then show ?thesis
      using plain(3) by (simp add: ipv6Bytes_def Let_def 1(1) v6_words_def bytes_of_groups)
  next
    case (2 init q)
    have ne: "init \<noteq> []" using 2(4) by auto
    have cut: "after_colon s = q" "upto_colon s @ ''0:0'' = js_join [colon] (init @ [''0'', ''0''])"
      using quad_text [OF 2(1-3), of "[]"] ne s by simp_all
    have "halves (js_join [colon] (init @ [''0'', ''0''])) = [js_join [colon] (init @ [''0'', ''0''])]"
      using seg_free [OF 2(2)] by (intro halves_single single_join)
    then have "ipv6Bytes s = (let bytes = word_bytes ([] @ map hex_nat (init @ [''0'', ''0''])) in take 12 bytes @ ipv4Bytes q @ drop 16 bytes)"
      using quad_free [OF 2(3)] quad_bytes [OF 2(3)]
      by (simp add: ipv6Bytes_def Let_def cut segments_joined [OF 2(2)] bytes_of_groups) auto
    also have "\<dots> = word_bytes ([] @ map hex_nat init @ v4_words q)"
      using 2(4) by (intro zero_tail 2(3)) simp
    finally show ?thesis using 2(5) by (simp add: v6_words_def 1(1))
  qed
next
  case (2 left right n)
  have s: "s = left @ [colon, colon] @ right" using halves_join [of s] by (simp add: 2(1))
  have left: "single_colons left" using segs_text(1) [OF 2(2)] .
  let ?L = "\<lambda>k. map hex_nat (segments left) @ replicate (8 - length (segments left) - k) 0"
  have zero: "hex_nat ''0'' = 0" by (simp add: hex_nat_def hex_val_def)
  show ?thesis
    using 2(3)
  proof (cases rule: v6_count_cases)
    case plain: 1
    have "dot \<notin> set s" using segs_text(2) [OF 2(2)] segs_text(2) [OF plain(1)] by (simp add: s)
    then have "dot \<notin> set (after_colon s)" using after_colon_sub by blast
    then show ?thesis
      using plain(2,3) seg_words_plain [OF 2(2)]
      by (simp add: ipv6Bytes_def Let_def 2(1) v6_words_def bytes_of_groups zero)
  next
    case (2 init q)
    note tail = this
    have cut: "after_colon s = q" "upto_colon s @ ''0:0'' = left @ colon # colon # js_join [colon] (init @ [''0'', ''0''])"
      using quad_text [OF tail(1-3), of "left @ [colon, colon]"] s by simp_all
    have hs: "halves (left @ colon # colon # js_join [colon] (init @ [''0'', ''0''])) = [left, js_join [colon] (init @ [''0'', ''0''])]"
    proof -
      have "halves (js_join [colon] (init @ [''0'', ''0''])) = [js_join [colon] (init @ [''0'', ''0''])]"
        using seg_free [OF tail(2)] by (intro halves_single single_join)
      then show ?thesis using halves_double [OF left] by simp
    qed
    have "ipv6Bytes s = (let bytes = word_bytes (?L (length init + 2) @ map hex_nat (init @ [''0'', ''0''])) in take 12 bytes @ ipv4Bytes q @ drop 16 bytes)"
      using quad_free [OF tail(3)] quad_bytes [OF tail(3)]
      by (simp add: ipv6Bytes_def Let_def cut hs segments_joined [OF tail(2)] bytes_of_groups zero) auto
    also have "\<dots> = word_bytes (?L (length init + 2) @ map hex_nat init @ v4_words q)"
      using \<open>length (segments left) + n \<le> 7\<close> tail(4) by (intro zero_tail tail(3)) simp
    finally show ?thesis
      using tail(5) \<open>halves s = [left, right]\<close> seg_words_plain [OF \<open>list_all v6_seg (segments left)\<close>] v4_words_bound [OF tail(3)]
      by (simp add: v6_words_def Let_def)
  qed
qed

subsection \<open>The canonical text of an IPv6 address\<close>

lemma groups_of_bytes:
  assumes "length bs = 2 * n" and "\<forall>b \<in> set bs. b < 256"
  shows "length (groups_of bs) = n \<and> (\<forall>g \<in> set (groups_of bs). g < 65536) \<and> word_bytes (groups_of bs) = bs"
  using assms
proof (induction bs arbitrary: n rule: groups_of.induct)
  case (1 a b bs)
  obtain m where m: "n = Suc m" using 1(2) by (cases n) auto
  have "push_bit 8 a OR b = a * 256 + b" using 1(3) by (simp add: push_or)
  then show ?case using 1(1) [of m] 1(2,3) m by (auto simp: word_bytes_def)
qed (auto simp: word_bytes_def)

definition zero_run :: "nat list \<Rightarrow> nat option \<times> nat \<Rightarrow> bool" where
  "zero_run gs best = (case fst best of None \<Rightarrow> True
     | Some start \<Rightarrow> 2 \<le> snd best \<and> start + snd best \<le> length gs \<and> take (snd best) (drop start gs) = replicate (snd best) 0)"

lemma zero_prefix: "takeWhile (\<lambda>x. x = (0 :: nat)) gs = replicate (length (takeWhile (\<lambda>x. x = 0) gs)) 0"
  by (induction gs) auto

lemma scan_runs_zero: "zero_run (pre @ gs) best \<Longrightarrow> zero_run (pre @ gs) (scan_runs (length pre) gs best)"
proof (induction gs arbitrary: pre best rule: measure_induct_rule [of length])
  case (less gs)
  show ?case
  proof (cases gs)
    case (Cons g gs')
    show ?thesis
    proof (cases "g = 0")
      case False
      then show ?thesis using less.IH [of gs' "pre @ [g]" best] less.prems Cons by simp
    next
      case True
      obtain t rest where t: "takeWhile (\<lambda>x. x = 0) gs = t" and rest: "dropWhile (\<lambda>x. x = 0) gs = rest" by blast
      have zeros: "t = replicate (length t) 0" and whole: "gs = t @ rest"
        using zero_prefix [of gs] t rest takeWhile_dropWhile_id by metis+
      have "t \<noteq> []" using t Cons True by auto
      obtain best' where best': "best' = (if length t > snd best \<and> length t \<ge> 2 then (Some (length pre), length t) else best)" by blast
      have "zero_run ((pre @ t) @ rest) best'"
      proof (cases "length t > snd best \<and> length t \<ge> 2")
        case long: True
        have "take (length t) (drop (length pre) ((pre @ t) @ rest)) = t" by simp
        then show ?thesis using long zeros by (simp add: zero_run_def best')
      next
        case short: False
        have "best' = best" using short by (simp only: best' if_False)
        then show ?thesis using less.prems whole by (simp only: append_assoc)
      qed
      from less.IH [OF _ this] have "zero_run ((pre @ t) @ rest) (scan_runs (length (pre @ t)) rest best')"
        using \<open>t \<noteq> []\<close> whole by simp
      moreover have "scan_runs (length pre) gs best = scan_runs (length pre + length t) rest best'"
        using scan_runs.simps(2) [of "length pre" g gs' best] unfolding Cons [symmetric] t rest best' using True by (simp only: Let_def) simp
      ultimately show ?thesis by (simp add: whole)
    qed
  qed (use less.prems in simp)
qed

lemma join_text:
  assumes "\<forall>g \<in> set gs. g < 65536"
  shows "segments (js_join [colon] (map hex_text gs)) = map hex_text gs" and "single_colons (js_join [colon] (map hex_text gs))"
    and "list_all v6_seg (map hex_text gs)" and "list_all (\<lambda>c. hex_char c \<or> c = colon) (js_join [colon] (map hex_text gs))"
    and "length (js_join [colon] (map hex_text gs)) \<le> 5 * length gs"
proof -
  show segs: "list_all v6_seg (map hex_text gs)" using assms hex_text_seg by (auto simp: list_all_iff)
  have w: "w \<noteq> [] \<and> list_all (\<lambda>c. c \<noteq> colon) w \<and> list_all hex_char w \<and> length w \<le> 4" if "w \<in> set (map hex_text gs)" for w
  proof -
    have "v6_seg w" using segs that unfolding list_all_iff by blast
    then show ?thesis by (auto simp: v6_seg_def hex_free)
  qed
  show "single_colons (js_join [colon] (map hex_text gs))" using w by (intro single_join) blast
  show "segments (js_join [colon] (map hex_text gs)) = map hex_text gs"
  proof (cases gs)
    case (Cons g gs')
    have "hex_text g \<noteq> []" using hex_text_props by blast
    then have "js_join [colon] (map hex_text gs) \<noteq> []" using Cons by (cases gs') auto
    moreover have "split_colons (js_join [colon] (map hex_text gs)) = map hex_text gs"
      using w Cons by (intro split_on_join) auto
    ultimately show ?thesis by (simp add: segments_def)
  qed (simp add: segments_def)
  show "list_all (\<lambda>c. hex_char c \<or> c = colon) (js_join [colon] (map hex_text gs))"
    using w by (intro list_all_join) (auto simp: list_all_iff)
  have "\<forall>w \<in> set ws. length w \<le> 4 \<Longrightarrow> length (js_join [colon] ws) \<le> 5 * length ws" for ws
    by (induction "[colon]" ws rule: js_join.induct) auto
  from this [of "map hex_text gs"] show "length (js_join [colon] (map hex_text gs)) \<le> 5 * length gs" using w by auto
qed

lemma count_text: "\<forall>g \<in> set gs. g < 65536 \<Longrightarrow> v6_count (map hex_text gs) = Some (length gs) \<and> map hex_nat (map hex_text gs) = gs"
proof -
  assume gs: "\<forall>g \<in> set gs. g < 65536"
  have "map hex_nat (map hex_text gs) = map id gs"
    using hex_text_props by (simp add: comp_def)
  then show ?thesis using join_text(3) [OF gs] by (auto simp: v6_count_def)
qed

lemma format_words:
  assumes "length bs = 16" and "\<forall>b \<in> set bs. b < 256"
  shows "v6_body (formatIpv6 bs)" and "v6_words (formatIpv6 bs) = groups_of bs"
    and "list_all (\<lambda>c. hex_char c \<or> c = colon) (formatIpv6 bs)" and "length (formatIpv6 bs) \<le> 40"
proof -
  obtain gs where gs: "groups_of bs = gs" by blast
  have len: "length gs = 8" and small: "\<forall>g \<in> set gs. g < 65536"
    using groups_of_bytes [of bs 8] assms gs by auto
  have "v6_body (formatIpv6 bs) \<and> v6_words (formatIpv6 bs) = gs
    \<and> list_all (\<lambda>c. hex_char c \<or> c = colon) (formatIpv6 bs) \<and> length (formatIpv6 bs) \<le> 40"
  proof (cases "scan_runs 0 gs (None, 0)")
    case (Pair first n)
    have run: "zero_run gs (first, n)"
      using scan_runs_zero [of "[]" gs "(None, 0)"] Pair by (simp add: zero_run_def)
    show ?thesis
    proof (cases first)
      case None
      have out: "formatIpv6 bs = js_join [colon] (map hex_text gs)" by (simp add: formatIpv6_def gs Pair None)
      have hs: "halves (js_join [colon] (map hex_text gs)) = [js_join [colon] (map hex_text gs)]"
        using join_text(2) [OF small] by (rule halves_single)
      show ?thesis
        unfolding out using hs join_text [OF small] count_text [OF small] len
        by (simp add: v6_body_def v6_words_def seg_words_plain)
    next
      case (Some start)
      have r: "2 \<le> n" "start + n \<le> 8" "take n (drop start gs) = replicate n 0"
        using run len by (simp_all add: zero_run_def Some)
      obtain a b where a: "take start gs = a" and b: "drop (start + n) gs = b" by blast
      have whole: "gs = a @ replicate n 0 @ b"
        using append_take_drop_id [of start gs] append_take_drop_id [of n "drop start gs"] r(3) a b by (simp add: add.commute)
      have lens: "length a + length b + n = 8" using len whole by auto
      have sa: "\<forall>g \<in> set a. g < 65536" and sb: "\<forall>g \<in> set b. g < 65536" using small whole by auto
      have out: "formatIpv6 bs = js_join [colon] (map hex_text a) @ colon # colon # js_join [colon] (map hex_text b)"
        by (simp add: formatIpv6_def gs Pair Some take_map drop_map a b)
      have hs: "halves (formatIpv6 bs) = [js_join [colon] (map hex_text a), js_join [colon] (map hex_text b)]"
        unfolding out using halves_double [OF join_text(2) [OF sa]] halves_single [OF join_text(2) [OF sb]] by simp
      have "v6_body (formatIpv6 bs)"
        using hs join_text(1,3) [OF sa] join_text(1) [OF sb] count_text [OF sb] lens r(1) by (simp add: v6_body_def)
      moreover have "v6_words (formatIpv6 bs) = a @ replicate (8 - length a - length b) 0 @ b"
        using hs join_text(1,3) [OF sa] join_text(1,3) [OF sb] count_text [OF sa] count_text [OF sb]
        by (simp add: v6_words_def seg_words_plain)
      moreover have "8 - length a - length b = n" using lens by simp
      moreover have "list_all (\<lambda>c. hex_char c \<or> c = colon) (formatIpv6 bs)"
        unfolding out using join_text(4) [OF sa] join_text(4) [OF sb] by simp
      moreover have "length (formatIpv6 bs) \<le> 40"
        unfolding out using join_text(5) [OF sa] join_text(5) [OF sb] lens r(1) by simp
      ultimately show ?thesis by (simp add: whole)
    qed
  qed
  then show "v6_body (formatIpv6 bs)" "v6_words (formatIpv6 bs) = groups_of bs"
    "list_all (\<lambda>c. hex_char c \<or> c = colon) (formatIpv6 bs)" "length (formatIpv6 bs) \<le> 40"
    using gs by auto
qed

subsection \<open>Clearing the host bits\<close>

definition mask_byte :: "nat \<Rightarrow> nat \<Rightarrow> nat" where
  "mask_byte bits b = (if bits = 8 then b else b AND (push_bit (8 - bits) 0xff AND 0xff))"

lemma mask_byte_div: "b < 256 \<Longrightarrow> bits \<le> 8 \<Longrightarrow> mask_byte bits b = b div 2 ^ (8 - bits) * 2 ^ (8 - bits)"
proof -
  assume b: "b < 256" and bits: "bits \<le> 8"
  have "bits \<in> set [0..<9]" using bits by auto
  then have "push_bit (8 - bits) 0xff AND (0xff :: nat) = push_bit (8 - bits) (mask bits)"
    by (auto simp: mask_eq_exp_minus_1 push_bit_eq_mult upt_rec)
  then show ?thesis using mask_high [of b 8 "8 - bits"] b bits by (simp add: mask_byte_def)
qed

lemma maskBytes_eq: "maskBytes bs p = map (\<lambda>(i, b). mask_byte (min 8 (p - i * 8)) b) (enumerate 0 bs)"
  by (simp add: maskBytes_def mask_byte_def Let_def)

lemma maskBytes_from: "map (\<lambda>(i, b). mask_byte (min 8 (p - i * 8)) b) (enumerate n bs) = maskBytes bs (p - n * 8)"
proof (induction bs arbitrary: n p)
  case (Cons b bs)
  from Cons [of p "Suc n"] Cons [of "p - n * 8" 1] show ?case
    by (simp add: maskBytes_eq algebra_simps)
qed (simp add: maskBytes_def)

lemma maskBytes_Cons [simp]: "maskBytes (b # bs) p = mask_byte (min 8 p) b # maskBytes bs (p - 8)"
  using maskBytes_from [of p 0 "b # bs"] maskBytes_from [of p 1 bs] by simp

lemma maskBytes_Nil [simp]: "maskBytes [] p = []"
  by (simp add: maskBytes_def)

lemma maskBytes_bytes: "\<forall>b \<in> set bs. b < 256 \<Longrightarrow> length (maskBytes bs p) = length bs \<and> (\<forall>b \<in> set (maskBytes bs p). b < 256)"
proof (induction bs arbitrary: p)
  case (Cons b bs)
  have "mask_byte (min 8 p) b \<le> b" using Cons.prems by (simp add: mask_byte_div)
  then show ?case using Cons by auto
qed simp

lemma maskBytes_number:
  assumes "\<forall>b \<in> set bs. b < 256" and "p \<le> 8 * length bs"
  shows "bytes_number (maskBytes bs p) = bytes_number bs div 2 ^ (8 * length bs - p) * 2 ^ (8 * length bs - p)"
  using assms
proof (induction bs arbitrary: p)
  case (Cons b bs)
  let ?k = "8 * length bs"
  have pow: "(256 :: nat) ^ length bs = 2 ^ ?k" by (simp add: power_mult)
  have small: "bytes_number bs < 2 ^ ?k" using bytes_number_bound [of bs] Cons.prems by (simp add: pow)
  show ?case
  proof (cases "8 \<le> p")
    case True
    define d where "d = ?k - (p - 8)"
    have "?k = d + (p - 8)" "8 * length (b # bs) - p = d" using True Cons.prems(2) by (simp_all add: d_def)
    then have high: "b * 2 ^ ?k = b * 2 ^ (p - 8) * 2 ^ d" by (simp only: power_add mult_ac)
    have "(b * 2 ^ ?k + bytes_number bs) div 2 ^ d * 2 ^ d = b * 2 ^ ?k + bytes_number bs div 2 ^ d * 2 ^ d"
      unfolding high by (simp add: distrib_right)
    moreover have "bytes_number (maskBytes bs (p - 8)) = bytes_number bs div 2 ^ d * 2 ^ d"
      unfolding d_def using Cons True by (intro Cons.IH) auto
    ultimately show ?thesis
      using True maskBytes_bytes [of bs] Cons.prems \<open>8 * length (b # bs) - p = d\<close>
      by (simp add: bytes_number_Cons pow mask_byte_def del: maskBytes_Nil)
  next
    case False
    define d where "d = 8 - p"
    have d: "8 * length (b # bs) - p = d + ?k" "min 8 p = p" "p - 8 = 0" using False by (auto simp: d_def)
    have "bytes_number (maskBytes bs 0) = 0" using Cons.IH [of 0] Cons.prems small by simp
    moreover have "(b * 2 ^ ?k + bytes_number bs) div 2 ^ (d + ?k) = b div 2 ^ d"
      using small by (simp add: power_add mult.commute [of "2 ^ d"] div_mult2_eq)
    ultimately show ?thesis
      unfolding d using Cons.prems False maskBytes_bytes [of bs]
      by (simp add: bytes_number_Cons pow mask_byte_div d d_def [symmetric] power_add)
  qed
qed (simp add: bytes_number_def)

lemma maskBytes_again: "\<forall>b \<in> set bs. b < 256 \<Longrightarrow> maskBytes (maskBytes bs p) p = maskBytes bs p"
proof (induction bs arbitrary: p)
  case (Cons b bs)
  have "mask_byte (min 8 p) b \<le> b" using Cons.prems by (simp add: mask_byte_div)
  then have "mask_byte (min 8 p) b < 256" using Cons.prems by (simp add: le_less_trans)
  then have "mask_byte (min 8 p) (mask_byte (min 8 p) b) = mask_byte (min 8 p) b"
    using mask_byte_div [of "mask_byte (min 8 p) b" "min 8 p"] mask_byte_div [of b "min 8 p"] Cons.prems by simp
  then show ?case using Cons by simp
qed simp

lemma maskBytes_nth: "i < length bs \<Longrightarrow> maskBytes bs p ! i = mask_byte (min 8 (p - 8 * i)) (bs ! i)"
proof (induction bs arbitrary: i p)
  case (Cons b bs)
  then show ?case by (cases i) (simp_all add: diff_diff_left)
qed simp

subsection \<open>Reading an entry back\<close>

text \<open>The network of an entry: its family, the length of its prefix and the bits of the prefix.\<close>

definition addr_number :: "string \<Rightarrow> nat" where
  "addr_number addr = (if is_v4 addr then v4_number (map dec_nat (split_dots addr)) else v6_number (v6_words addr))"

definition entry_network :: "string \<Rightarrow> nat \<times> nat \<times> nat" where
  "entry_network raw =
     (let parts = split_on (\<lambda>c. c = slash_char) (js_trim raw); addr = parts ! 0;
          width = (if net_isIP addr = 4 then 32 else 128);
          plen = (if length parts = 2 then dec_nat (parts ! 1) else width)
      in (net_isIP addr, plen, addr_number addr div 2 ^ (width - plen)))"

definition addr_text :: "nat \<Rightarrow> nat list \<Rightarrow> string" where
  "addr_text family bs = (if family = 4 then js_join [dot] (map nat_text bs) else formatIpv6 bs)"

definition addr_bytes :: "nat \<Rightarrow> string \<Rightarrow> nat list" where
  "addr_bytes family addr = (if family = 4 then ipv4Bytes addr else ipv6Bytes addr)"

definition mapped_bytes :: "nat list \<Rightarrow> bool" where
  "mapped_bytes bs \<longleftrightarrow> list_all (\<lambda>b. b = 0) (take 10 bs) \<and> bs ! 10 = 0xff \<and> bs ! 11 = 0xff"

text \<open>Addresses that may stand in a list: the bytes of their family, and not mapped.\<close>

definition addressable :: "nat \<Rightarrow> nat list \<Rightarrow> bool" where
  "addressable family bs \<longleftrightarrow> (\<forall>b \<in> set bs. b < 256)
     \<and> (family = 4 \<and> length bs = 4 \<or> family = 6 \<and> length bs = 16 \<and> \<not> mapped_bytes bs)"

definition width_of :: "nat \<Rightarrow> nat" where
  "width_of family = (if family = 4 then 32 else 128)"

lemma addressable_width: "addressable family bs \<Longrightarrow> 8 * length bs = width_of family"
  by (auto simp: addressable_def width_of_def)

lemma word_bytes_number: "bytes_number (word_bytes ws) = v6_number ws"
proof (induction ws rule: rev_induct)
  case (snoc w ws)
  have "bytes_number (word_bytes ws @ [w div 256, w mod 256]) = bytes_number (word_bytes ws) * 65536 + w"
    by (simp add: bytes_number_append) (simp add: bytes_number_def)
  then show ?case using snoc by (simp add: word_bytes_append v6_number_append) (simp add: word_bytes_def v6_number_def)
qed (simp add: word_bytes_def bytes_number_def v6_number_def)

lemma isIP_parts:
  assumes "net_isIP addr \<noteq> 0" and "CHR 0x25 \<notin> set addr"
  obtains "net_isIP addr = 4" "is_v4 addr" | "net_isIP addr = 6" "\<not> is_v4 addr" "v6_body addr"
proof -
  have "before_zone addr = addr" using assms(2) by (auto simp: before_zone_def takeWhile_eq_all_conv)
  then show ?thesis using assms(1) that by (auto simp: net_isIP_def is_v6_def split: if_splits)
qed

lemma word_bytes_small: "\<forall>w \<in> set ws. w < 65536 \<Longrightarrow> \<forall>b \<in> set (word_bytes ws). b < 256"
  by (induction ws) (auto simp: word_bytes_def)

text \<open>The bytes of a literal are its number.\<close>

lemma literal_bytes:
  assumes "net_isIP addr \<noteq> 0" and "CHR 0x25 \<notin> set addr"
  shows "bytes_number (addr_bytes (net_isIP addr) addr) = addr_number addr"
    and "\<forall>b \<in> set (addr_bytes (net_isIP addr) addr). b < 256"
    and "8 * length (addr_bytes (net_isIP addr) addr) = width_of (net_isIP addr)"
    and "net_isIP addr = 4 \<or> net_isIP addr = 6"
proof -
  have "bytes_number (addr_bytes (net_isIP addr) addr) = addr_number addr
    \<and> (\<forall>b \<in> set (addr_bytes (net_isIP addr) addr). b < 256)
    \<and> 8 * length (addr_bytes (net_isIP addr) addr) = width_of (net_isIP addr) \<and> (net_isIP addr = 4 \<or> net_isIP addr = 6)"
    using assms
  proof (cases rule: isIP_parts)
    case 1
    obtain a b c d where "split_dots addr = [a, b, c, d]" "v4_seg a" "v4_seg b" "v4_seg c" "v4_seg d"
      using 1(2) by (rule v4_parts)
    then show ?thesis
      using 1 v4_seg_bound by (simp add: addr_bytes_def addr_number_def ipv4Bytes_def bytes_number_def v4_number_def width_of_def)
  next
    case 2
    then show ?thesis
      using ipv6Bytes_body [OF 2(3)] v6_words_bound [OF 2(3)] word_bytes_small [of "v6_words addr"]
      by (simp add: addr_bytes_def addr_number_def word_bytes_number word_bytes_length width_of_def)
  qed
  then show "bytes_number (addr_bytes (net_isIP addr) addr) = addr_number addr" "\<forall>b \<in> set (addr_bytes (net_isIP addr) addr). b < 256"
    "8 * length (addr_bytes (net_isIP addr) addr) = width_of (net_isIP addr)" "net_isIP addr = 4 \<or> net_isIP addr = 6"
    by auto
qed

lemma no_address: "net_isIP [] = 0"
  by (simp add: net_isIP_def is_v4_def is_v6_def before_zone_def v6_body_def segments_def v6_count_def)

text \<open>The canonical text of the bytes of an address is a literal of its family with these bytes.\<close>

lemma text_reads:
  assumes "addressable family bs"
  shows "net_isIP (addr_text family bs) = family" and "addr_bytes family (addr_text family bs) = bs"
    and "list_all (\<lambda>c. hex_char c \<or> c = colon \<or> c = dot) (addr_text family bs)"
    and "addr_text family bs \<noteq> []" and "length (addr_text family bs) \<le> 40"
proof -
  have bytes: "\<forall>b \<in> set bs. b < 256" using assms by (simp add: addressable_def)
  have "net_isIP (addr_text family bs) = family \<and> addr_bytes family (addr_text family bs) = bs
    \<and> list_all (\<lambda>c. hex_char c \<or> c = colon \<or> c = dot) (addr_text family bs) \<and> length (addr_text family bs) \<le> 40"
  proof (cases "family = 4")
    case True
    then have len: "length bs = 4" using assms by (auto simp: addressable_def)
    have word: "list_all dec_char (nat_text b) \<and> v4_seg (nat_text b) \<and> length (nat_text b) \<le> 3" if "b \<in> set bs" for b
      using bytes that nat_text_dec v4_seg_text [of b] nat_text_short [of b] by auto
    have free: "list_all (\<lambda>c. c \<noteq> dot) w" if "w \<in> set (map nat_text bs)" for w
      using that nat_text_dec dec_free by auto
    have "split_dots (addr_text family bs) = map nat_text bs"
      unfolding addr_text_def using True len free by (subst if_P) (auto intro!: split_on_join)
    moreover have "map dec_nat (map nat_text bs) = bs" by (simp add: comp_def)
    moreover have "list_all (\<lambda>c. dec_char c \<or> c = dot) (addr_text family bs)"
    proof -
      have "list_all (\<lambda>c. dec_char c \<or> c = dot) w" if "w \<in> set (map nat_text bs)" for w
        using that nat_text_dec by (auto simp: list_all_iff)
      then have "list_all (\<lambda>c. dec_char c \<or> c = dot) (js_join [dot] (map nat_text bs))"
        by (intro list_all_join) auto
      then show ?thesis by (simp add: addr_text_def True)
    qed
    moreover have "length (js_join [dot] ws) \<le> 4 * length ws" if "\<forall>w \<in> set ws. length w \<le> 3" for ws
      using that by (induction "[dot]" ws rule: js_join.induct) auto
    from this [of "map nat_text bs"] have "length (addr_text family bs) \<le> 16" using True len word by (simp add: addr_text_def)
    ultimately show ?thesis
      using True len word by (auto simp: net_isIP_def is_v4_def addr_bytes_def ipv4Bytes_def list_all_iff hex_char_def hex_lower_def)
  next
    case False
    then have six: "family = 6" "length bs = 16" using assms by (auto simp: addressable_def)
    note f = format_words [OF six(2) bytes]
    have chars: "c \<in> set (formatIpv6 bs) \<Longrightarrow> hex_char c \<or> c = colon" for c using f(3) by (auto simp: list_all_iff)
    then have "dot \<notin> set (formatIpv6 bs)" "CHR 0x25 \<notin> set (formatIpv6 bs)" using not_digits by fastforce+
    then have "split_dots (formatIpv6 bs) = [formatIpv6 bs]" "before_zone (formatIpv6 bs) = formatIpv6 bs"
      by (auto intro!: split_on_free simp: list_all_iff before_zone_def takeWhile_eq_all_conv)
    then have "net_isIP (formatIpv6 bs) = 6" using f(1) by (simp add: net_isIP_def is_v4_def is_v6_def)
    moreover have "ipv6Bytes (formatIpv6 bs) = bs"
      using ipv6Bytes_body [OF f(1)] f(2) groups_of_bytes [of bs 8] six bytes by simp
    ultimately show ?thesis using f(3,4) six chars by (auto simp: addr_text_def addr_bytes_def list_all_iff)
  qed
  then show "net_isIP (addr_text family bs) = family" "addr_bytes family (addr_text family bs) = bs"
    "list_all (\<lambda>c. hex_char c \<or> c = colon \<or> c = dot) (addr_text family bs)" "length (addr_text family bs) \<le> 40"
    by auto
  then show "addr_text family bs \<noteq> []"
    using assms no_address by (auto simp: addressable_def)
qed

definition entry_text :: "nat \<Rightarrow> nat list \<Rightarrow> nat \<Rightarrow> string" where
  "entry_text family bs p = addr_text family (maskBytes bs p) @ [slash_char] @ nat_text p"

lemma mapped_masked: "length bs = 16 \<Longrightarrow> \<forall>b \<in> set bs. b < 256 \<Longrightarrow> mapped_bytes (maskBytes bs p) \<Longrightarrow> mapped_bytes bs"
proof -
  assume len: "length bs = 16" and bytes: "\<forall>b \<in> set bs. b < 256" and mapped: "mapped_bytes (maskBytes bs p)"
  have "96 \<le> p"
  proof (rule ccontr)
    assume "\<not> 96 \<le> p"
    define k where "k = 8 - min 8 (p - 88)"
    have k: "k = Suc (k - 1)" using \<open>\<not> 96 \<le> p\<close> by (simp add: k_def)
    have "maskBytes bs p ! 11 = bs ! 11 div 2 ^ k * 2 ^ k"
      using len bytes by (simp add: maskBytes_nth mask_byte_div k_def)
    also have "\<dots> = 2 * (bs ! 11 div 2 ^ k * 2 ^ (k - 1))" by (subst (2) k) simp
    finally have "even (maskBytes bs p ! 11)" by simp
    then show False using mapped by (simp add: mapped_bytes_def)
  qed
  then have same: "maskBytes bs p ! i = bs ! i" if "i < 12" for i
    using that len by (simp add: maskBytes_nth mask_byte_def)
  have "take 10 (maskBytes bs p) = take 10 bs"
    using len bytes maskBytes_bytes [of bs p] same by (intro nth_equalityI) auto
  then show ?thesis using mapped same [of 10] same [of 11] by (simp add: mapped_bytes_def)
qed

lemma addressable_masked: "addressable family bs \<Longrightarrow> addressable family (maskBytes bs p)"
  using maskBytes_bytes [of bs p] mapped_masked [of bs p] by (auto simp: addressable_def)

lemma entry_parts:
  assumes "addressable family bs" and "p < 1000"
  shows "js_trim (addr_text family bs @ [slash_char] @ nat_text p) = addr_text family bs @ [slash_char] @ nat_text p"
    and "split_on (\<lambda>c. c = slash_char) (addr_text family bs @ [slash_char] @ nat_text p) = [addr_text family bs, nat_text p]"
    and "CHR 0x25 \<notin> set (addr_text family bs)"
    and "length (addr_text family bs @ [slash_char] @ nat_text p) \<le> 64"
proof -
  note r = text_reads [OF assms(1)]
  have chars: "hex_char c \<or> c = colon \<or> c = dot" if "c \<in> set (addr_text family bs)" for c
    using r(3) that by (auto simp: list_all_iff)
  have digit: "hex_char c" if "c \<in> set (nat_text p)" for c
    using nat_text_dec [of p] that by (auto simp: list_all_iff hex_char_def hex_lower_def)
  have space: "\<not> js_space c" if "hex_char c \<or> c = colon \<or> c = dot \<or> c = slash_char" for c
    using that by (auto simp: js_space_def hex_char_def hex_lower_def dec_char_def slash_char_def)
  have slash: "c \<noteq> slash_char" if "hex_char c \<or> c = colon \<or> c = dot" for c
    using that by (auto simp: slash_char_def)
  show "js_trim (addr_text family bs @ [slash_char] @ nat_text p) = addr_text family bs @ [slash_char] @ nat_text p"
    using chars digit space by (intro trim_free) (auto simp: list_all_iff)
  have "list_all (\<lambda>c. c \<noteq> slash_char) (addr_text family bs)" "list_all (\<lambda>c. c \<noteq> slash_char) (nat_text p)"
    using chars digit slash by (auto simp: list_all_iff)
  then show "split_on (\<lambda>c. c = slash_char) (addr_text family bs @ [slash_char] @ nat_text p) = [addr_text family bs, nat_text p]"
    by (simp add: split_on_sep split_on_free)
  show "CHR 0x25 \<notin> set (addr_text family bs)" using chars by (auto dest: chars)
  show "length (addr_text family bs @ [slash_char] @ nat_text p) \<le> 64"
    using r(5) nat_text_short [OF assms(2)] by simp
qed

lemma width_bound: "width_of family \<le> 128" "width_of 4 = 32" "width_of 6 = 128"
  by (simp_all add: width_of_def)

lemma entry_reads:
  assumes "addressable family bs" and "0 < p" and "p \<le> width_of family"
  shows "normaliseAllowlistEntry (addr_text family bs @ [slash_char] @ nat_text p) = Inr (entry_text family bs p)"
    and "entry_network (addr_text family bs @ [slash_char] @ nat_text p) = (family, p, bytes_number bs div 2 ^ (width_of family - p))"
proof -
  have p: "p < 1000" using assms(3) width_bound(1) [of family] by linarith
  note e = entry_parts [OF assms(1) p] and r = text_reads [OF assms(1)]
  have fam: "family = 4 \<and> length bs = 4 \<or> family = 6 \<and> \<not> mapped_bytes bs" using assms(1) by (auto simp: addressable_def)
  have num: "list_all dec_char (nat_text p)" "1 \<le> length (nat_text p)" "length (nat_text p) \<le> 3"
    using nat_text_dec nat_text_short [OF p] by (auto simp: Suc_le_eq)
  show "normaliseAllowlistEntry (addr_text family bs @ [slash_char] @ nat_text p) = Inr (entry_text family bs p)"
    using fam
  proof
    assume "family = 4 \<and> length bs = 4"
    then show ?thesis
      using e r num assms(2,3) unfolding normaliseAllowlistEntry_def Let_def e(1)
      by (simp add: addr_bytes_def addr_text_def entry_text_def width_of_def)
  next
    assume "family = 6 \<and> \<not> mapped_bytes bs"
    then show ?thesis
      using e r num assms(2,3) unfolding normaliseAllowlistEntry_def Let_def e(1)
      by (simp add: addr_bytes_def addr_text_def entry_text_def width_of_def mapped_bytes_def)
  qed
  have "bytes_number bs = addr_number (addr_text family bs)"
    using literal_bytes(1) [of "addr_text family bs"] r(1,2) e(3) fam by auto
  then show "entry_network (addr_text family bs @ [slash_char] @ nat_text p) = (family, p, bytes_number bs div 2 ^ (width_of family - p))"
    unfolding entry_network_def Let_def e(1,2) using r(1) by (simp add: width_of_def)
qed

subsection \<open>What a stored list admits\<close>

lemma accepted_entry:
  assumes "normaliseAllowlistEntry raw = Inr n"
  obtains family bs p where "addressable family bs" "0 < p" "p \<le> width_of family" "n = entry_text family bs p"
    "entry_network raw = (family, p, bytes_number bs div 2 ^ (width_of family - p))"
proof -
  obtain parts where parts: "split_on (\<lambda>c. c = slash_char) (js_trim raw) = parts" by blast
  let ?addr = "parts ! 0" and ?fam = "net_isIP (parts ! 0)"
  let ?width = "if ?fam = 4 then 32 else 128 :: nat"
  let ?p = "if length parts = 2 then dec_nat (parts ! 1) else ?width"
  let ?bs = "addr_bytes ?fam ?addr"
  have ok: "CHR 0x25 \<notin> set ?addr" "?fam \<noteq> 0" "0 < ?p \<and> ?p \<le> ?width" "\<not> (?fam = 6 \<and> mapped_bytes ?bs)" "n = entry_text ?fam ?bs ?p"
    using assms unfolding normaliseAllowlistEntry_def Let_def parts
    by (auto simp: addr_bytes_def mapped_bytes_def entry_text_def addr_text_def split: if_splits)
  note lit = literal_bytes [OF ok(2,1)]
  have width: "width_of ?fam = ?width" by (simp add: width_of_def)
  have "addressable ?fam ?bs" using lit ok(4) by (auto simp: addressable_def width_of_def)
  moreover have "entry_network raw = (?fam, ?p, bytes_number ?bs div 2 ^ (width_of ?fam - ?p))"
    using lit(1) unfolding entry_network_def Let_def parts width by simp
  ultimately show ?thesis using that ok(3,5) width by simp
qed

lemma entry_canonical:
  assumes "normaliseAllowlistEntry raw = Inr n"
  shows "normaliseAllowlistEntry n = Inr n" and "entry_network n = entry_network raw" and "0 < fst (snd (entry_network raw))"
proof -
  obtain family bs p where b: "addressable family bs" "0 < p" "p \<le> width_of family" "n = entry_text family bs p"
    "entry_network raw = (family, p, bytes_number bs div 2 ^ (width_of family - p))"
    using assms by (rule accepted_entry)
  have bytes: "\<forall>b \<in> set bs. b < 256" using b(1) by (simp add: addressable_def)
  note r = entry_reads [OF addressable_masked [OF b(1)] b(2,3), of p]
  show "normaliseAllowlistEntry n = Inr n"
    using r(1) maskBytes_again [OF bytes, of p] by (simp add: b(4) entry_text_def)
  have "bytes_number (maskBytes bs p) div 2 ^ (width_of family - p) = bytes_number bs div 2 ^ (width_of family - p)"
    using maskBytes_number [OF bytes, of p] addressable_width [OF b(1)] b(3) by simp
  then show "entry_network n = entry_network raw" using r(2) b(5) by (simp add: b(4) entry_text_def)
  show "0 < fst (snd (entry_network raw))" using b(2,5) by simp
qed

text \<open>Two accepted entries have one canonical text exactly when they name one network.\<close>

lemma entry_distinct:
  assumes "normaliseAllowlistEntry r1 = Inr n1" and "normaliseAllowlistEntry r2 = Inr n2"
  shows "n1 = n2 \<longleftrightarrow> entry_network r1 = entry_network r2"
proof
  assume "n1 = n2"
  then show "entry_network r1 = entry_network r2"
    using entry_canonical(2) [OF assms(1)] entry_canonical(2) [OF assms(2)] by simp
next
  assume same: "entry_network r1 = entry_network r2"
  obtain family bs p where b: "addressable family bs" "p \<le> width_of family" "n1 = entry_text family bs p"
    "entry_network r1 = (family, p, bytes_number bs div 2 ^ (width_of family - p))"
    using assms(1) by (rule accepted_entry)
  obtain family' cs p' where c: "addressable family' cs" "n2 = entry_text family' cs p'"
    "entry_network r2 = (family', p', bytes_number cs div 2 ^ (width_of family' - p'))"
    using assms(2) by (rule accepted_entry)
  have eq: "family' = family" "p' = p" "bytes_number cs div 2 ^ (width_of family - p) = bytes_number bs div 2 ^ (width_of family - p)"
    using same b(4) c(3) by auto
  have bytes: "\<forall>b \<in> set bs. b < 256" "\<forall>b \<in> set cs. b < 256" using b(1) c(1) by (simp_all add: addressable_def)
  have len: "8 * length bs = width_of family" "8 * length cs = width_of family" "length bs = length cs"
    using addressable_width [OF b(1)] addressable_width [OF c(1)] eq(1) by simp_all
  have "bytes_number (maskBytes bs p) = bytes_number (maskBytes cs p)"
    using maskBytes_number [OF bytes(1), of p] maskBytes_number [OF bytes(2), of p] len b(2) eq(3) by simp
  then have "maskBytes bs p = maskBytes cs p"
    using maskBytes_bytes [OF bytes(1), of p] maskBytes_bytes [OF bytes(2), of p] len(3) by (intro bytes_number_inject) auto
  then show "n1 = n2" using b(3) c(2) eq by (simp add: entry_text_def)
qed

text \<open>The list: what the loop has collected so far.\<close>

definition canonical :: "string list \<Rightarrow> bool" where
  "canonical out \<longleftrightarrow> (\<forall>n \<in> set out. normaliseAllowlistEntry n = Inr n) \<and> distinct out"

lemma canonical_networks: "canonical out \<Longrightarrow> distinct (map entry_network out)"
  unfolding canonical_def distinct_map inj_on_def using entry_distinct by blast

lemma collect_canonical:
  assumes "collect_entries entries out = Inr res" and "canonical out"
  shows "canonical res \<and> entry_network ` set res = entry_network ` set out \<union> entry_network ` set entries \<and> set out \<subseteq> set res
    \<and> list_all (\<lambda>e. 0 < fst (snd (entry_network e))) entries"
  using assms
proof (induction entries out rule: collect_entries.induct)
  case (2 e es out)
  from 2(2) obtain n where n: "normaliseAllowlistEntry e = Inr n" "collect_entries es (if n \<in> set out then out else out @ [n]) = Inr res"
    by (auto simp: rbind_ok)
  have "canonical (if n \<in> set out then out else out @ [n])"
    using 2(3) entry_canonical(1) [OF n(1)] by (auto simp: canonical_def)
  note rest = 2(1) [OF n(2) this]
  have "entry_network ` set (if n \<in> set out then out else out @ [n]) = insert (entry_network e) (entry_network ` set out)"
    using entry_canonical(2) [OF n(1)] image_eqI [of "entry_network e" entry_network n] by auto
  then show ?case using rest entry_canonical(3) [OF n(1)] by (auto split: if_splits)
qed auto

lemma collect_same: "canonical (out @ entries) \<Longrightarrow> collect_entries entries out = Inr (out @ entries)"
proof (induction entries arbitrary: out)
  case (Cons e es)
  from Cons(1) [of "out @ [e]"] Cons(2) show ?case by (auto simp: canonical_def)
qed simp

text \<open>
  Claim C12. The list \<open>normaliseAllowlist\<close> returns admits exactly the networks its input names, each of
  them once, and never the whole internet (no prefix of length 0); it is in canonical form, so that
  normalising what was stored changes nothing, and it has between 1 and 100 entries.
\<close>

theorem stored_list_is_canonical:
  assumes "normaliseAllowlist entries = Inr out"
  shows "normaliseAllowlist out = Inr out
    \<and> entry_network ` set out = entry_network ` set entries
    \<and> distinct (map entry_network out)
    \<and> list_all (\<lambda>n. 0 < fst (snd (entry_network n))) out
    \<and> 1 \<le> length out \<and> length out \<le> 100"
proof -
  have res: "entries \<noteq> []" "collect_entries entries [] = Inr out" "length out \<le> 100"
    using assms by (auto simp: normaliseAllowlist_def rbind_ok PUBLIC_ACCESS_ALLOWLIST_MAX_def split: if_splits)
  have out: "canonical out" "entry_network ` set out = entry_network ` set entries"
    "list_all (\<lambda>e. 0 < fst (snd (entry_network e))) entries"
    using collect_canonical [OF res(2)] by (simp_all add: canonical_def)
  have ne: "out \<noteq> []" using out(2) res(1) by auto
  have "collect_entries out [] = Inr out" using collect_same [of "[]" out] out(1) by simp
  then have again: "normaliseAllowlist out = Inr out"
    using ne res(3) by (simp add: normaliseAllowlist_def PUBLIC_ACCESS_ALLOWLIST_MAX_def)
  have "list_all (\<lambda>n. 0 < fst (snd (entry_network n))) out"
    using out(1) entry_canonical(3) unfolding canonical_def list_all_iff by blast
  then show ?thesis using again out canonical_networks [OF out(1)] ne res(3) by (auto simp: Suc_le_eq)
qed

lemma example_v4: "normaliseAllowlistEntry ''10.4.2.3/8'' = Inr ''10.0.0.0/8''"
proof -
  have trim: "js_trim ''10.4.2.3/8'' = ''10.4.2.3/8''" by (simp add: js_trim_def js_space_def)
  have cut: "split_on (\<lambda>c. c = slash_char) ''10.4.2.3/8'' = [''10.4.2.3'', ''8'']" by (simp add: slash_char_def)
  have ip: "net_isIP ''10.4.2.3'' = 4" by (simp add: net_isIP_def is_v4_def v4_seg_def dec_char_def dec_nat_def)
  have num: "ipv4Bytes ''10.4.2.3'' = [10, 4, 2, 3]" "dec_nat ''8'' = 8" by (simp_all add: ipv4Bytes_def dec_nat_def)
  have out: "maskBytes [10, 4, 2, 3] 8 = [10, 0, 0, 0]" by (simp add: mask_byte_def)
  have shown: "nat_text 10 = ''10''" "nat_text 0 = ''0''" "nat_text 8 = ''8''"
    by code_simp+
  show ?thesis
    unfolding normaliseAllowlistEntry_def trim Let_def cut
    by (simp add: ip num out shown slash_char_def dec_char_def del: maskBytes_Cons)
qed

lemma example_v6: "normaliseAllowlistEntry '' 2001:DB8::2'' = Inr ''2001:db8::2/128''"
proof -
  have trim: "js_trim '' 2001:DB8::2'' = ''2001:DB8::2''" by (simp add: js_trim_def js_space_def)
  have cut: "split_on (\<lambda>c. c = slash_char) ''2001:DB8::2'' = [''2001:DB8::2'']" by (simp add: slash_char_def)
  have ip: "net_isIP ''2001:DB8::2'' = 6"
    by (simp add: net_isIP_def is_v4_def is_v6_def before_zone_def v6_body_def segments_def v6_count_def v6_seg_def hex_char_def
        hex_lower_def dec_char_def)
  have halves: "halves ''2001:DB8::2'' = [''2001:DB8'', ''2'']" by simp
  have segs: "segments ''2001:DB8'' = [''2001'', ''DB8'']" "segments ''2'' = [''2'']" by (simp_all add: segments_def)
  have hex: "hex_nat ''2001'' = 0x2001" "hex_nat ''DB8'' = 0xdb8" "hex_nat ''2'' = 2" "hex_nat ''0'' = 0"
    by (simp_all add: hex_nat_def hex_val_def)
  have free: "dot \<notin> set (after_colon ''2001:DB8::2'')" by (simp add: after_colon_def)
  have five: "replicate 5 x = [x, x, x, x, x]" for x :: nat by (simp add: numeral_eq_Suc)
  have num: "ipv6Bytes ''2001:DB8::2'' = word_bytes [0x2001, 0xdb8, 0, 0, 0, 0, 0, 2]"
    using free by (simp add: ipv6Bytes_def Let_def halves segs hex five bytes_of_groups)
  have bytes: "word_bytes [0x2001, 0xdb8, 0, 0, 0, 0, 0, 2] = [0x20, 0x01, 0x0d, 0xb8, 0, 0, 0, 0, 0, 0, 0, 0, 0, 0, 0, 2]"
    by (simp add: word_bytes_def)
  have out: "maskBytes bs 128 = bs" if "length bs = 16" for bs
    using that by (intro nth_equalityI) (auto simp: maskBytes_def nth_enumerate_eq)
  have digit: "hex_digit 2 = CHR ''2''" "hex_digit 0 = CHR ''0''" "hex_digit (Suc 0) = CHR ''1''" "hex_digit 8 = CHR ''8''"
    "hex_digit 13 = CHR ''d''" "hex_digit 11 = CHR ''b''"
    by code_simp+
  have hexes: "hex_text 0x2001 = ''2001''" "hex_text 0xdb8 = ''db8''" "hex_text 0 = ''0''" "hex_text 2 = ''2''"
    by (simp_all add: digit hex_text.simps [of "0x2001"] hex_text.simps [of "0x200"] hex_text.simps [of "0x20"] hex_text.simps [of 0]
        hex_text.simps [of 2] hex_text.simps [of "0xdb8"] hex_text.simps [of "0xdb"] hex_text.simps [of "0xd"])
  have printed: "formatIpv6 [0x20, 0x01, 0x0d, 0xb8, 0, 0, 0, 0, 0, 0, 0, 0, 0, 0, 0, 2] = ''2001:db8::2''"
    using hexes by (simp add: formatIpv6_def push_or)
  have shown: "nat_text 128 = ''128''"
    by code_simp
  show ?thesis
    unfolding normaliseAllowlistEntry_def trim Let_def cut
    using printed by (simp add: ip num bytes out shown slash_char_def dec_char_def del: maskBytes_Cons)
qed

theorem stored_list_is_canonical_witness:
  "\<exists>out. normaliseAllowlist [''10.4.2.3/8'', '' 2001:DB8::2'', ''10.0.0.0/8''] = Inr out
     \<and> out = [''10.0.0.0/8'', ''2001:db8::2/128''] \<and> normaliseAllowlist out = Inr out"
proof -
  have "normaliseAllowlistEntry ''10.0.0.0/8'' = Inr ''10.0.0.0/8''" using entry_canonical(1) [OF example_v4] .
  then have "normaliseAllowlist [''10.4.2.3/8'', '' 2001:DB8::2'', ''10.0.0.0/8''] = Inr [''10.0.0.0/8'', ''2001:db8::2/128'']"
    by (simp add: normaliseAllowlist_def example_v4 example_v6 PUBLIC_ACCESS_ALLOWLIST_MAX_def)
  then show ?thesis using stored_list_is_canonical by blast
qed

end
