(* ===== verification/CiJobs.thy ===== *)
theory CiJobs
  imports NetAddress "HOL-Library.Char_ord" "HOL-Library.List_Lexorder"
begin

text \<open>
  CI jobs run by enrolled runners (\<open>apps/server/src/lib/ci.ts\<close>), and the commit the source
  download pins on a job (\<open>lib/ciSource.ts\<close>). Every operation that writes more than one row awaits
  between its statements; it is split there into tasks, one per statement that is still to run, with
  the row snapshots it holds. Anything may run between two tasks of one operation.

  Lease tokens are random: the hash of a new one is an input. The checkout of a source is an
  input too (the commit it resolved to). Log data are 8-bit characters, one byte each.
\<close>

subsection \<open>Tables\<close>

datatype job_status = JobAwaiting | JobQueued | JobRunning | JobSucceeded | JobFailed | JobCancelled

datatype attempt_status = AtRunning | AtSucceeded | AtFailed | AtLost | AtCancelled

record ci_runner =
  ru_id :: int
  ru_labels :: "string list"
  ru_capacity :: nat
  ru_version :: "string option"
  ru_seen :: "ms option"
  ru_revoked :: "ms option"

record ci_job =
  jb_id :: int
  jb_service :: int
  jb_status :: job_status
  jb_commit :: "string option"
  jb_ref :: "string option"
  jb_image :: string
  jb_script :: string
  jb_labels :: "string list"
  jb_secrets :: "string list"
  jb_timeout :: nat
  jb_max :: nat
  jb_attempts :: nat
  jb_current :: "int option"
  jb_trigger :: string
  jb_deployment :: "int option"
  jb_created_by :: "int option"
  jb_approved_by :: "int option"
  jb_cancelled_by :: "int option"
  jb_error :: "string option"
  jb_started :: "ms option"
  jb_finished :: "ms option"

record ci_attempt =
  at_id :: int
  at_job :: int
  at_runner :: int
  at_number :: nat
  at_status :: attempt_status
  at_lease :: string
  at_expires :: ms
  at_log_bytes :: nat
  at_log_seq :: nat
  at_exit :: "int option"
  at_error :: "string option"
  at_finished :: "ms option"

text \<open>The definition of a pipeline, validated by the schema when it is read.\<close>

record ci_pipeline =
  pl_image :: string
  pl_script :: string
  pl_labels :: "string list"
  pl_secrets :: "string list"
  pl_timeout_minutes :: nat
  pl_max_attempts :: nat
  pl_require_approval :: bool
  pl_run_on_push :: bool
  pl_gate_deploys :: bool

record ci_tables =
  ct_runners :: "ci_runner list"
  ct_jobs :: "ci_job list"
  ct_attempts :: "ci_attempt list"
  ct_next_job :: int
  ct_next_attempt :: int
  ct_logs :: "((int \<times> nat) \<times> string) list"

definition find_job :: "int \<Rightarrow> ci_tables \<Rightarrow> ci_job option" where
  "find_job i ct = List.find (\<lambda>j. jb_id j = i) (ct_jobs ct)"

definition find_attempt :: "int \<Rightarrow> ci_tables \<Rightarrow> ci_attempt option" where
  "find_attempt i ct = List.find (\<lambda>a. at_id a = i) (ct_attempts ct)"

text \<open>Conditional updates with the number of rows they changed.\<close>

definition update_jobs :: "(ci_job \<Rightarrow> bool) \<Rightarrow> (ci_job \<Rightarrow> ci_job) \<Rightarrow> ci_tables \<Rightarrow> nat \<times> ci_tables" where
  "update_jobs P f ct =
     (length (filter P (ct_jobs ct)), ct\<lparr>ct_jobs := map (\<lambda>j. if P j then f j else j) (ct_jobs ct)\<rparr>)"

definition update_attempts :: "(ci_attempt \<Rightarrow> bool) \<Rightarrow> (ci_attempt \<Rightarrow> ci_attempt) \<Rightarrow> ci_tables \<Rightarrow> nat \<times> ci_tables" where
  "update_attempts P f ct =
     (length (filter P (ct_attempts ct)), ct\<lparr>ct_attempts := map (\<lambda>a. if P a then f a else a) (ct_attempts ct)\<rparr>)"

subsection \<open>Constants\<close>

definition CI_LEASE_MS :: ms where
  "CI_LEASE_MS = 60000"

definition MAX_LOG_BYTES :: nat where
  "MAX_LOG_BYTES = 8 * 1024 * 1024"

text \<open>\<open>/^[0-9a-f]{40}$/i\<close>.\<close>

definition is_sha :: "string \<Rightarrow> bool" where
  "is_sha s \<longleftrightarrow> list_all hex_char s \<and> length s = 40"

subsection \<open>Runners and jobs\<close>

definition touchRunner :: "ci_runner \<Rightarrow> string option \<Rightarrow> ms \<Rightarrow> ci_tables \<Rightarrow> ci_tables" where
  "touchRunner runner version now ct =
     ct\<lparr>ct_runners := map (\<lambda>r. if ru_id r = ru_id runner
          then r\<lparr>ru_seen := Some now, ru_version := (if version = None then ru_version r else version)\<rparr> else r) (ct_runners ct)\<rparr>"

definition createJob ::
  "int \<Rightarrow> ci_pipeline \<Rightarrow> string option \<Rightarrow> string \<Rightarrow> int option \<Rightarrow> int option \<Rightarrow> bool \<Rightarrow> ci_tables \<Rightarrow> ci_job \<times> ci_tables" where
  "createJob service pipeline ref trigger user deployment requireApproval ct =
     (let job = \<lparr>jb_id = ct_next_job ct, jb_service = service,
            jb_status = (if pl_require_approval pipeline \<or> requireApproval then JobAwaiting else JobQueued),
            jb_commit = (case ref of None \<Rightarrow> None | Some r \<Rightarrow> if is_sha r then Some (js_lower r) else None), jb_ref = ref,
            jb_image = pl_image pipeline, jb_script = pl_script pipeline,
            jb_labels = sort (js_unique (pl_labels pipeline)), jb_secrets = js_unique (pl_secrets pipeline),
            jb_timeout = pl_timeout_minutes pipeline * 60, jb_max = pl_max_attempts pipeline, jb_attempts = 0,
            jb_current = None, jb_trigger = trigger, jb_deployment = deployment, jb_created_by = user,
            jb_approved_by = None, jb_cancelled_by = None, jb_error = None, jb_started = None, jb_finished = None\<rparr>
      in (job, ct\<lparr>ct_jobs := ct_jobs ct @ [job], ct_next_job := ct_next_job ct + 1\<rparr>))"

definition approveJob :: "int \<Rightarrow> int \<Rightarrow> ci_tables \<Rightarrow> bool \<times> ci_tables" where
  "approveJob jobId userId ct =
     (case update_jobs (\<lambda>j. jb_id j = jobId \<and> jb_status j = JobAwaiting)
             (\<lambda>j. j\<lparr>jb_status := JobQueued, jb_approved_by := Some userId\<rparr>) ct of
        (n, ct') \<Rightarrow> (n = 1, ct'))"

definition unfinished :: "job_status \<Rightarrow> bool" where
  "unfinished s \<longleftrightarrow> s \<in> {JobAwaiting, JobQueued, JobRunning}"

subsection \<open>Tasks\<close>

datatype ci_result = Result (res_ok: bool) (res_exit: "int option") (res_error: "string option")

text \<open>What a runner asks for with the lease of an attempt.\<close>

datatype lease_request = Beat ci_runner ms | Finish ci_result ms | Log nat string | Source

datatype ci_task =
    WithLease ci_attempt lease_request
  | ClaimFlip ci_runner "ci_job list"
  | ClaimInsert ci_runner ci_job
  | ClaimPoint ci_job int
  | RenewLease ci_attempt
  | FinishClose ci_attempt ci_job ci_result
  | FinishJob ci_attempt ci_job ci_result
  | LoseMark ci_attempt string
  | LoseRead ci_attempt string
  | LoseJob ci_attempt ci_job string
  | CancelUpdate ci_job "int option"
  | CancelAttempt ci_job
  | ReadSource ci_job
  | PinSource ci_job

text \<open>What a statement gets from outside: the clock of its caller, the hash of a fresh lease token, the resolved commit.\<close>

record ci_input =
  ci_now :: ms
  ci_hash :: string
  ci_commit :: string

subsection \<open>Claims\<close>

definition labelsFit :: "string list \<Rightarrow> string list \<Rightarrow> bool" where
  "labelsFit wanted has \<longleftrightarrow> list_all (\<lambda>l. l \<in> set has) wanted"

definition claimJob :: "ci_runner \<Rightarrow> nat \<Rightarrow> string option \<Rightarrow> ms \<Rightarrow> ci_tables \<Rightarrow> ci_task option \<times> ci_tables" where
  "claimJob runner reported version now ct =
     (let ct = touchRunner runner version now ct;
          live = length (filter (\<lambda>a. at_runner a = ru_id runner \<and> at_status a = AtRunning) (ct_attempts ct))
      in if max reported live \<ge> ru_capacity runner then (None, ct)
         else (Some (ClaimFlip runner (take 50 (sort_key jb_id (filter (\<lambda>j. jb_status j = JobQueued) (ct_jobs ct))))), ct))"

definition claim_flip :: "ci_input \<Rightarrow> ci_runner \<Rightarrow> ci_job list \<Rightarrow> ci_tables \<Rightarrow> ci_task option \<times> ci_tables" where
  "claim_flip inp runner queued ct =
     (case dropWhile (\<lambda>j. \<not> labelsFit (jb_labels j) (ru_labels runner)) queued of
        [] \<Rightarrow> (None, ct)
      | job # rest \<Rightarrow>
          (case update_jobs (\<lambda>j. jb_id j = jb_id job \<and> jb_status j = JobQueued)
                  (\<lambda>j. j\<lparr>jb_status := JobRunning, jb_attempts := jb_attempts j + 1,
                         jb_started := (if jb_started job = None then Some (ci_now inp) else jb_started job)\<rparr>) ct of
             (n, ct') \<Rightarrow> (Some (if n = 1 then ClaimInsert runner job else ClaimFlip runner rest), ct')))"

text \<open>The insert fails where the row exists already (attempts of a job are numbered once, lease hashes are unique) or the job is gone.\<close>

definition insert_fails :: "ci_job \<Rightarrow> string \<Rightarrow> ci_tables \<Rightarrow> bool" where
  "insert_fails job hash ct \<longleftrightarrow> find_job (jb_id job) ct = None
     \<or> list_ex (\<lambda>a. at_job a = jb_id job \<and> at_number a = jb_attempts job + 1 \<or> at_lease a = hash) (ct_attempts ct)"

definition claim_insert :: "ci_input \<Rightarrow> ci_runner \<Rightarrow> ci_job \<Rightarrow> ci_tables \<Rightarrow> ci_task option \<times> ci_tables" where
  "claim_insert inp runner job ct =
     (if insert_fails job (ci_hash inp) ct then (None, ct)
      else (Some (ClaimPoint job (ct_next_attempt ct)),
            ct\<lparr>ct_attempts := ct_attempts ct @ [\<lparr>at_id = ct_next_attempt ct, at_job = jb_id job, at_runner = ru_id runner,
                  at_number = jb_attempts job + 1, at_status = AtRunning, at_lease = ci_hash inp,
                  at_expires = ci_now inp + CI_LEASE_MS, at_log_bytes = 0, at_log_seq = 0, at_exit = None, at_error = None,
                  at_finished = None\<rparr>],
               ct_next_attempt := ct_next_attempt ct + 1\<rparr>))"

definition claim_point :: "ci_job \<Rightarrow> int \<Rightarrow> ci_tables \<Rightarrow> ci_tables" where
  "claim_point job attemptId ct =
     snd (update_jobs (\<lambda>j. jb_id j = jb_id job) (\<lambda>j. j\<lparr>jb_current := Some attemptId\<rparr>) ct)"

subsection \<open>The attempt of a lease\<close>

text \<open>\<open>attemptForLease\<close> up to the read of the job, which its task does.\<close>

definition attemptForLease :: "ci_runner \<Rightarrow> int \<Rightarrow> string option \<Rightarrow> lease_request \<Rightarrow> ci_tables \<Rightarrow> ci_task option" where
  "attemptForLease runner attemptId leaseHash req ct =
     (case find_attempt attemptId ct of
        None \<Rightarrow> None
      | Some a \<Rightarrow>
          if at_runner a \<noteq> ru_id runner \<or> leaseHash = None \<or> Some (at_lease a) \<noteq> leaseHash then None
          else Some (WithLease a req))"

definition isCurrent :: "ci_attempt \<Rightarrow> ci_job \<Rightarrow> bool" where
  "isCurrent attempt job \<longleftrightarrow>
     at_status attempt = AtRunning \<and> jb_status job = JobRunning \<and> jb_current job = Some (at_id attempt)"

datatype beat = Continue | Stop string

text \<open>\<open>heartbeat\<close> up to its update; the task renews the lease.\<close>

definition heartbeat :: "ci_runner \<Rightarrow> ci_attempt \<Rightarrow> ci_job \<Rightarrow> ms \<Rightarrow> ci_tables \<Rightarrow> (beat + ci_task) \<times> ci_tables" where
  "heartbeat runner attempt job now ct =
     (let ct = touchRunner runner None now ct in
      if \<not> isCurrent attempt job then (Inl (Stop (if jb_status job = JobCancelled then ''cancelled'' else ''superseded'')), ct)
      else (Inr (RenewLease attempt), ct))"

definition renew_lease :: "ms \<Rightarrow> ci_attempt \<Rightarrow> ci_tables \<Rightarrow> beat \<times> ci_tables" where
  "renew_lease now attempt ct =
     (case update_attempts (\<lambda>a. at_id a = at_id attempt \<and> at_status a = AtRunning) (\<lambda>a. a\<lparr>at_expires := now + CI_LEASE_MS\<rparr>) ct of
        (n, ct') \<Rightarrow> (if n = 1 then Continue else Stop ''superseded'', ct'))"

subsection \<open>Logs\<close>

datatype log_error = AttemptOver | ExpectedChunk nat | ConcurrentWrite

definition cut_note :: string where
  "cut_note = [CHR 0x0A] @ ''[log cut at '' @ nat_text MAX_LOG_BYTES @ '' bytes]'' @ [CHR 0x0A]"

definition log_chunk :: "nat \<Rightarrow> string \<Rightarrow> string" where
  "log_chunk used data =
     (if MAX_LOG_BYTES \<le> used then []
      else if length data > MAX_LOG_BYTES - used then take (MAX_LOG_BYTES - used) data @ cut_note
      else data)"

text \<open>The chunk, \<open>attempt\<close> being the row its request read: stored or repeated, and the file.\<close>

definition appendLog :: "ci_attempt \<Rightarrow> nat \<Rightarrow> string \<Rightarrow> ci_tables \<Rightarrow> (log_error + bool) \<times> ci_tables" where
  "appendLog attempt seq data ct =
     (if at_status attempt \<noteq> AtRunning then (Inl AttemptOver, ct)
      else if seq \<le> at_log_seq attempt then (Inr False, ct)
      else if seq \<noteq> at_log_seq attempt + 1 then (Inl (ExpectedChunk (at_log_seq attempt + 1)), ct)
      else
        let chunk = log_chunk (at_log_bytes attempt) data; file = (at_job attempt, at_number attempt) in
        case update_attempts (\<lambda>a. at_id a = at_id attempt \<and> at_log_seq a = at_log_seq attempt \<and> at_status a = AtRunning)
               (\<lambda>a. a\<lparr>at_log_seq := seq, at_log_bytes := at_log_bytes a + length chunk\<rparr>) ct of
          (n, ct') \<Rightarrow>
            if n \<noteq> 1 then (Inl ConcurrentWrite, ct')
            else (Inr True, if chunk = [] then ct'
                  else ct'\<lparr>ct_logs := AList.update file ((case map_of (ct_logs ct') file of None \<Rightarrow> [] | Some t \<Rightarrow> t) @ chunk) (ct_logs ct')\<rparr>))"

subsection \<open>Results\<close>

definition finishAttempt :: "ci_attempt \<Rightarrow> ci_job \<Rightarrow> ci_result \<Rightarrow> ms \<Rightarrow> ci_task option" where
  "finishAttempt attempt job result now =
     (if \<not> isCurrent attempt job \<or> at_expires attempt < now then None else Some (FinishClose attempt job result))"

definition finish_close :: "ms \<Rightarrow> ci_attempt \<Rightarrow> ci_job \<Rightarrow> ci_result \<Rightarrow> ci_tables \<Rightarrow> ci_task option \<times> ci_tables" where
  "finish_close now attempt job result ct =
     (case update_attempts (\<lambda>a. at_id a = at_id attempt \<and> at_status a = AtRunning)
             (\<lambda>a. a\<lparr>at_status := (if res_ok result then AtSucceeded else AtFailed), at_exit := res_exit result,
                    at_error := res_error result, at_finished := Some now\<rparr>) ct of
        (n, ct') \<Rightarrow> (if n = 1 then Some (FinishJob attempt job result) else None, ct'))"

definition exit_text :: "int option \<Rightarrow> string" where
  "exit_text e = (case e of None \<Rightarrow> ''null'' | Some k \<Rightarrow> if k < 0 then ''-'' @ nat_text (nat (- k)) else nat_text (nat k))"

definition finish_job :: "ms \<Rightarrow> ci_attempt \<Rightarrow> ci_job \<Rightarrow> ci_result \<Rightarrow> ci_tables \<Rightarrow> ci_tables" where
  "finish_job now attempt job result ct =
     snd (update_jobs (\<lambda>j. jb_id j = jb_id job \<and> jb_status j = JobRunning \<and> jb_current j = Some (at_id attempt))
       (\<lambda>j. j\<lparr>jb_status := (if res_ok result then JobSucceeded else JobFailed), jb_finished := Some now,
              jb_error := (if res_ok result then None
                else Some (case res_error result of Some e \<Rightarrow> e | None \<Rightarrow> ''Exited with '' @ exit_text (res_exit result)))\<rparr>) ct)"

subsection \<open>Lost attempts\<close>

definition lose_mark :: "ms \<Rightarrow> ci_attempt \<Rightarrow> string \<Rightarrow> ci_tables \<Rightarrow> ci_task option \<times> ci_tables" where
  "lose_mark now attempt reason ct =
     (case update_attempts (\<lambda>a. at_id a = at_id attempt \<and> at_status a = AtRunning)
             (\<lambda>a. a\<lparr>at_status := AtLost, at_error := Some reason, at_finished := Some now\<rparr>) ct of
        (n, ct') \<Rightarrow> (if n = 1 then Some (LoseRead attempt reason) else None, ct'))"

definition lose_read :: "ci_attempt \<Rightarrow> string \<Rightarrow> ci_tables \<Rightarrow> ci_task option" where
  "lose_read attempt reason ct =
     (case find_job (at_job attempt) ct of
        None \<Rightarrow> None
      | Some job \<Rightarrow> if jb_status job \<noteq> JobRunning \<or> jb_current job \<noteq> Some (at_id attempt) then None
                    else Some (LoseJob attempt job reason))"

definition lose_job :: "ms \<Rightarrow> ci_attempt \<Rightarrow> ci_job \<Rightarrow> string \<Rightarrow> ci_tables \<Rightarrow> ci_tables" where
  "lose_job now attempt job reason ct =
     snd (update_jobs (\<lambda>j. jb_id j = jb_id job \<and> jb_status j = JobRunning \<and> jb_current j = Some (at_id attempt))
       (\<lambda>j. if jb_attempts job < jb_max job then j\<lparr>jb_status := JobQueued, jb_current := None\<rparr>
            else j\<lparr>jb_status := JobFailed, jb_finished := Some now, jb_error := Some (reason @ ''; no attempts left'')\<rparr>) ct)"

text \<open>The attempts a sweep or a revocation loses, one after the other.\<close>

definition sweepLostAttempts :: "ms \<Rightarrow> ci_tables \<Rightarrow> ci_task list" where
  "sweepLostAttempts now ct = map (\<lambda>a. LoseMark a ''The runner stopped reporting (lease expired)'')
     (filter (\<lambda>a. at_status a = AtRunning \<and> at_expires a < now) (ct_attempts ct))"

definition revokeRunner :: "int \<Rightarrow> ms \<Rightarrow> ci_tables \<Rightarrow> bool \<times> ci_tables" where
  "revokeRunner runnerId now ct =
     (length (filter (\<lambda>r. ru_id r = runnerId \<and> ru_revoked r = None) (ct_runners ct)) = 1,
      ct\<lparr>ct_runners := map (\<lambda>r. if ru_id r = runnerId \<and> ru_revoked r = None then r\<lparr>ru_revoked := Some now\<rparr> else r) (ct_runners ct)\<rparr>)"

definition revoked_attempts :: "int \<Rightarrow> ci_tables \<Rightarrow> ci_task list" where
  "revoked_attempts runnerId ct = map (\<lambda>a. LoseMark a ''The runner was revoked'')
     (filter (\<lambda>a. at_runner a = runnerId \<and> at_status a = AtRunning) (ct_attempts ct))"

definition extendLeasesAfterRestart :: "ms \<Rightarrow> ci_tables \<Rightarrow> ci_tables" where
  "extendLeasesAfterRestart now ct =
     snd (update_attempts (\<lambda>a. at_status a = AtRunning) (\<lambda>a. a\<lparr>at_expires := now + CI_LEASE_MS\<rparr>) ct)"

subsection \<open>Cancelling\<close>

definition cancelJob :: "int \<Rightarrow> int option \<Rightarrow> ci_tables \<Rightarrow> ci_task option" where
  "cancelJob jobId userId ct =
     (case find_job jobId ct of
        None \<Rightarrow> None
      | Some job \<Rightarrow> if unfinished (jb_status job) then Some (CancelUpdate job userId) else None)"

definition cancel_update :: "ms \<Rightarrow> ci_job \<Rightarrow> int option \<Rightarrow> ci_tables \<Rightarrow> ci_task option \<times> ci_tables" where
  "cancel_update now job userId ct =
     (case update_jobs (\<lambda>j. jb_id j = jb_id job \<and> unfinished (jb_status j))
             (\<lambda>j. j\<lparr>jb_status := JobCancelled, jb_cancelled_by := userId, jb_finished := Some now, jb_error := Some ''Cancelled''\<rparr>) ct of
        (n, ct') \<Rightarrow> (if n = 1 \<and> jb_current job \<noteq> None then Some (CancelAttempt job) else None, ct'))"

definition cancel_attempt :: "ms \<Rightarrow> ci_job \<Rightarrow> ci_tables \<Rightarrow> ci_tables" where
  "cancel_attempt now job ct =
     snd (update_attempts (\<lambda>a. Some (at_id a) = jb_current job \<and> at_status a = AtRunning)
       (\<lambda>a. a\<lparr>at_status := AtCancelled, at_finished := Some now, at_error := Some ''Cancelled''\<rparr>) ct)"

subsection \<open>The source of a job\<close>

text \<open>The source route: the running attempt's job, read again before the checkout.\<close>

definition source_route :: "ci_attempt \<Rightarrow> ci_job \<Rightarrow> ci_task option" where
  "source_route attempt job = (if at_status attempt \<noteq> AtRunning then None else Some (ReadSource job))"

definition source_job :: "ci_job \<Rightarrow> ci_tables \<Rightarrow> ci_job" where
  "source_job job ct = (case find_job (jb_id job) ct of Some fresh \<Rightarrow> fresh | None \<Rightarrow> job)"

text \<open>The update of \<open>buildSourceArchive\<close> that pins the commit its checkout resolved to.\<close>

definition pin_source :: "string \<Rightarrow> ci_job \<Rightarrow> ci_tables \<Rightarrow> ci_tables" where
  "pin_source sha job ct =
     (if jb_commit job = None then snd (update_jobs (\<lambda>j. jb_id j = jb_id job) (\<lambda>j. j\<lparr>jb_commit := Some sha\<rparr>) ct) else ct)"

subsection \<open>One statement of a task\<close>

definition with_lease :: "ci_attempt \<Rightarrow> lease_request \<Rightarrow> ci_tables \<Rightarrow> ci_task option \<times> ci_tables" where
  "with_lease attempt req ct =
     (case find_job (at_job attempt) ct of
        None \<Rightarrow> (None, ct)
      | Some job \<Rightarrow>
          (case req of
             Beat runner now \<Rightarrow>
               (case heartbeat runner attempt job now ct of (Inl _, ct') \<Rightarrow> (None, ct') | (Inr t, ct') \<Rightarrow> (Some t, ct'))
           | Finish result now \<Rightarrow> (finishAttempt attempt job result now, ct)
           | Log seq data \<Rightarrow> (None, snd (appendLog attempt seq data ct))
           | Source \<Rightarrow> (source_route attempt job, ct)))"

fun run_task :: "ci_input \<Rightarrow> ci_task \<Rightarrow> ci_tables \<Rightarrow> ci_task option \<times> ci_tables" where
  "run_task inp (WithLease attempt req) ct = with_lease attempt req ct"
| "run_task inp (ClaimFlip runner queued) ct = claim_flip inp runner queued ct"
| "run_task inp (ClaimInsert runner job) ct = claim_insert inp runner job ct"
| "run_task inp (ClaimPoint job attemptId) ct = (None, claim_point job attemptId ct)"
| "run_task inp (RenewLease attempt) ct = (None, snd (renew_lease (ci_now inp) attempt ct))"
| "run_task inp (FinishClose attempt job result) ct = finish_close (ci_now inp) attempt job result ct"
| "run_task inp (FinishJob attempt job result) ct = (None, finish_job (ci_now inp) attempt job result ct)"
| "run_task inp (LoseMark attempt reason) ct = lose_mark (ci_now inp) attempt reason ct"
| "run_task inp (LoseRead attempt reason) ct = (lose_read attempt reason ct, ct)"
| "run_task inp (LoseJob attempt job reason) ct = (None, lose_job (ci_now inp) attempt job reason ct)"
| "run_task inp (CancelUpdate job userId) ct = cancel_update (ci_now inp) job userId ct"
| "run_task inp (CancelAttempt job) ct = (None, cancel_attempt (ci_now inp) job ct)"
| "run_task inp (ReadSource job) ct = (Some (PinSource (source_job job ct)), ct)"
| "run_task inp (PinSource job) ct = (None, pin_source (ci_commit inp) job ct)"

text \<open>\<open>pruneCiJobs\<close>: at most 500 finished jobs, and with a job its attempts (the foreign key cascades) and its log files.\<close>

definition pruneCiJobs :: "nat \<Rightarrow> ms \<Rightarrow> ci_tables \<Rightarrow> nat \<times> ci_tables" where
  "pruneCiJobs olderThanDays now ct =
     (let cutoff = now - int olderThanDays * 86400000;
          old = map jb_id (take 500 (filter (\<lambda>j. jb_status j \<in> {JobSucceeded, JobFailed, JobCancelled}
             \<and> (case jb_finished j of None \<Rightarrow> False | Some t \<Rightarrow> t < cutoff)) (ct_jobs ct)))
      in (length old,
          ct\<lparr>ct_jobs := filter (\<lambda>j. jb_id j \<notin> set old) (ct_jobs ct),
             ct_attempts := filter (\<lambda>a. at_job a \<notin> set old) (ct_attempts ct),
             ct_logs := filter (\<lambda>((i, n), t). i \<notin> set old) (ct_logs ct)\<rparr>))"


text \<open>The gate of a deploy (\<open>lib/ciDeployGate.ts\<close>): a pull request from a fork without a known commit is refused: its job is failed as soon as it exists.\<close>

definition refuse_job :: "ms \<Rightarrow> ci_job \<Rightarrow> ci_tables \<Rightarrow> ci_tables" where
  "refuse_job now job ct =
     snd (update_jobs (\<lambda>j. jb_id j = jb_id job \<and> unfinished (jb_status j))
       (\<lambda>j. j\<lparr>jb_status := JobFailed, jb_finished := Some now, jb_error :=
          Some ''A pull request from a fork is tested only at a known commit; redeploy it from the pull request''\<rparr>) ct)"

text \<open>The rows that go with a deleted service (its foreign key cascades).\<close>

definition cascade_service :: "int \<Rightarrow> ci_tables \<Rightarrow> ci_tables" where
  "cascade_service service ct =
     (let gone = map jb_id (filter (\<lambda>j. jb_service j = service) (ct_jobs ct))
      in ct\<lparr>ct_jobs := filter (\<lambda>j. jb_id j \<notin> set gone) (ct_jobs ct), ct_attempts := filter (\<lambda>a. at_job a \<notin> set gone) (ct_attempts ct)\<rparr>)"

end
