(* ===== verification/CiSteps.thy ===== *)
theory CiSteps
  imports CiJobs
begin

text \<open>
  The CI job protocol as a step relation: the tables of CiJobs and the tasks of all operations under
  way. A step starts an operation or runs one statement of a task. At the end a sample run.
\<close>

subsection \<open>The step relation\<close>

record ci_sys =
  sy_ct :: ci_tables
  sy_tasks :: "ci_task list"

definition with_task :: "ci_task option \<Rightarrow> ci_sys \<Rightarrow> ci_sys" where
  "with_task t s = s\<lparr>sy_tasks := sy_tasks s @ (case t of None \<Rightarrow> [] | Some u \<Rightarrow> [u])\<rparr>"

text \<open>
  A claim is broken when the insert of its attempt fails, or when the attempt is declared lost before
  the claim has made it the current one. In a calm run this does not happen.
\<close>

fun breaks_claim :: "ci_input \<Rightarrow> ci_task \<Rightarrow> ci_sys \<Rightarrow> bool" where
  "breaks_claim inp (ClaimInsert runner job) s = insert_fails job (ci_hash inp) (sy_ct s)"
| "breaks_claim inp (LoseMark attempt reason) s = list_ex (\<lambda>t. case t of ClaimPoint j i \<Rightarrow> i = at_id attempt | _ \<Rightarrow> False) (sy_tasks s)"
| "breaks_claim inp _ s = False"

inductive ci_step :: "bool \<Rightarrow> ci_sys \<Rightarrow> ci_sys \<Rightarrow> bool" for calm where
  runners: "ci_step calm s (s\<lparr>sy_ct := (sy_ct s)\<lparr>ct_runners := rs\<rparr>\<rparr>)"
| create: "0 < pl_max_attempts pipeline \<Longrightarrow>
    ci_step calm s (s\<lparr>sy_ct := snd (createJob service pipeline ref trigger user deployment approval (sy_ct s))\<rparr>)"
| approve: "ci_step calm s (s\<lparr>sy_ct := snd (approveJob jobId userId (sy_ct s))\<rparr>)"
| claim: "claimJob runner reported version now (sy_ct s) = (t, ct') \<Longrightarrow> ci_step calm s (with_task t (s\<lparr>sy_ct := ct'\<rparr>))"
| lease: "ci_step calm s (with_task (attemptForLease runner attemptId hash req (sy_ct s)) s)"
| sweep: "ci_step calm s (s\<lparr>sy_tasks := sy_tasks s @ sweepLostAttempts now (sy_ct s)\<rparr>)"
| revoke: "revokeRunner runnerId now (sy_ct s) = (True, ct') \<Longrightarrow>
    ci_step calm s (s\<lparr>sy_ct := ct', sy_tasks := sy_tasks s @ revoked_attempts runnerId ct'\<rparr>)"
| extend: "ci_step calm s (s\<lparr>sy_ct := extendLeasesAfterRestart now (sy_ct s)\<rparr>)"
| cancel: "ci_step calm s (with_task (cancelJob jobId userId (sy_ct s)) s)"
| prune: "ci_step calm s (s\<lparr>sy_ct := snd (pruneCiJobs days now (sy_ct s))\<rparr>)"
| refuse: "ci_step calm s (s\<lparr>sy_ct := refuse_job now job (sy_ct s)\<rparr>)"
| remove: "ci_step calm s (s\<lparr>sy_ct := cascade_service service (sy_ct s)\<rparr>)"
| run: "sy_tasks s = xs @ t # ys \<Longrightarrow> calm \<longrightarrow> \<not> breaks_claim inp t s \<Longrightarrow> run_task inp t (sy_ct s) = (k, ct') \<Longrightarrow>
    ci_step calm s \<lparr>sy_ct = ct', sy_tasks = xs @ (case k of None \<Rightarrow> [] | Some u \<Rightarrow> [u]) @ ys\<rparr>"

definition ci_start :: "ci_sys \<Rightarrow> bool" where
  "ci_start s \<longleftrightarrow> ct_jobs (sy_ct s) = [] \<and> ct_attempts (sy_ct s) = [] \<and> sy_tasks s = []"

abbreviation next_tasks :: "ci_task list \<Rightarrow> ci_task option \<Rightarrow> ci_task list \<Rightarrow> ci_task list" where
  "next_tasks xs k ys \<equiv> xs @ (case k of None \<Rightarrow> [] | Some u \<Rightarrow> [u]) @ ys"

subsection \<open>A sample run\<close>

text \<open>A job whose first attempt is lost and whose second one succeeds.\<close>

definition sample_runner :: ci_runner where
  "sample_runner = \<lparr>ru_id = 7, ru_labels = [''linux''], ru_capacity = 1, ru_version = None, ru_seen = None, ru_revoked = None\<rparr>"

definition sample_pipeline :: ci_pipeline where
  "sample_pipeline = \<lparr>pl_image = ''node'', pl_script = ''test'', pl_labels = [''linux''], pl_secrets = [], pl_timeout_minutes = 1,
     pl_max_attempts = 2, pl_require_approval = False, pl_run_on_push = True, pl_gate_deploys = True\<rparr>"

definition no_jobs :: ci_sys where
  "no_jobs = \<lparr>sy_ct = \<lparr>ct_runners = [sample_runner], ct_jobs = [], ct_attempts = [], ct_next_job = 1, ct_next_attempt = 1, ct_logs = []\<rparr>,
     sy_tasks = []\<rparr>"

text \<open>The first task runs.\<close>

definition drive :: "ci_input \<Rightarrow> ci_sys \<Rightarrow> ci_sys" where
  "drive inp s = (case sy_tasks s of [] \<Rightarrow> s
     | t # ts \<Rightarrow> (case run_task inp t (sy_ct s) of (k, ct') \<Rightarrow> \<lparr>sy_ct = ct', sy_tasks = next_tasks [] k ts\<rparr>))"

definition claims_now :: "ms \<Rightarrow> ci_sys \<Rightarrow> ci_sys" where
  "claims_now now s = (case claimJob sample_runner 0 None now (sy_ct s) of (t, ct') \<Rightarrow> with_task t (s\<lparr>sy_ct := ct'\<rparr>))"

lemma drive_steps: "(ci_step False)\<^sup>*\<^sup>* s0 s \<Longrightarrow> (ci_step False)\<^sup>*\<^sup>* s0 (drive inp s)"
  unfolding drive_def
  by (cases "sy_tasks s") (auto split: prod.split intro!: rtranclp.rtrancl_into_rtrancl [of _ s0 s] ci_step.run [of s "[]", simplified])

lemma claims_steps: "(ci_step calm)\<^sup>*\<^sup>* s0 s \<Longrightarrow> (ci_step calm)\<^sup>*\<^sup>* s0 (claims_now now s)"
  unfolding claims_now_def by (auto split: prod.split intro!: rtranclp.rtrancl_into_rtrancl [of _ s0 s] ci_step.claim)

definition sample_input :: "ms \<Rightarrow> string \<Rightarrow> ci_input" where
  "sample_input now hash = \<lparr>ci_now = now, ci_hash = hash, ci_commit = ''c''\<rparr>"

definition sample_created :: ci_sys where
  "sample_created = no_jobs\<lparr>sy_ct := snd (createJob 3 sample_pipeline None ''push'' None None False (sy_ct no_jobs))\<rparr>"

definition sample_inserted :: ci_sys where
  "sample_inserted = (let i = sample_input 10 ''x'' in drive i (drive i (claims_now 10 sample_created)))"

definition sample_claimed :: ci_sys where
  "sample_claimed = drive (sample_input 10 ''x'') sample_inserted"

definition sample_lost :: ci_sys where
  "sample_lost = (let s = sample_claimed; i = sample_input 70000 ''y''; t = s\<lparr>sy_tasks := sy_tasks s @ sweepLostAttempts 70000 (sy_ct s)\<rparr>
     in drive i (drive i (drive i (claims_now 70000 (drive i (drive i (drive i t)))))))"

definition sample_finish :: "int \<Rightarrow> string \<Rightarrow> ci_sys \<Rightarrow> ci_sys" where
  "sample_finish i hash s =
     (let n = sample_input 70001 ''z'' in
      drive n (drive n (drive n (with_task (attemptForLease sample_runner i (Some hash) (Finish (Result True (Some 0) None) 70001) (sy_ct s)) s))))"

definition sample_done :: ci_sys where
  "sample_done = sample_finish 2 ''y'' (sample_finish 1 ''x'' sample_lost)"

lemma created_steps: "(ci_step calm)\<^sup>*\<^sup>* no_jobs sample_created"
  unfolding sample_created_def by (intro r_into_rtranclp ci_step.create) (simp add: sample_pipeline_def)

lemma sample_steps: "(ci_step False)\<^sup>*\<^sup>* no_jobs sample_done"
proof -
  have lease: "(ci_step False)\<^sup>*\<^sup>* no_jobs (sample_finish i hash s)" if "(ci_step False)\<^sup>*\<^sup>* no_jobs s" for i hash s
    unfolding sample_finish_def Let_def
    by (intro drive_steps rtranclp.rtrancl_into_rtrancl [OF that] ci_step.lease)
  have "(ci_step False)\<^sup>*\<^sup>* no_jobs sample_claimed"
    unfolding sample_claimed_def sample_inserted_def Let_def by (intro drive_steps claims_steps created_steps)
  then have "(ci_step False)\<^sup>*\<^sup>* no_jobs (sample_claimed\<lparr>sy_tasks := sy_tasks sample_claimed @ sweepLostAttempts 70000 (sy_ct sample_claimed)\<rparr>)"
    by (rule rtranclp.rtrancl_into_rtrancl) (rule ci_step.sweep)
  then have "(ci_step False)\<^sup>*\<^sup>* no_jobs sample_lost"
    unfolding sample_lost_def Let_def by (intro drive_steps claims_steps)
  then show ?thesis unfolding sample_done_def by (intro lease)
qed

definition sample_job :: "job_status \<Rightarrow> nat \<Rightarrow> int option \<Rightarrow> ms option \<Rightarrow> ci_job" where
  "sample_job status n current finished =
     \<lparr>jb_id = 1, jb_service = 3, jb_status = status, jb_commit = None, jb_ref = None, jb_image = ''node'', jb_script = ''test'',
      jb_labels = [''linux''], jb_secrets = [], jb_timeout = 60, jb_max = 2, jb_attempts = n, jb_current = current,
      jb_trigger = ''push'', jb_deployment = None, jb_created_by = None, jb_approved_by = None, jb_cancelled_by = None,
      jb_error = None, jb_started = Some 10, jb_finished = finished\<rparr>"

definition sample_attempt :: "nat \<Rightarrow> attempt_status \<Rightarrow> string \<Rightarrow> ms \<Rightarrow> int option \<Rightarrow> string option \<Rightarrow> ms option \<Rightarrow> ci_attempt" where
  "sample_attempt n status hash expires code err finished =
     \<lparr>at_id = int n, at_job = 1, at_runner = 7, at_number = n, at_status = status, at_lease = hash, at_expires = expires,
      at_log_bytes = 0, at_log_seq = 0, at_exit = code, at_error = err, at_finished = finished\<rparr>"

definition sample_state :: "ms \<Rightarrow> ci_job \<Rightarrow> ci_attempt list \<Rightarrow> ci_sys" where
  "sample_state seen job attempts =
     \<lparr>sy_ct = \<lparr>ct_runners = [sample_runner\<lparr>ru_seen := Some seen\<rparr>], ct_jobs = [job], ct_attempts = attempts, ct_next_job = 2,
        ct_next_attempt = int (length attempts) + 1, ct_logs = []\<rparr>, sy_tasks = []\<rparr>"

lemma claimed_value: "sample_claimed = sample_state 10 (sample_job JobRunning 1 (Some 1) None) [sample_attempt 1 AtRunning ''x'' 60010 None None None]"
  by code_simp

abbreviation lost_row :: ci_attempt where
  "lost_row \<equiv> sample_attempt 1 AtLost ''x'' 60010 None (Some ''The runner stopped reporting (lease expired)'') (Some 70000)"

lemma lost_value: "sample_lost = sample_state 70000 (sample_job JobRunning 2 (Some 2) None)
    [lost_row, sample_attempt 2 AtRunning ''y'' 130000 None None None]"
  unfolding sample_lost_def claimed_value by code_simp

lemma stale_value: "sample_finish 1 ''x'' sample_lost = sample_lost"
  unfolding lost_value by code_simp

lemma done_value: "sample_done = sample_state 70000 (sample_job JobSucceeded 2 (Some 2) (Some 70001))
    [lost_row, sample_attempt 2 AtSucceeded ''y'' 130000 (Some 0) None (Some 70001)]"
  unfolding sample_done_def stale_value lost_value by code_simp

end
