(* ===== verification/CiJobsProperties.thy ===== *)
theory CiJobsProperties
  imports CiSteps
begin

text \<open>
  The CI job protocol as a state machine: the tables and the tasks of all operations under way. In
  every reachable state the attempts that count for a job are one, a finished job stays finished, and
  a running job has someone who will move it on - unless a claim was broken in the middle.
\<close>

subsection \<open>The invariant\<close>

text \<open>The job a claim task works for, and the attempts whose status counts.\<close>

fun claims :: "ci_task \<Rightarrow> int option" where
  "claims (ClaimInsert runner job) = Some (jb_id job)"
| "claims (ClaimPoint job attemptId) = Some (jb_id job)"
| "claims _ = None"

definition counts :: "ci_attempt \<Rightarrow> bool" where
  "counts a \<longleftrightarrow> at_status a \<in> {AtRunning, AtSucceeded, AtFailed}"

definition keys_ok :: "ci_tables \<Rightarrow> bool" where
  "keys_ok ct \<longleftrightarrow> distinct (map jb_id (ct_jobs ct)) \<and> distinct (map at_id (ct_attempts ct))
     \<and> (\<forall>j \<in> set (ct_jobs ct). jb_id j < ct_next_job ct) \<and> (\<forall>a \<in> set (ct_attempts ct). at_id a < ct_next_attempt ct)
     \<and> (\<forall>a \<in> set (ct_attempts ct). \<exists>j \<in> set (ct_jobs ct). jb_id j = at_job a)
     \<and> distinct (map (\<lambda>a. (at_job a, at_number a)) (ct_attempts ct))"

definition claims_ok :: "ci_sys \<Rightarrow> bool" where
  "claims_ok s \<longleftrightarrow> distinct (List.map_filter claims (sy_tasks s))
     \<and> (\<forall>t \<in> set (sy_tasks s). \<forall>j \<in> set (ct_jobs (sy_ct s)). claims t = Some (jb_id j) \<longrightarrow>
          jb_current j = None \<and> jb_status j \<in> {JobRunning, JobCancelled, JobFailed})
     \<and> (\<forall>t \<in> set (sy_tasks s). \<forall>i. claims t = Some i \<longrightarrow> i < ct_next_job (sy_ct s))
     \<and> (\<forall>j i. ClaimPoint j i \<in> set (sy_tasks s) \<longrightarrow> i < ct_next_attempt (sy_ct s)
          \<and> (\<forall>a \<in> set (ct_attempts (sy_ct s)). at_id a = i \<longrightarrow> at_job a = jb_id j)
          \<and> (\<forall>k \<in> set (ct_jobs (sy_ct s)). jb_id k = jb_id j \<longrightarrow> (\<exists>a \<in> set (ct_attempts (sy_ct s)). at_id a = i)))"

definition owner_ok :: "ci_sys \<Rightarrow> bool" where
  "owner_ok s \<longleftrightarrow>
     (\<forall>a \<in> set (ct_attempts (sy_ct s)). counts a \<longrightarrow> (\<forall>j \<in> set (ct_jobs (sy_ct s)). jb_id j = at_job a \<longrightarrow>
        jb_current j = Some (at_id a) \<and> jb_status j \<notin> {JobAwaiting, JobQueued}
        \<or> (\<exists>job. ClaimPoint job (at_id a) \<in> set (sy_tasks s) \<and> jb_id job = jb_id j)))
     \<and> (\<forall>j \<in> set (ct_jobs (sy_ct s)). \<forall>i. jb_current j = Some i \<longrightarrow>
          (\<exists>a \<in> set (ct_attempts (sy_ct s)). at_id a = i \<and> at_job a = jb_id j))"

text \<open>The attempt a task holds a copy of, and the attempts a task takes for a current one, with their job.\<close>

fun copied :: "ci_task \<Rightarrow> ci_attempt option" where
  "copied (WithLease a req) = Some a"
| "copied (RenewLease a) = Some a"
| "copied (FinishClose a j result) = Some a"
| "copied (FinishJob a j result) = Some a"
| "copied (LoseMark a reason) = Some a"
| "copied (LoseRead a reason) = Some a"
| "copied (LoseJob a j reason) = Some a"
| "copied _ = None"

fun pointed :: "ci_task \<Rightarrow> (int \<times> int) option" where
  "pointed (FinishClose a j result) = Some (at_id a, jb_id j)"
| "pointed (FinishJob a j result) = Some (at_id a, jb_id j)"
| "pointed (LoseJob a j reason) = Some (at_id a, jb_id j)"
| "pointed (CancelUpdate j user) = map_option (\<lambda>i. (i, jb_id j)) (jb_current j)"
| "pointed (CancelAttempt j) = map_option (\<lambda>i. (i, jb_id j)) (jb_current j)"
| "pointed _ = None"

text \<open>What a task holds is right: its copies, and what the statements before it have established.\<close>

definition holds :: "int \<Rightarrow> int \<Rightarrow> ci_tables \<Rightarrow> bool" where
  "holds i k ct \<longleftrightarrow> i < ct_next_attempt ct \<and> (\<forall>row \<in> set (ct_attempts ct). at_id row = i \<longrightarrow> at_job row = k)"

definition ended :: "int \<Rightarrow> attempt_status \<Rightarrow> ci_tables \<Rightarrow> bool" where
  "ended i status ct \<longleftrightarrow> (\<forall>row \<in> set (ct_attempts ct). at_id row = i \<longrightarrow> at_status row = status)"

definition budget_is :: "int \<Rightarrow> ci_job \<Rightarrow> ci_tables \<Rightarrow> bool" where
  "budget_is i job ct \<longleftrightarrow>
     (\<forall>j \<in> set (ct_jobs ct). jb_id j = jb_id job \<and> jb_status j = JobRunning \<and> jb_current j = Some i \<longrightarrow>
        jb_attempts j = jb_attempts job \<and> jb_max j = jb_max job)"

definition task_right :: "ci_sys \<Rightarrow> ci_task \<Rightarrow> bool" where
  "task_right s t \<longleftrightarrow>
     (\<forall>a. copied t = Some a \<longrightarrow> holds (at_id a) (at_job a) (sy_ct s))
     \<and> (\<forall>i k. pointed t = Some (i, k) \<longrightarrow> holds i k (sy_ct s) \<and> (\<forall>j. ClaimPoint j i \<notin> set (sy_tasks s)))
     \<and> (case t of
          FinishJob a j result \<Rightarrow> ended (at_id a) (if res_ok result then AtSucceeded else AtFailed) (sy_ct s)
        | LoseRead a reason \<Rightarrow> ended (at_id a) AtLost (sy_ct s)
        | LoseJob a job reason \<Rightarrow> ended (at_id a) AtLost (sy_ct s)
            \<and> budget_is (at_id a) job (sy_ct s)
        | _ \<Rightarrow> True)"

lemmas task_right_full = task_right_def holds_def ended_def budget_is_def

definition results_ok :: "ci_tables \<Rightarrow> bool" where
  "results_ok ct \<longleftrightarrow> (\<forall>j \<in> set (ct_jobs ct). jb_status j = JobSucceeded \<longrightarrow>
     (\<exists>a \<in> set (ct_attempts ct). jb_current j = Some (at_id a) \<and> at_status a = AtSucceeded))"

definition budget_ok :: "ci_tables \<Rightarrow> bool" where
  "budget_ok ct \<longleftrightarrow> (\<forall>j \<in> set (ct_jobs ct). jb_attempts j \<le> jb_max j
     \<and> (jb_status j \<in> {JobAwaiting, JobQueued} \<longrightarrow> jb_current j = None \<and> jb_attempts j < jb_max j))"

definition ci_ok :: "ci_sys \<Rightarrow> bool" where
  "ci_ok s \<longleftrightarrow> keys_ok (sy_ct s) \<and> claims_ok s \<and> owner_ok s \<and> (\<forall>t \<in> set (sy_tasks s). task_right s t)
     \<and> results_ok (sy_ct s) \<and> budget_ok (sy_ct s)"

lemmas ci_ok_defs = ci_ok_def keys_ok_def claims_ok_def owner_ok_def task_right_full results_ok_def budget_ok_def

lemma same_job: "keys_ok ct \<Longrightarrow> j \<in> set (ct_jobs ct) \<Longrightarrow> k \<in> set (ct_jobs ct) \<Longrightarrow> jb_id j = jb_id k \<Longrightarrow> j = k"
  by (simp add: keys_ok_def distinct_map inj_on_def)

lemma same_attempt: "keys_ok ct \<Longrightarrow> a \<in> set (ct_attempts ct) \<Longrightarrow> b \<in> set (ct_attempts ct) \<Longrightarrow> at_id a = at_id b \<Longrightarrow> a = b"
  by (simp add: keys_ok_def distinct_map inj_on_def)

lemma ci_ok_start: "ci_start s \<Longrightarrow> ci_ok s"
  by (simp add: ci_start_def ci_ok_defs map_filter_simps)

subsection \<open>Tasks that come and go\<close>

text \<open>A task that claims nothing may be added if what it holds is right, and any task but a pointing one may end.\<close>

definition task_ok :: "ci_task \<Rightarrow> ci_sys \<Rightarrow> bool" where
  "task_ok t s \<longleftrightarrow> claims t = None \<and> task_right s t"

lemma tasks_change:
  assumes ok: "ci_ok s"
    and sub: "\<And>t. t \<in> set ts \<Longrightarrow> t \<in> set (sy_tasks s) \<or> task_ok t s"
    and keep: "\<And>j i. ClaimPoint j i \<in> set (sy_tasks s) \<Longrightarrow> ClaimPoint j i \<in> set ts"
    and one: "distinct (List.map_filter claims ts)"
  shows "ci_ok (s\<lparr>sy_tasks := ts\<rparr>)"
proof -
  have no_claim: "t \<in> set (sy_tasks s)" if "t \<in> set ts" "claims t = Some i" for t i
    using sub [OF that(1)] that(2) by (auto simp: task_ok_def)
  have point: "ClaimPoint j i \<in> set (sy_tasks s) \<longleftrightarrow> ClaimPoint j i \<in> set ts" for j i
    using keep no_claim [of "ClaimPoint j i"] by auto
  have "claims_ok (s\<lparr>sy_tasks := ts\<rparr>)"
    using ok one point unfolding ci_ok_def claims_ok_def by (simp add: Ball_def) (metis no_claim)
  moreover have "owner_ok (s\<lparr>sy_tasks := ts\<rparr>)"
    using ok point unfolding ci_ok_def owner_ok_def by simp
  moreover have "task_right (s\<lparr>sy_tasks := ts\<rparr>) t \<longleftrightarrow> task_right s t" for t
    using point by (simp add: task_right_full cong: ci_task.case_cong)
  then have "\<forall>t \<in> set ts. task_right (s\<lparr>sy_tasks := ts\<rparr>) t"
    using ok sub unfolding ci_ok_def task_ok_def by blast
  ultimately show ?thesis using ok by (simp add: ci_ok_def)
qed

lemma add_tasks:
  assumes "ci_ok s" and "\<And>t. t \<in> set ts \<Longrightarrow> task_ok t s"
  shows "ci_ok (s\<lparr>sy_tasks := sy_tasks s @ ts\<rparr>)"
proof (rule tasks_change [OF assms(1)])
  have "List.map_filter claims ts = []"
    using assms(2) by (auto simp: task_ok_def map_filter_def filter_empty_conv)
  then show "distinct (List.map_filter claims (sy_tasks s @ ts))"
    using assms(1) by (simp add: ci_ok_def claims_ok_def map_filter_def)
qed (use assms(2) in auto)

lemma with_task_ok: "ci_ok s \<Longrightarrow> (\<And>u. t = Some u \<Longrightarrow> task_ok u s) \<Longrightarrow> ci_ok (with_task t s)"
  unfolding with_task_def by (rule add_tasks) (auto split: option.splits)

text \<open>A task that claims nothing is replaced by what follows it.\<close>

lemma replace_task:
  assumes "ci_ok s" and "sy_tasks s = xs @ t # ys" and "claims t = None" and "\<And>u. k = Some u \<Longrightarrow> task_ok u s"
  shows "ci_ok (s\<lparr>sy_tasks := xs @ (case k of None \<Rightarrow> [] | Some u \<Rightarrow> [u]) @ ys\<rparr>)"
proof (rule tasks_change [OF assms(1)])
  have "List.map_filter claims (xs @ (case k of None \<Rightarrow> [] | Some u \<Rightarrow> [u]) @ ys) = List.map_filter claims (xs @ t # ys)"
    using assms(3,4) by (auto simp: map_filter_def task_ok_def split: option.splits)
  then show "distinct (List.map_filter claims (xs @ (case k of None \<Rightarrow> [] | Some u \<Rightarrow> [u]) @ ys))"
    using assms(1,2) by (simp add: ci_ok_def claims_ok_def)
qed (use assms(2-4) in \<open>auto split: option.splits\<close>)

subsection \<open>Rows that change\<close>

text \<open>Attempts that stop running, and changes of other columns.\<close>

lemma rows_change:
  assumes ok: "ci_ok s"
    and jobs: "ct_jobs ct' = map h (ct_jobs (sy_ct s))" "ct_next_job ct' = ct_next_job (sy_ct s)"
    and attempts: "ct_attempts ct' = map g (ct_attempts (sy_ct s))" "ct_next_attempt ct' = ct_next_attempt (sy_ct s)"
    and h [simp]: "\<And>j. jb_id (h j) = jb_id j" "\<And>j. jb_status (h j) = jb_status j" "\<And>j. jb_current (h j) = jb_current j"
      "\<And>j. jb_attempts (h j) = jb_attempts j" "\<And>j. jb_max (h j) = jb_max j"
    and g [simp]: "\<And>a. at_id (g a) = at_id a" "\<And>a. at_job (g a) = at_job a" "\<And>a. at_number (g a) = at_number a"
    and stops: "\<And>a. at_status (g a) = at_status a \<or> at_status a = AtRunning"
  shows "ci_ok (s\<lparr>sy_ct := ct'\<rparr>)"
proof -
  have counts: "counts (g a) \<Longrightarrow> counts a" for a
    using stops [of a] by (auto simp: counts_def)
  have kept: "at_status a \<noteq> AtRunning \<Longrightarrow> at_status (g a) = at_status a" for a
    using stops [of a] by auto
  have "keys_ok ct'"
    using ok by (simp add: ci_ok_def keys_ok_def jobs attempts comp_def)
  moreover have "claims_ok (s\<lparr>sy_ct := ct'\<rparr>)"
    using ok by (simp add: ci_ok_def claims_ok_def jobs attempts)
  moreover have "owner_ok (s\<lparr>sy_ct := ct'\<rparr>)"
    using ok counts by (simp add: ci_ok_def owner_ok_def jobs attempts)
  moreover have "task_right (s\<lparr>sy_ct := ct'\<rparr>) t" if "task_right s t" for t
    using that kept by (cases t) (auto simp: task_right_full jobs attempts)
  moreover have "results_ok ct'"
    using ok kept by (force simp: ci_ok_def results_ok_def jobs attempts)
  moreover have "budget_ok ct'"
    using ok by (simp add: ci_ok_def budget_ok_def jobs)
  ultimately show ?thesis using ok by (simp add: ci_ok_def)
qed

text \<open>Jobs whose status changes.\<close>

lemma jobs_change:
  assumes ok: "ci_ok s"
    and jobs: "ct_jobs ct' = map h (ct_jobs (sy_ct s))" "ct_next_job ct' = ct_next_job (sy_ct s)"
    and attempts: "ct_attempts ct' = ct_attempts (sy_ct s)" "ct_next_attempt ct' = ct_next_attempt (sy_ct s)"
    and h [simp]: "\<And>j. jb_id (h j) = jb_id j" "\<And>j. jb_attempts (h j) = jb_attempts j" "\<And>j. jb_max (h j) = jb_max j"
    and current: "\<And>j. jb_current (h j) = jb_current j \<or> jb_current (h j) = None \<and> jb_status (h j) = JobQueued"
    and waits: "\<And>j. j \<in> set (ct_jobs (sy_ct s)) \<Longrightarrow> jb_status (h j) \<in> {JobAwaiting, JobQueued} \<Longrightarrow>
      jb_current (h j) = None \<and> jb_attempts j < jb_max j \<and> (\<forall>a \<in> set (ct_attempts (sy_ct s)). at_job a = jb_id j \<longrightarrow> \<not> counts a)"
    and won: "\<And>j. j \<in> set (ct_jobs (sy_ct s)) \<Longrightarrow> jb_status (h j) = JobSucceeded \<Longrightarrow>
      jb_status j = JobSucceeded \<or> (\<exists>a \<in> set (ct_attempts (sy_ct s)). jb_current j = Some (at_id a) \<and> at_status a = AtSucceeded)"
    and claimed: "\<And>j. j \<in> set (ct_jobs (sy_ct s)) \<Longrightarrow> jb_current j = None \<Longrightarrow> jb_status j \<in> {JobRunning, JobCancelled, JobFailed} \<Longrightarrow>
      jb_status (h j) \<in> {JobRunning, JobCancelled, JobFailed}"
    and runs: "\<And>j. jb_status (h j) = JobRunning \<Longrightarrow> jb_status j = JobRunning"
  shows "ci_ok (s\<lparr>sy_ct := ct'\<rparr>)"
proof -
  have "keys_ok ct'"
    using ok by (simp add: ci_ok_def keys_ok_def jobs attempts comp_def)
  moreover have "claims_ok (s\<lparr>sy_ct := ct'\<rparr>)"
    unfolding claims_ok_def
  proof (intro conjI ballI allI impI)
    fix t k
    assume t: "t \<in> set (sy_tasks (s\<lparr>sy_ct := ct'\<rparr>))" and k: "k \<in> set (ct_jobs (sy_ct (s\<lparr>sy_ct := ct'\<rparr>)))" and c: "claims t = Some (jb_id k)"
    obtain j where j: "j \<in> set (ct_jobs (sy_ct s))" "k = h j" using k by (auto simp: jobs)
    then have "jb_current j = None" "jb_status j \<in> {JobRunning, JobCancelled, JobFailed}"
      using ok t c unfolding ci_ok_def claims_ok_def by auto
    then show "jb_current k = None" "jb_status k \<in> {JobRunning, JobCancelled, JobFailed}"
      using current [of j] claimed [OF j(1)] j(2) by auto
  qed (use ok in \<open>(fastforce simp: ci_ok_def claims_ok_def attempts jobs)+\<close>)
  moreover have "owner_ok (s\<lparr>sy_ct := ct'\<rparr>)"
    unfolding owner_ok_def
  proof (intro conjI ballI allI impI)
    fix a k
    assume a: "a \<in> set (ct_attempts (sy_ct (s\<lparr>sy_ct := ct'\<rparr>)))" "counts a"
      and k: "k \<in> set (ct_jobs (sy_ct (s\<lparr>sy_ct := ct'\<rparr>)))" "jb_id k = at_job a"
    obtain j where j: "j \<in> set (ct_jobs (sy_ct s))" "k = h j" using k by (auto simp: jobs)
    have calm: "jb_status (h j) \<notin> {JobAwaiting, JobQueued}"
      using waits [OF j(1)] a k j(2) by (auto simp: attempts)
    then have same: "jb_current (h j) = jb_current j" using current [of j] by auto
    have "jb_current j = Some (at_id a) \<or> (\<exists>job. ClaimPoint job (at_id a) \<in> set (sy_tasks s) \<and> jb_id job = jb_id j)"
      using ok a k j by (auto simp: ci_ok_def owner_ok_def attempts)
    then show "jb_current k = Some (at_id a) \<and> jb_status k \<notin> {JobAwaiting, JobQueued}
        \<or> (\<exists>job. ClaimPoint job (at_id a) \<in> set (sy_tasks (s\<lparr>sy_ct := ct'\<rparr>)) \<and> jb_id job = jb_id k)"
      using calm same j(2) by auto
  next
    fix k i
    assume k: "k \<in> set (ct_jobs (sy_ct (s\<lparr>sy_ct := ct'\<rparr>)))" "jb_current k = Some i"
    obtain j where j: "j \<in> set (ct_jobs (sy_ct s))" "k = h j" using k by (auto simp: jobs)
    then have "jb_current j = Some i" using k(2) current [of j] by auto
    then show "\<exists>a \<in> set (ct_attempts (sy_ct (s\<lparr>sy_ct := ct'\<rparr>))). at_id a = i \<and> at_job a = jb_id k"
      using ok j by (auto simp: ci_ok_def owner_ok_def attempts)
  qed
  moreover have "task_right (s\<lparr>sy_ct := ct'\<rparr>) t" if t: "task_right s t" for t
  proof (cases t)
    case (LoseJob a job reason)
    have "jb_attempts k = jb_attempts job \<and> jb_max k = jb_max job"
      if k: "k \<in> set (ct_jobs ct')" "jb_id k = jb_id job" "jb_status k = JobRunning" "jb_current k = Some (at_id a)" for k
    proof -
      obtain j where j: "j \<in> set (ct_jobs (sy_ct s))" "k = h j" using k by (auto simp: jobs)
      have "jb_status j = JobRunning" using runs k(3) j(2) by simp
      moreover have "jb_current j = Some (at_id a)" using current [of j] k(4) j(2) by simp
      ultimately show ?thesis using t j k(2) by (simp add: LoseJob task_right_full)
    qed
    then have "\<forall>k \<in> set (ct_jobs ct'). jb_id k = jb_id job \<and> jb_status k = JobRunning \<and> jb_current k = Some (at_id a) \<longrightarrow>
        jb_attempts k = jb_attempts job \<and> jb_max k = jb_max job"
      by blast
    then show ?thesis using t by (simp add: LoseJob task_right_full attempts) metis
  qed (rule iffD2 [OF _ t], simp add: task_right_full attempts)+
  moreover have "results_ok ct'"
    unfolding results_ok_def
  proof (intro ballI impI)
    fix k
    assume k: "k \<in> set (ct_jobs ct')" "jb_status k = JobSucceeded"
    obtain j where j: "j \<in> set (ct_jobs (sy_ct s))" "k = h j" using k by (auto simp: jobs)
    then have "\<exists>a \<in> set (ct_attempts (sy_ct s)). jb_current j = Some (at_id a) \<and> at_status a = AtSucceeded"
      using won [OF j(1)] k(2) ok by (auto simp: ci_ok_def results_ok_def)
    moreover have "jb_current k = jb_current j" using current [of j] k(2) j(2) by auto
    ultimately show "\<exists>a \<in> set (ct_attempts ct'). jb_current k = Some (at_id a) \<and> at_status a = AtSucceeded"
      by (simp add: attempts)
  qed
  moreover have "budget_ok ct'"
    using ok waits by (auto simp: ci_ok_def budget_ok_def jobs)
  ultimately show ?thesis using ok by (simp add: ci_ok_def)
qed

lemma waiting_idle:
  assumes "ci_ok s" and "j \<in> set (ct_jobs (sy_ct s))" and "jb_status j \<in> {JobAwaiting, JobQueued}"
  shows "jb_current j = None \<and> jb_attempts j < jb_max j" and "a \<in> set (ct_attempts (sy_ct s)) \<Longrightarrow> at_job a = jb_id j \<Longrightarrow> \<not> counts a"
    and "t \<in> set (sy_tasks s) \<Longrightarrow> claims t \<noteq> Some (jb_id j)"
proof -
  show none: "jb_current j = None \<and> jb_attempts j < jb_max j" using assms by (auto simp: ci_ok_def budget_ok_def)
  show unclaimed: "claims t \<noteq> Some (jb_id j)" if "t \<in> set (sy_tasks s)" for t
    using assms that unfolding ci_ok_def claims_ok_def by fastforce
  show "\<not> counts a" if "a \<in> set (ct_attempts (sy_ct s))" "at_job a = jb_id j"
    using assms(1,2) that none unclaimed by (fastforce simp: ci_ok_def owner_ok_def)
qed

lemma update_jobs_simps [simp]:
  "ct_jobs (snd (update_jobs P f ct)) = map (\<lambda>j. if P j then f j else j) (ct_jobs ct)"
  "ct_attempts (snd (update_jobs P f ct)) = ct_attempts ct" "ct_next_job (snd (update_jobs P f ct)) = ct_next_job ct"
  "ct_next_attempt (snd (update_jobs P f ct)) = ct_next_attempt ct" "fst (update_jobs P f ct) = length (filter P (ct_jobs ct))"
  by (simp_all add: update_jobs_def)

lemma update_attempts_simps [simp]:
  "ct_attempts (snd (update_attempts P f ct)) = map (\<lambda>a. if P a then f a else a) (ct_attempts ct)"
  "ct_jobs (snd (update_attempts P f ct)) = ct_jobs ct" "ct_next_job (snd (update_attempts P f ct)) = ct_next_job ct"
  "ct_next_attempt (snd (update_attempts P f ct)) = ct_next_attempt ct"
  "fst (update_attempts P f ct) = length (filter P (ct_attempts ct))"
  by (simp_all add: update_attempts_def)

lemma one_row: "length (filter P xs) = 1 \<Longrightarrow> \<exists>x \<in> set xs. P x"
  by (cases "filter P xs") (auto simp: filter_eq_Cons_iff)

lemma find_job_row: "find_job i ct = Some j \<Longrightarrow> j \<in> set (ct_jobs ct) \<and> jb_id j = i"
  using find_Some_mem by (fastforce simp: find_job_def)

lemma find_attempt_row: "find_attempt i ct = Some a \<Longrightarrow> a \<in> set (ct_attempts ct) \<and> at_id a = i"
  using find_Some_mem by (fastforce simp: find_attempt_def)

subsection \<open>Every step keeps it\<close>

text \<open>An attempt that is current is no longer being pointed to.\<close>

lemma current_settled:
  assumes "ci_ok s" and "j \<in> set (ct_jobs (sy_ct s))" and "jb_current j = Some i"
  shows "ClaimPoint k i \<notin> set (sy_tasks s)" and "holds i (jb_id j) (sy_ct s)"
proof -
  obtain a where a: "a \<in> set (ct_attempts (sy_ct s))" "at_id a = i" "at_job a = jb_id j"
    using assms unfolding ci_ok_def owner_ok_def by blast
  have "at_job row = jb_id j" if "row \<in> set (ct_attempts (sy_ct s))" "at_id row = i" for row
    using same_attempt [of "sy_ct s" row a] assms(1) a that by (simp add: ci_ok_def)
  moreover have "i < ct_next_attempt (sy_ct s)" using assms(1) a by (auto simp: ci_ok_def keys_ok_def)
  ultimately show "holds i (jb_id j) (sy_ct s)" by (simp add: holds_def)
  show "ClaimPoint k i \<notin> set (sy_tasks s)"
  proof
    assume k: "ClaimPoint k i \<in> set (sy_tasks s)"
    then have "jb_id k = jb_id j" using assms(1) a unfolding ci_ok_def claims_ok_def by metis
    then have "jb_current j = None" using assms(1,2) k unfolding ci_ok_def claims_ok_def by fastforce
    then show False using assms(3) by simp
  qed
qed

lemma holds_jobs [simp]: "holds i k (snd (update_jobs P f ct)) \<longleftrightarrow> holds i k ct"
  by (simp add: holds_def)

lemma holds_attempts [simp]:
  assumes f: "\<And>x. at_id (f x) = at_id x" "\<And>x. at_job (f x) = at_job x"
  shows "holds i k (snd (update_attempts P f ct)) \<longleftrightarrow> holds i k ct"
proof -
  have "at_id (if P x then f x else x) = at_id x \<and> at_job (if P x then f x else x) = at_job x" for x by (simp add: f)
  then show ?thesis unfolding holds_def update_attempts_simps ball_simps set_map by simp
qed

lemma holds_same: "ct_attempts ct' = ct_attempts ct \<Longrightarrow> ct_next_attempt ct' = ct_next_attempt ct \<Longrightarrow> holds i k ct' \<longleftrightarrow> holds i k ct"
  by (simp add: holds_def)

lemma attempt_copy:
  assumes "ci_ok s" and "a \<in> set (ct_attempts (sy_ct s))"
  shows "task_ok (WithLease a req) s" and "task_ok (LoseMark a reason) s"
proof -
  have "at_id a < ct_next_attempt (sy_ct s)" using assms by (simp add: ci_ok_def keys_ok_def)
  moreover have "at_job row = at_job a" if "row \<in> set (ct_attempts (sy_ct s))" "at_id row = at_id a" for row
    using same_attempt [of "sy_ct s" row a] assms that by (simp add: ci_ok_def)
  ultimately have "holds (at_id a) (at_job a) (sy_ct s)" by (simp add: holds_def)
  then show "task_ok (WithLease a req) s" "task_ok (LoseMark a reason) s"
    by (simp_all add: task_ok_def task_right_def)
qed

lemma run_with_lease:
  assumes ok: "ci_ok s" and right: "task_right s (WithLease a req)" and r: "with_lease a req (sy_ct s) = (k, ct')"
  shows "ci_ok (s\<lparr>sy_ct := ct'\<rparr>)" and "k = Some u \<Longrightarrow> task_ok u (s\<lparr>sy_ct := ct'\<rparr>)"
proof -
  have copy: "holds (at_id a) (at_job a) (sy_ct s)" using right by (simp add: task_right_def)
  have "ci_ok (s\<lparr>sy_ct := ct'\<rparr>) \<and> (\<forall>u. k = Some u \<longrightarrow> task_ok u (s\<lparr>sy_ct := ct'\<rparr>))"
  proof (cases "find_job (at_job a) (sy_ct s)")
    case None
    then show ?thesis using r ok by (auto simp: with_lease_def)
  next
    case (Some job)
    note job = find_job_row [OF Some]
    show ?thesis
    proof (cases req)
      case (Beat runner now)
      then have "ct_jobs ct' = ct_jobs (sy_ct s)" "ct_attempts ct' = ct_attempts (sy_ct s)" "ct_next_job ct' = ct_next_job (sy_ct s)"
        "ct_next_attempt ct' = ct_next_attempt (sy_ct s)" "k = None \<or> k = Some (RenewLease a)"
        using r Some by (auto simp: with_lease_def heartbeat_def touchRunner_def Let_def split: prod.splits sum.splits if_splits)
      then show ?thesis
        using rows_change [OF ok, of ct' id id] copy holds_same [of ct' "sy_ct s"] by (auto simp: task_ok_def task_right_def)
    next
      case (Finish result now)
      then have "ct' = sy_ct s" "k = None \<or> k = Some (FinishClose a job result) \<and> jb_current job = Some (at_id a)"
        using r Some by (auto simp: with_lease_def finishAttempt_def isCurrent_def split: if_splits)
      then show ?thesis
        using ok copy job current_settled [OF ok, of job "at_id a"] by (auto simp: task_ok_def task_right_def)
    next
      case (Log seq data)
      let ?g = "\<lambda>x. if at_id x = at_id a \<and> at_log_seq x = at_log_seq a \<and> at_status x = AtRunning
        then x\<lparr>at_log_seq := seq, at_log_bytes := at_log_bytes x + length (log_chunk (at_log_bytes a) data)\<rparr> else x"
      have "k = None" and "ct_jobs ct' = ct_jobs (sy_ct s)" "ct_next_job ct' = ct_next_job (sy_ct s)"
        "ct_next_attempt ct' = ct_next_attempt (sy_ct s)"
        "ct_attempts ct' = ct_attempts (sy_ct s) \<or> ct_attempts ct' = map ?g (ct_attempts (sy_ct s))"
        using r Some Log by (auto simp: with_lease_def appendLog_def Let_def update_attempts_def split: if_splits)
      then show ?thesis
        using rows_change [OF ok, of ct' id id] rows_change [OF ok, of ct' id ?g] by auto
    next
      case Source
      then show ?thesis
        using r Some ok by (auto simp: with_lease_def source_route_def task_ok_def task_right_def split: if_splits)
    qed
  qed
  then show "ci_ok (s\<lparr>sy_ct := ct'\<rparr>)" "k = Some u \<Longrightarrow> task_ok u (s\<lparr>sy_ct := ct'\<rparr>)" by auto
qed

lemma run_renew: "ci_ok s \<Longrightarrow> ci_ok (s\<lparr>sy_ct := snd (renew_lease now a (sy_ct s))\<rparr>)"
  by (rule rows_change [where h = id and g = "\<lambda>x. if at_id x = at_id a \<and> at_status x = AtRunning then x\<lparr>at_expires := now + CI_LEASE_MS\<rparr> else x"])
    (auto simp: renew_lease_def update_attempts_def)

lemma running_copy:
  assumes "ci_ok s" and "\<exists>y \<in> set (ct_attempts (sy_ct s)). at_id y = i \<and> at_status y = AtRunning"
    and "x \<in> set (ct_attempts (sy_ct s))" and "at_id x = i"
  shows "at_status x = AtRunning"
proof -
  obtain y where y: "y \<in> set (ct_attempts (sy_ct s))" "at_id y = i" "at_status y = AtRunning" using assms(2) by blast
  then show ?thesis using same_attempt [of "sy_ct s" x y] assms by (simp add: ci_ok_def)
qed

lemma run_finish_close:
  assumes ok: "ci_ok s" and right: "task_right s (FinishClose a job result)" and r: "finish_close now a job result (sy_ct s) = (k, ct')"
  shows "ci_ok (s\<lparr>sy_ct := ct'\<rparr>)" and "k = Some u \<Longrightarrow> task_ok u (s\<lparr>sy_ct := ct'\<rparr>)"
proof -
  let ?P = "\<lambda>x. at_id x = at_id a \<and> at_status x = AtRunning"
  let ?f = "\<lambda>x. x\<lparr>at_status := (if res_ok result then AtSucceeded else AtFailed), at_exit := res_exit result,
    at_error := res_error result, at_finished := Some now\<rparr>"
  have ct: "ct' = snd (update_attempts ?P ?f (sy_ct s))"
    and k: "k = (if length (filter ?P (ct_attempts (sy_ct s))) = 1 then Some (FinishJob a job result) else None)"
    using r by (auto simp: finish_close_def split_beta)
  show "ci_ok (s\<lparr>sy_ct := ct'\<rparr>)"
    by (rule rows_change [OF ok, where h = id and g = "\<lambda>x. if ?P x then ?f x else x"]) (auto simp: ct)
  assume u: "k = Some u"
  then have "length (filter ?P (ct_attempts (sy_ct s))) = 1" using k by (simp split: if_splits)
  note one = one_row [OF this]
  have "at_status row = (if res_ok result then AtSucceeded else AtFailed)"
    if row: "row \<in> set (ct_attempts ct')" "at_id row = at_id a" for row
  proof -
    obtain x where x: "x \<in> set (ct_attempts (sy_ct s))" "row = (if ?P x then ?f x else x)" using row(1) by (auto simp: ct)
    then have "at_id x = at_id a" using row(2) by (simp split: if_splits)
    then have "?P x" using running_copy [OF ok one x(1)] by simp
    then show ?thesis using x(2) by simp
  qed
  then have "ended (at_id a) (if res_ok result then AtSucceeded else AtFailed) ct'" by (simp add: ended_def)
  moreover have "u = FinishJob a job result" using u k by (simp split: if_splits)
  ultimately show "task_ok u (s\<lparr>sy_ct := ct'\<rparr>)"
    using right by (simp add: task_ok_def task_right_def ct)
qed

lemma run_lose_mark:
  assumes ok: "ci_ok s" and right: "task_right s (LoseMark a reason)" and r: "lose_mark now a reason (sy_ct s) = (k, ct')"
  shows "ci_ok (s\<lparr>sy_ct := ct'\<rparr>)" and "k = Some u \<Longrightarrow> task_ok u (s\<lparr>sy_ct := ct'\<rparr>)"
proof -
  let ?P = "\<lambda>x. at_id x = at_id a \<and> at_status x = AtRunning"
  let ?f = "\<lambda>x. x\<lparr>at_status := AtLost, at_error := Some reason, at_finished := Some now\<rparr>"
  have ct: "ct' = snd (update_attempts ?P ?f (sy_ct s))"
    and k: "k = (if length (filter ?P (ct_attempts (sy_ct s))) = 1 then Some (LoseRead a reason) else None)"
    using r by (auto simp: lose_mark_def split_beta)
  show "ci_ok (s\<lparr>sy_ct := ct'\<rparr>)"
    by (rule rows_change [OF ok, where h = id and g = "\<lambda>x. if ?P x then ?f x else x"]) (auto simp: ct)
  assume u: "k = Some u"
  then have "length (filter ?P (ct_attempts (sy_ct s))) = 1" using k by (simp split: if_splits)
  note one = one_row [OF this]
  have "at_status row = AtLost" if row: "row \<in> set (ct_attempts ct')" "at_id row = at_id a" for row
  proof -
    obtain x where x: "x \<in> set (ct_attempts (sy_ct s))" "row = (if ?P x then ?f x else x)" using row(1) by (auto simp: ct)
    then have "at_id x = at_id a" using row(2) by (simp split: if_splits)
    then have "?P x" using running_copy [OF ok one x(1)] by simp
    then show ?thesis using x(2) by simp
  qed
  then have "ended (at_id a) AtLost ct'" by (simp add: ended_def)
  moreover have "u = LoseRead a reason" using u k by (simp split: if_splits)
  ultimately show "task_ok u (s\<lparr>sy_ct := ct'\<rparr>)"
    using right by (simp add: task_ok_def task_right_def ct)
qed

lemma run_lose_read:
  assumes ok: "ci_ok s" and right: "task_right s (LoseRead a reason)" and u: "lose_read a reason (sy_ct s) = Some u"
  shows "task_ok u s"
proof -
  obtain job where job: "find_job (at_job a) (sy_ct s) = Some job" "jb_current job = Some (at_id a)" "u = LoseJob a job reason"
    using u by (auto simp: lose_read_def split: option.splits if_splits)
  note row = find_job_row [OF job(1)]
  have "jb_attempts j = jb_attempts job \<and> jb_max j = jb_max job" if "j \<in> set (ct_jobs (sy_ct s))" "jb_id j = jb_id job" for j
    using same_job [of "sy_ct s" j job] ok row that by (simp add: ci_ok_def)
  then have "budget_is (at_id a) job (sy_ct s)" by (simp add: budget_is_def)
  moreover have "holds (at_id a) (jb_id job) (sy_ct s)" "\<forall>k. ClaimPoint k (at_id a) \<notin> set (sy_tasks s)"
    using current_settled [OF ok conjunct1 [OF row] job(2)] by blast+
  moreover have "holds (at_id a) (at_job a) (sy_ct s)" "ended (at_id a) AtLost (sy_ct s)"
    using right by (simp_all add: task_right_def)
  ultimately show ?thesis
    by (simp only: job(3) task_ok_def task_right_def claims.simps copied.simps pointed.simps ci_task.case option.inject prod.inject) blast
qed

lemma run_finish_job:
  assumes ok: "ci_ok s" and right: "task_right s (FinishJob a job result)"
  shows "ci_ok (s\<lparr>sy_ct := finish_job now a job result (sy_ct s)\<rparr>)"
proof -
  let ?P = "\<lambda>j. jb_id j = jb_id job \<and> jb_status j = JobRunning \<and> jb_current j = Some (at_id a)"
  let ?f = "\<lambda>j. j\<lparr>jb_status := (if res_ok result then JobSucceeded else JobFailed), jb_finished := Some now,
    jb_error := (if res_ok result then None
      else Some (case res_error result of Some e \<Rightarrow> e | None \<Rightarrow> ''Exited with '' @ exit_text (res_exit result)))\<rparr>"
  have won: "\<exists>x \<in> set (ct_attempts (sy_ct s)). jb_current j = Some (at_id x) \<and> at_status x = AtSucceeded"
    if j: "j \<in> set (ct_jobs (sy_ct s))" "?P j" "res_ok result" for j
  proof -
    obtain x where "x \<in> set (ct_attempts (sy_ct s))" "at_id x = at_id a"
      using ok j(1,2) unfolding ci_ok_def owner_ok_def by blast
    moreover from this have "at_status x = AtSucceeded" using right j(3) by (simp add: task_right_full)
    ultimately show ?thesis using j(2) by metis
  qed
  have ct: "finish_job now a job result (sy_ct s) = snd (update_jobs ?P ?f (sy_ct s))" by (simp only: finish_job_def)
  show ?thesis
    unfolding ct
  proof (rule jobs_change [OF ok, where h = "\<lambda>j. if ?P j then ?f j else j"], goal_cases)
    case (9 j)
    then show ?case using waiting_idle [OF ok, of j] by (auto split: if_splits)
  next
    case (10 j)
    then show ?case using won [of j] by (auto split: if_splits)
  qed (auto split: if_splits)
qed

lemma run_lose_job:
  assumes ok: "ci_ok s" and right: "task_right s (LoseJob a job reason)"
  shows "ci_ok (s\<lparr>sy_ct := lose_job now a job reason (sy_ct s)\<rparr>)"
proof -
  let ?P = "\<lambda>j. jb_id j = jb_id job \<and> jb_status j = JobRunning \<and> jb_current j = Some (at_id a)"
  let ?f = "\<lambda>j. if jb_attempts job < jb_max job then j\<lparr>jb_status := JobQueued, jb_current := None\<rparr>
    else j\<lparr>jb_status := JobFailed, jb_finished := Some now, jb_error := Some (reason @ ''; no attempts left'')\<rparr>"
  have idle: "\<not> counts x" if "j \<in> set (ct_jobs (sy_ct s))" "?P j" "x \<in> set (ct_attempts (sy_ct s))" "at_job x = jb_id j" for j x
  proof
    assume "counts x"
    then have "jb_current j = Some (at_id x) \<or> (\<exists>k. ClaimPoint k (at_id x) \<in> set (sy_tasks s) \<and> jb_id k = jb_id j)"
      using ok that(1,3,4) unfolding ci_ok_def owner_ok_def by metis
    then show False
    proof
      assume "jb_current j = Some (at_id x)"
      then have "at_status x = AtLost" using right that(2,3) by (auto simp: task_right_full)
      then show False using \<open>counts x\<close> by (simp add: counts_def)
    next
      assume "\<exists>k. ClaimPoint k (at_id x) \<in> set (sy_tasks s) \<and> jb_id k = jb_id j"
      then have "jb_current j = None" using ok that(1) unfolding ci_ok_def claims_ok_def by fastforce
      then show False using that(2) by simp
    qed
  qed
  have left: "jb_attempts job < jb_max job \<Longrightarrow> jb_attempts j < jb_max j" if "j \<in> set (ct_jobs (sy_ct s))" "?P j" for j
    using right that by (auto simp: task_right_def budget_is_def)
  have ct: "lose_job now a job reason (sy_ct s) = snd (update_jobs ?P ?f (sy_ct s))" by (simp only: lose_job_def)
  show ?thesis
    unfolding ct
  proof (rule jobs_change [OF ok, where h = "\<lambda>j. if ?P j then ?f j else j"], goal_cases)
    case (9 j)
    then show ?case using waiting_idle [OF ok, of j] idle [of j] left [of j] by (auto split: if_splits)
  qed (auto split: if_splits)
qed

lemma run_cancel_update:
  assumes ok: "ci_ok s" and right: "task_right s (CancelUpdate job user)" and r: "cancel_update now job user (sy_ct s) = (k, ct')"
  shows "ci_ok (s\<lparr>sy_ct := ct'\<rparr>)" and "k = Some u \<Longrightarrow> task_ok u (s\<lparr>sy_ct := ct'\<rparr>)"
proof -
  let ?P = "\<lambda>j. jb_id j = jb_id job \<and> unfinished (jb_status j)"
  let ?f = "\<lambda>j. j\<lparr>jb_status := JobCancelled, jb_cancelled_by := user, jb_finished := Some now, jb_error := Some ''Cancelled''\<rparr>"
  have ct: "ct' = snd (update_jobs ?P ?f (sy_ct s))" and k: "k = None \<or> k = Some (CancelAttempt job)"
    using r by (auto simp: cancel_update_def split_beta split: if_splits)
  show "ci_ok (s\<lparr>sy_ct := ct'\<rparr>)"
    unfolding ct
  proof (rule jobs_change [OF ok, where h = "\<lambda>j. if ?P j then ?f j else j"], goal_cases)
    case (9 j)
    then show ?case using waiting_idle [OF ok, of j] by (auto split: if_splits)
  qed (auto split: if_splits)
  show "k = Some u \<Longrightarrow> task_ok u (s\<lparr>sy_ct := ct'\<rparr>)"
    using k right by (auto simp: task_ok_def task_right_def ct)
qed

lemma run_cancel_attempt: "ci_ok s \<Longrightarrow> ci_ok (s\<lparr>sy_ct := cancel_attempt now job (sy_ct s)\<rparr>)"
  by (rule rows_change [where h = id and g = "\<lambda>x. if Some (at_id x) = jb_current job \<and> at_status x = AtRunning
      then x\<lparr>at_status := AtCancelled, at_finished := Some now, at_error := Some ''Cancelled''\<rparr> else x"])
    (auto simp: cancel_attempt_def update_attempts_def)

lemma run_pin_source: "ci_ok s \<Longrightarrow> ci_ok (s\<lparr>sy_ct := pin_source sha job (sy_ct s)\<rparr>)"
  by (rule rows_change [where h = "\<lambda>j. if jb_commit job = None \<and> jb_id j = jb_id job then j\<lparr>jb_commit := Some sha\<rparr> else j" and g = id])
    (auto simp: pin_source_def update_jobs_def)


text \<open>A waiting job is taken: it runs, with no attempt that counts, and one claim holds it.\<close>

lemma claim_taken:
  assumes ok: "ci_ok s" and q: "q \<in> set (ct_jobs (sy_ct s))" "jb_status q = JobQueued" and tasks: "sy_tasks s = xs @ ys"
    and job: "jb_id job = jb_id q"
    and jobs: "ct_jobs ct' = map (\<lambda>j. if j = q then q' else j) (ct_jobs (sy_ct s))" "ct_next_job ct' = ct_next_job (sy_ct s)"
    and attempts: "ct_attempts ct' = ct_attempts (sy_ct s)" "ct_next_attempt ct' = ct_next_attempt (sy_ct s)"
    and q': "jb_id q' = jb_id q" "jb_status q' = JobRunning" "jb_current q' = jb_current q" "jb_attempts q' = jb_attempts q + 1"
      "jb_max q' = jb_max q"
  shows "ci_ok (s\<lparr>sy_ct := ct', sy_tasks := xs @ [ClaimInsert runner job] @ ys\<rparr>)"
proof -
  let ?s = "s\<lparr>sy_ct := ct', sy_tasks := xs @ [ClaimInsert runner job] @ ys\<rparr>"
  note idle = waiting_idle [OF ok q(1)]
  have rows: "k \<in> set (ct_jobs ct') \<Longrightarrow> k = q' \<or> k \<in> set (ct_jobs (sy_ct s)) \<and> jb_id k \<noteq> jb_id q" for k
    using same_job [of "sy_ct s" k q] ok q(1) by (auto simp: jobs ci_ok_def)
  have none: "jb_current q' = None" using idle(1) q(2) q'(3) by simp
  have point: "ClaimPoint j i \<in> set (sy_tasks ?s) \<longleftrightarrow> ClaimPoint j i \<in> set (sy_tasks s)" for j i by (auto simp: tasks)
  have ids: "map jb_id (ct_jobs ct') = map jb_id (ct_jobs (sy_ct s))" by (auto simp: jobs q'(1))
  then have idset: "jb_id ` set (ct_jobs ct') = jb_id ` set (ct_jobs (sy_ct s))" by (metis set_map)
  have "keys_ok ct'"
    using ok ids idset rows unfolding ci_ok_def keys_ok_def attempts jobs(2) by (metis (no_types, lifting) image_iff)
  moreover have "claims_ok ?s"
    unfolding claims_ok_def
  proof (intro conjI, goal_cases)
    case 1
    have "jb_id q \<notin> set (List.map_filter claims (xs @ ys))"
      using idle(3) q(2) by (auto simp: map_filter_def tasks)
    then show ?case using ok by (auto simp: ci_ok_def claims_ok_def tasks map_filter_def job)
  next
    case 2
    show ?case
    proof (intro ballI impI)
      fix t k
      assume t: "t \<in> set (sy_tasks ?s)" "claims t = Some (jb_id k)" and k: "k \<in> set (ct_jobs (sy_ct ?s))"
      have "k = q' \<or> k \<in> set (ct_jobs (sy_ct s)) \<and> jb_id k \<noteq> jb_id q" using rows [of k] k by simp
      then show "jb_current k = None \<and> jb_status k \<in> {JobRunning, JobCancelled, JobFailed}"
      proof
        assume k: "k \<in> set (ct_jobs (sy_ct s)) \<and> jb_id k \<noteq> jb_id q"
        then have "t \<in> set (sy_tasks s)" using t job by (auto simp: tasks)
        then show ?thesis using ok k t(2) unfolding ci_ok_def claims_ok_def by blast
      qed (simp add: none q')
    qed
  next
    case 3
    have "jb_id q < ct_next_job (sy_ct s)" using ok q(1) by (simp add: ci_ok_def keys_ok_def)
    then show ?case using ok by (auto simp: ci_ok_def claims_ok_def tasks jobs(2) job)
  next
    case 4
    have "(\<exists>k \<in> set (ct_jobs ct'). jb_id k = i) \<longleftrightarrow> (\<exists>k \<in> set (ct_jobs (sy_ct s)). jb_id k = i)" for i
      using idset by (metis image_iff)
    then show ?case using ok point unfolding ci_ok_def claims_ok_def by (simp add: attempts)
  qed
  moreover have "owner_ok ?s"
    unfolding owner_ok_def
  proof (intro conjI ballI allI impI, goal_cases)
    case (1 a k)
    have "k = q' \<or> k \<in> set (ct_jobs (sy_ct s))" using rows [of k] 1(3) by auto
    then show ?case
    proof
      assume "k = q'"
      then have "\<not> counts a" using idle(2) [of a] q(2) 1(1,4) q'(1) by (simp add: attempts)
      then show ?thesis using 1(2) by simp
    next
      assume k: "k \<in> set (ct_jobs (sy_ct s))"
      have "a \<in> set (ct_attempts (sy_ct s))" using 1(1) by (simp add: attempts)
      then show ?thesis using ok k 1(2,4) unfolding ci_ok_def owner_ok_def point by blast
    qed
  next
    case (2 k i)
    then have "k \<in> set (ct_jobs (sy_ct s))" using rows [of k] none by auto
    then show ?case using ok 2(2) by (simp add: ci_ok_def owner_ok_def attempts)
  qed
  moreover have "task_right ?s t" if "task_right s t" for t
  proof -
    have left: "budget_is i job (sy_ct s) \<Longrightarrow> budget_is i job ct'" for i job
      using rows none unfolding budget_is_def by fastforce
    then show ?thesis
      using that point holds_same [of ct' "sy_ct s"] attempts unfolding task_right_def ended_def by (cases t) (simp_all add: left)
  qed
  then have "\<forall>t \<in> set (sy_tasks ?s). task_right ?s t"
    using ok by (auto simp: ci_ok_def tasks task_right_def [of _ "ClaimInsert runner job"])
  moreover have "results_ok ct'"
    using ok rows q'(2) unfolding ci_ok_def results_ok_def by (fastforce simp: attempts)
  moreover have "budget_ok ct'"
    using ok rows q' idle(1) q(2) unfolding ci_ok_def budget_ok_def by fastforce
  ultimately show ?thesis by (simp add: ci_ok_def)
qed


lemma drop_task:
  assumes "ci_ok s" and "sy_tasks s = xs @ t # ys" and "\<And>j i. t \<noteq> ClaimPoint j i"
  shows "ci_ok (s\<lparr>sy_tasks := xs @ ys\<rparr>)"
proof (rule tasks_change [OF assms(1)])
  show "distinct (List.map_filter claims (xs @ ys))"
    using assms(1,2) by (auto simp: ci_ok_def claims_ok_def map_filter_def split: if_splits)
qed (use assms(2,3) in auto)

lemma update_none: "(\<And>j. j \<in> set (ct_jobs ct) \<Longrightarrow> \<not> P j) \<Longrightarrow> snd (update_jobs P f ct) = ct"
  by (simp add: update_jobs_def map_idI)

lemma only_row:
  assumes "distinct xs" and "q \<in> set xs" and "\<And>x. x \<in> set xs \<Longrightarrow> P x \<longleftrightarrow> x = q"
  shows "length (filter P xs) = 1"
proof -
  have "{x. P x} \<inter> set xs = {q}" using assms(2,3) by auto
  then show ?thesis using assms(1) by (simp add: distinct_length_filter)
qed

lemma run_claim_flip:
  assumes ok: "ci_ok s" and tasks: "sy_tasks s = xs @ ClaimFlip runner queued # ys" and r: "claim_flip inp runner queued (sy_ct s) = (k, ct')"
  shows "ci_ok (s\<lparr>sy_ct := ct', sy_tasks := next_tasks xs k ys\<rparr>)"
proof (cases "dropWhile (\<lambda>j. \<not> labelsFit (jb_labels j) (ru_labels runner)) queued")
  case Nil
  then have "k = None" "ct' = sy_ct s" using r unfolding claim_flip_def Nil by simp_all
  then show ?thesis using drop_task [OF ok tasks] by simp
next
  case (Cons job rest)
  let ?P = "\<lambda>j. jb_id j = jb_id job \<and> jb_status j = JobQueued"
  let ?f = "\<lambda>j. j\<lparr>jb_status := JobRunning, jb_attempts := jb_attempts j + 1,
    jb_started := (if jb_started job = None then Some (ci_now inp) else jb_started job)\<rparr>"
  have ct: "ct' = snd (update_jobs ?P ?f (sy_ct s))"
    and k: "k = Some (if length (filter ?P (ct_jobs (sy_ct s))) = 1 then ClaimInsert runner job else ClaimFlip runner rest)"
    using r by (auto simp: claim_flip_def Cons split_beta)
  show ?thesis
  proof (cases "\<exists>q \<in> set (ct_jobs (sy_ct s)). ?P q")
    case False
    then have "ct' = sy_ct s" unfolding ct by (intro update_none) blast
    moreover have "k = Some (ClaimFlip runner rest)" using False one_row [of ?P "ct_jobs (sy_ct s)"] k by auto
    ultimately show ?thesis using replace_task [OF ok tasks, of k] by (simp add: task_ok_def task_right_def)
  next
    case True
    then obtain q where q: "q \<in> set (ct_jobs (sy_ct s))" "?P q" by blast
    have only: "?P j \<longleftrightarrow> j = q" if "j \<in> set (ct_jobs (sy_ct s))" for j
      using same_job [of "sy_ct s" j q] ok q that by (auto simp: ci_ok_def)
    have "distinct (ct_jobs (sy_ct s))" using ok by (simp add: ci_ok_def keys_ok_def distinct_map)
    then have "length (filter ?P (ct_jobs (sy_ct s))) = 1"
      using only_row [of _ q ?P] only q(1) by blast
    then have k: "k = Some (ClaimInsert runner job)" using k by simp
    have jobs: "ct_jobs ct' = map (\<lambda>j. if j = q then ?f q else j) (ct_jobs (sy_ct s))" using only by (simp add: ct)
    have "ci_ok (s\<lparr>sy_tasks := xs @ ys\<rparr>)" using drop_task [OF ok tasks] by simp
    from claim_taken [OF this, of q xs ys job ct' "?f q" runner] show ?thesis using q by (simp add: k jobs) (simp add: ct)
  qed
qed

lemma run_claim_insert:
  assumes ok: "ci_ok s" and tasks: "sy_tasks s = xs @ ClaimInsert runner job # ys" and r: "claim_insert inp runner job (sy_ct s) = (k, ct')"
  shows "ci_ok (s\<lparr>sy_ct := ct', sy_tasks := next_tasks xs k ys\<rparr>)"
proof (cases "insert_fails job (ci_hash inp) (sy_ct s)")
  case True
  then have "k = None" "ct' = sy_ct s" using r by (simp_all add: claim_insert_def)
  then show ?thesis using drop_task [OF ok tasks] by simp
next
  case False
  let ?n = "ct_next_attempt (sy_ct s)"
  let ?s = "s\<lparr>sy_ct := ct', sy_tasks := next_tasks xs k ys\<rparr>"
  obtain new where new: "ct_attempts ct' = ct_attempts (sy_ct s) @ [new]" "at_id new = ?n" "at_job new = jb_id job"
      "at_number new = jb_attempts job + 1" "at_status new = AtRunning"
    and rest: "ct_jobs ct' = ct_jobs (sy_ct s)" "ct_next_job ct' = ct_next_job (sy_ct s)" "ct_next_attempt ct' = ?n + 1"
    and k: "k = Some (ClaimPoint job ?n)"
    using r False by (auto simp: claim_insert_def)
  have fresh: "at_id a < ?n" if "a \<in> set (ct_attempts (sy_ct s))" for a using ok that by (simp add: ci_ok_def keys_ok_def)
  obtain row where row: "row \<in> set (ct_jobs (sy_ct s))" "jb_id row = jb_id job"
    using False find_job_row by (fastforce simp: insert_fails_def)
  have held: "holds i m ct' \<longleftrightarrow> holds i m (sy_ct s)" if "i < ?n" for i m using that by (auto simp: holds_def new rest)
  have over: "ended i st ct' \<longleftrightarrow> ended i st (sy_ct s)" if "i < ?n" for i st using that by (auto simp: ended_def new)
  have point: "ClaimPoint j i \<in> set (sy_tasks ?s) \<longleftrightarrow> ClaimPoint j i \<in> set (sy_tasks s) \<or> j = job \<and> i = ?n" for j i
    by (auto simp: tasks k)
  have old: "ClaimPoint j i \<in> set (sy_tasks s) \<Longrightarrow> i < ?n" for j i using ok by (auto simp: ci_ok_def claims_ok_def)
  have claimed: "\<exists>t' \<in> set (sy_tasks s). claims t' = Some i" if "t \<in> set (sy_tasks ?s)" "claims t = Some i" for t i
    using that by (auto simp: tasks k)
  have "keys_ok ct'"
    using ok False row by (auto simp: ci_ok_def keys_ok_def new rest insert_fails_def list_ex_iff image_iff dest: fresh)
  moreover have "claims_ok ?s"
    unfolding claims_ok_def
  proof (intro conjI, goal_cases)
    case 1 show ?case using ok by (simp add: ci_ok_def claims_ok_def tasks k map_filter_def)
  next
    case 2 show ?case
    proof (intro ballI impI)
      fix t j assume t: "t \<in> set (sy_tasks ?s)" "claims t = Some (jb_id j)" and j: "j \<in> set (ct_jobs (sy_ct ?s))"
      obtain t' where "t' \<in> set (sy_tasks s)" "claims t' = Some (jb_id j)" using claimed [OF t] by blast
      then show "jb_current j = None \<and> jb_status j \<in> {JobRunning, JobCancelled, JobFailed}"
        using ok j unfolding ci_ok_def claims_ok_def by (simp add: rest)
    qed
  next
    case 3 show ?case
    proof (intro ballI allI impI)
      fix t i assume t: "t \<in> set (sy_tasks ?s)" "claims t = Some i"
      obtain t' where "t' \<in> set (sy_tasks s)" "claims t' = Some i" using claimed [OF t] by blast
      then show "i < ct_next_job (sy_ct ?s)" using ok unfolding ci_ok_def claims_ok_def by (simp add: rest)
    qed
  next
    case 4 show ?case
    proof (intro allI impI)
      fix j i assume p: "ClaimPoint j i \<in> set (sy_tasks ?s)"
      then consider "ClaimPoint j i \<in> set (sy_tasks s)" | "j = job" "i = ?n" using point by blast
      then show "i < ct_next_attempt (sy_ct ?s) \<and> (\<forall>a \<in> set (ct_attempts (sy_ct ?s)). at_id a = i \<longrightarrow> at_job a = jb_id j)
          \<and> (\<forall>k \<in> set (ct_jobs (sy_ct ?s)). jb_id k = jb_id j \<longrightarrow> (\<exists>a \<in> set (ct_attempts (sy_ct ?s)). at_id a = i))"
      proof cases
        case 1
        then have "\<forall>a \<in> set (ct_attempts (sy_ct s)). at_id a = i \<longrightarrow> at_job a = jb_id j"
          "\<forall>k \<in> set (ct_jobs (sy_ct s)). jb_id k = jb_id j \<longrightarrow> (\<exists>a \<in> set (ct_attempts (sy_ct s)). at_id a = i)"
          using ok unfolding ci_ok_def claims_ok_def by blast+
        then show ?thesis using old [OF 1] by (auto simp: new rest)
      next
        case 2
        then show ?thesis using new rest by (auto dest: fresh)
      qed
    qed
  qed
  moreover have "owner_ok ?s"
    unfolding owner_ok_def
  proof (intro conjI ballI allI impI, goal_cases)
    case (1 a j)
    show ?case
    proof (cases "a = new")
      case True
      then have "ClaimPoint job (at_id a) \<in> set (sy_tasks ?s) \<and> jb_id job = jb_id j" using point 1(4) new(2,3) by simp
      then show ?thesis by blast
    next
      case False
      then have "a \<in> set (ct_attempts (sy_ct s))" "j \<in> set (ct_jobs (sy_ct s))" using 1(1,3) by (simp_all add: new(1) rest)
      then show ?thesis using ok 1(2,4) point unfolding ci_ok_def owner_ok_def by blast
    qed
  next
    case (2 j i)
    then show ?case using ok unfolding ci_ok_def owner_ok_def by (auto simp: new(1) rest)
  qed
  moreover have "task_right ?s t" if t: "task_right s t" for t
  proof -
    have "at_id a < ?n" if "copied t = Some a" for a using t that by (simp add: task_right_def holds_def)
    moreover have "i < ?n" if "pointed t = Some (i, m)" for i m using t that by (simp add: task_right_def holds_def)
    ultimately show ?thesis using t unfolding task_right_def point by (cases t) (auto simp: held over rest budget_is_def)
  qed
  then have "\<forall>t \<in> set (sy_tasks ?s). task_right ?s t"
    using ok by (auto simp: ci_ok_def tasks k task_right_def [of _ "ClaimPoint job ?n"])
  moreover have "results_ok ct'" using ok by (auto simp: ci_ok_def results_ok_def new(1) rest)
  moreover have "budget_ok ct'" using ok by (simp add: ci_ok_def budget_ok_def rest)
  ultimately show ?thesis by (simp add: ci_ok_def)
qed


text \<open>Only one claim holds a job, so once it points to its attempt no other task points to an attempt of that job.\<close>

lemma one_claim:
  assumes "claims_ok s" and "sy_tasks s = xs @ t # ys" and "t' \<in> set xs \<union> set ys" and "claims t = Some i"
  shows "claims t' \<noteq> Some i"
proof
  assume "claims t' = Some i"
  then have "i \<in> set (List.map_filter claims xs) \<union> set (List.map_filter claims ys)"
    using assms(3) by (force simp: map_filter_def)
  moreover have "distinct (List.map_filter claims xs @ i # List.map_filter claims ys)"
    using assms(1,2,4) by (simp add: claims_ok_def map_filter_def)
  ultimately show False by auto
qed

lemma run_claim_point:
  assumes ok: "ci_ok s" and tasks: "sy_tasks s = xs @ ClaimPoint job i # ys"
  shows "ci_ok (s\<lparr>sy_ct := claim_point job i (sy_ct s), sy_tasks := xs @ ys\<rparr>)"
proof -
  let ?ct = "claim_point job i (sy_ct s)"
  let ?s = "s\<lparr>sy_ct := ?ct, sy_tasks := xs @ ys\<rparr>"
  define h where "h = (\<lambda>j :: ci_job. if jb_id j = jb_id job then j\<lparr>jb_current := Some i\<rparr> else j)"
  have h [simp]: "jb_id (h j) = jb_id j" "jb_status (h j) = jb_status j" "jb_attempts (h j) = jb_attempts j" "jb_max (h j) = jb_max j" for j
    by (simp_all add: h_def)
  have current: "jb_current (h j) = (if jb_id j = jb_id job then Some i else jb_current j)" for j by (simp add: h_def)
  have rows: "ct_jobs ?ct = map h (ct_jobs (sy_ct s))" "ct_attempts ?ct = ct_attempts (sy_ct s)"
    "ct_next_job ?ct = ct_next_job (sy_ct s)" "ct_next_attempt ?ct = ct_next_attempt (sy_ct s)"
    by (simp_all add: claim_point_def h_def)
  have mine: "ClaimPoint job i \<in> set (sy_tasks s)" by (simp add: tasks)
  have claimed: "jb_current j = None \<and> jb_status j \<in> {JobRunning, JobCancelled, JobFailed}"
    if "j \<in> set (ct_jobs (sy_ct s))" "jb_id j = jb_id job" for j
    using ok that mine unfolding ci_ok_def claims_ok_def by fastforce
  have other: "claims t \<noteq> Some (jb_id job)" if "t \<in> set xs \<union> set ys" for t
    using one_claim [OF _ tasks that] ok by (simp add: ci_ok_def)
  have here: "\<exists>a \<in> set (ct_attempts (sy_ct s)). at_id a = i \<and> at_job a = jb_id job"
    if "j \<in> set (ct_jobs (sy_ct s))" "jb_id j = jb_id job" for j
    using ok mine that unfolding ci_ok_def claims_ok_def by blast
  have keys: "keys_ok ?ct" using ok by (simp add: ci_ok_def keys_ok_def rows comp_def)
  moreover have "claims_ok ?s"
    unfolding claims_ok_def
  proof (intro conjI, goal_cases)
    case 1 show ?case using ok by (simp add: ci_ok_def claims_ok_def tasks map_filter_def)
  next
    case 2 show ?case
    proof (intro ballI impI)
      fix t k assume t: "t \<in> set (sy_tasks ?s)" "claims t = Some (jb_id k)" and k: "k \<in> set (ct_jobs (sy_ct ?s))"
      obtain j where j: "j \<in> set (ct_jobs (sy_ct s))" "k = h j" using k by (auto simp: rows)
      have "jb_id k = jb_id j" using j(2) by simp
      then have "jb_id j \<noteq> jb_id job" using other [of t] t by auto
      then have "k = j" "t \<in> set (sy_tasks s)" using j(2) t(1) by (auto simp: tasks h_def)
      then show "jb_current k = None \<and> jb_status k \<in> {JobRunning, JobCancelled, JobFailed}"
        using ok j(1) t(2) unfolding ci_ok_def claims_ok_def by simp
    qed
  next
    case 3 show ?case using ok by (simp add: ci_ok_def claims_ok_def tasks rows)
  next
    case 4 show ?case using ok by (simp add: ci_ok_def claims_ok_def tasks rows) 
  qed
  moreover have "owner_ok ?s"
    unfolding owner_ok_def
  proof (intro conjI ballI allI impI, goal_cases)
    case (1 a k)
    obtain j where j: "j \<in> set (ct_jobs (sy_ct s))" "k = h j" using 1(3) by (auto simp: rows)
    have id: "jb_id k = jb_id j" using j(2) by simp
    have a: "a \<in> set (ct_attempts (sy_ct s))" using 1(1) by (simp add: rows)
    then have "jb_current j = Some (at_id a) \<and> jb_status j \<notin> {JobAwaiting, JobQueued}
        \<or> (\<exists>p. ClaimPoint p (at_id a) \<in> set (sy_tasks s) \<and> jb_id p = jb_id j)"
      using ok j(1) 1(2,4) id unfolding ci_ok_def owner_ok_def by metis
    then show ?case
    proof
      assume c: "jb_current j = Some (at_id a) \<and> jb_status j \<notin> {JobAwaiting, JobQueued}"
      then have "k = j" using claimed [OF j(1)] j(2) by (auto simp: h_def)
      then show ?thesis using c by simp
    next
      assume "\<exists>p. ClaimPoint p (at_id a) \<in> set (sy_tasks s) \<and> jb_id p = jb_id j"
      then obtain p where p: "ClaimPoint p (at_id a) \<in> set (sy_tasks s)" "jb_id p = jb_id j" by blast
      show ?thesis
      proof (cases "jb_id j = jb_id job")
        case True
        then have "ClaimPoint p (at_id a) = ClaimPoint job i" using other [of "ClaimPoint p (at_id a)"] p by (auto simp: tasks)
        then show ?thesis using claimed [OF j(1) True] True j(2) by (auto simp: current)
      next
        case False
        then have "ClaimPoint p (at_id a) \<in> set (sy_tasks ?s)" using p by (auto simp: tasks)
        then show ?thesis using p(2) id by auto
      qed
    qed
  next
    case (2 k m)
    obtain j where j: "j \<in> set (ct_jobs (sy_ct s))" "k = h j" using 2(1) by (auto simp: rows)
    show ?case
    proof (cases "jb_id j = jb_id job")
      case True
      then show ?thesis using here [OF j(1) True] j(2) 2(2) True rows(2) by (simp add: current)
    next
      case False
      then have "k = j" using j(2) by (simp add: h_def)
      then show ?thesis using ok j(1) 2(2) unfolding ci_ok_def owner_ok_def by (simp add: rows)
    qed
  qed
  moreover have "task_right ?s t" if t: "task_right s t" for t
  proof -
    have "m \<noteq> i" if "\<forall>p. ClaimPoint p m \<notin> set (sy_tasks s)" for m using that mine by blast
    then have left: "budget_is m p (sy_ct s) \<Longrightarrow> budget_is m p ?ct" if "\<forall>p. ClaimPoint p m \<notin> set (sy_tasks s)" for m p
      using that unfolding budget_is_def rows by (auto simp: current split: if_splits)
    show ?thesis
      using t holds_same [OF rows(2,4)] unfolding task_right_def ended_def by (cases t) (auto simp: rows tasks intro!: left)
  qed
  then have "\<forall>t \<in> set (sy_tasks ?s). task_right ?s t" using ok by (simp add: ci_ok_def tasks)
  moreover have "results_ok ?ct" using ok claimed by (fastforce simp: ci_ok_def results_ok_def rows current)
  moreover have "budget_ok ?ct" using ok claimed by (fastforce simp: ci_ok_def budget_ok_def rows current)
  ultimately show ?thesis by (simp add: ci_ok_def)
qed


subsection \<open>New jobs and pruned jobs\<close>

lemma create_ok:
  assumes ok: "ci_ok s" and budget: "0 < pl_max_attempts pipeline"
  shows "ci_ok (s\<lparr>sy_ct := snd (createJob service pipeline ref trigger user deployment approval (sy_ct s))\<rparr>)"
proof -
  let ?ct = "snd (createJob service pipeline ref trigger user deployment approval (sy_ct s))"
  let ?n = "ct_next_job (sy_ct s)"
  obtain new where new: "ct_jobs ?ct = ct_jobs (sy_ct s) @ [new]" "jb_id new = ?n" "jb_current new = None"
      "jb_status new \<in> {JobAwaiting, JobQueued}" "jb_attempts new = 0" "0 < jb_max new"
    and rest: "ct_attempts ?ct = ct_attempts (sy_ct s)" "ct_next_job ?ct = ?n + 1" "ct_next_attempt ?ct = ct_next_attempt (sy_ct s)"
    using budget by (auto simp: createJob_def Let_def)
  have fresh: "jb_id j < ?n" if "j \<in> set (ct_jobs (sy_ct s))" for j using ok that by (simp add: ci_ok_def keys_ok_def)
  have alone: "at_job a \<noteq> ?n" if "a \<in> set (ct_attempts (sy_ct s))" for a
    using ok that fresh unfolding ci_ok_def keys_ok_def by fastforce
  have unclaimed: "claims t \<noteq> Some ?n" if "t \<in> set (sy_tasks s)" for t
    using ok that unfolding ci_ok_def claims_ok_def by fastforce
  have unpointed: "jb_id p \<noteq> ?n" if "ClaimPoint p i \<in> set (sy_tasks s)" for p i
    using unclaimed [OF that] by simp
  have "keys_ok ?ct"
    using ok unfolding ci_ok_def keys_ok_def by (auto simp: new(1,2) rest dest: fresh)
  moreover have "claims_ok (s\<lparr>sy_ct := ?ct\<rparr>)"
    unfolding claims_ok_def
  proof (intro conjI, goal_cases)
    case 1 show ?case using ok by (simp add: ci_ok_def claims_ok_def)
  next
    case 2 show ?case using ok unclaimed unfolding ci_ok_def claims_ok_def by (auto simp: new(1,2))
  next
    case 3 show ?case using ok unfolding ci_ok_def claims_ok_def by (fastforce simp: rest)
  next
    case 4 show ?case
    proof (intro allI impI)
      fix p i assume p: "ClaimPoint p i \<in> set (sy_tasks (s\<lparr>sy_ct := ?ct\<rparr>))"
      then have "i < ct_next_attempt (sy_ct s)" "\<forall>a \<in> set (ct_attempts (sy_ct s)). at_id a = i \<longrightarrow> at_job a = jb_id p"
        "\<forall>k \<in> set (ct_jobs (sy_ct s)). jb_id k = jb_id p \<longrightarrow> (\<exists>a \<in> set (ct_attempts (sy_ct s)). at_id a = i)"
        using ok unfolding ci_ok_def claims_ok_def by auto
      moreover have "jb_id p \<noteq> ?n" using unpointed p by simp
      ultimately show "i < ct_next_attempt (sy_ct (s\<lparr>sy_ct := ?ct\<rparr>))
        \<and> (\<forall>a \<in> set (ct_attempts (sy_ct (s\<lparr>sy_ct := ?ct\<rparr>))). at_id a = i \<longrightarrow> at_job a = jb_id p)
        \<and> (\<forall>k \<in> set (ct_jobs (sy_ct (s\<lparr>sy_ct := ?ct\<rparr>))). jb_id k = jb_id p \<longrightarrow> (\<exists>a \<in> set (ct_attempts (sy_ct (s\<lparr>sy_ct := ?ct\<rparr>))). at_id a = i))"
        using new(2) by (auto simp: new(1) rest)
    qed
  qed
  moreover have "owner_ok (s\<lparr>sy_ct := ?ct\<rparr>)"
    unfolding owner_ok_def
  proof (intro conjI ballI allI impI, goal_cases)
    case (1 a k)
    then have "k \<in> set (ct_jobs (sy_ct s))" "a \<in> set (ct_attempts (sy_ct s))" using alone [of a] new(2) by (auto simp: new(1) rest)
    then show ?case using ok 1(2,4) unfolding ci_ok_def owner_ok_def by simp
  next
    case (2 k i)
    then have "k \<in> set (ct_jobs (sy_ct s))" using new(3) by (auto simp: new(1))
    then show ?case using ok 2(2) unfolding ci_ok_def owner_ok_def by (simp add: rest)
  qed
  moreover have "task_right (s\<lparr>sy_ct := ?ct\<rparr>) t" if t: "task_right s t" for t
  proof -
    have left: "budget_is i job ?ct \<longleftrightarrow> budget_is i job (sy_ct s)" for i job using new(3) by (auto simp: budget_is_def new(1))
    show ?thesis
      using t holds_same [OF rest(1,3)] unfolding task_right_def ended_def by (cases t) (simp_all add: rest left)
  qed
  then have "\<forall>t \<in> set (sy_tasks s). task_right (s\<lparr>sy_ct := ?ct\<rparr>) t" using ok by (simp add: ci_ok_def)
  moreover have "results_ok ?ct" using ok new(4) by (auto simp: ci_ok_def results_ok_def new(1) rest)
  moreover have "budget_ok ?ct" using ok new(3-6) by (auto simp: ci_ok_def budget_ok_def new(1) rest)
  ultimately show ?thesis by (simp add: ci_ok_def)
qed

text \<open>Jobs go, with their attempts, and no others.\<close>

definition drops_jobs :: "ci_tables \<Rightarrow> ci_tables \<Rightarrow> bool" where
  "drops_jobs ct ct' \<longleftrightarrow> (\<exists>old. ct_jobs ct' = filter (\<lambda>j. jb_id j \<notin> set old) (ct_jobs ct)
     \<and> ct_attempts ct' = filter (\<lambda>a. at_job a \<notin> set old) (ct_attempts ct))
     \<and> ct_next_job ct' = ct_next_job ct \<and> ct_next_attempt ct' = ct_next_attempt ct"

lemma drops_pruned: "drops_jobs ct (snd (pruneCiJobs days now ct))"
  unfolding drops_jobs_def
proof (intro conjI exI [of _ "map jb_id (take 500 (filter (\<lambda>j. jb_status j \<in> {JobSucceeded, JobFailed, JobCancelled}
      \<and> (case jb_finished j of None \<Rightarrow> False | Some t \<Rightarrow> t < now - int days * 86400000)) (ct_jobs ct)))"])
qed (simp_all add: pruneCiJobs_def Let_def)

lemma drops_removed: "drops_jobs ct (cascade_service service ct)"
  unfolding drops_jobs_def
  by (intro conjI exI [of _ "map jb_id (filter (\<lambda>j. jb_service j = service) (ct_jobs ct))"]) (simp_all add: cascade_service_def Let_def)

lemma dropped_attempt:
  "drops_jobs ct ct' \<Longrightarrow> a \<in> set (ct_attempts ct) \<Longrightarrow> k \<in> set (ct_jobs ct') \<Longrightarrow> at_job a = jb_id k \<Longrightarrow> a \<in> set (ct_attempts ct')"
  by (auto simp: drops_jobs_def)

lemma drop_jobs_ok:
  assumes ok: "ci_ok s" and drops: "drops_jobs (sy_ct s) ct'"
  shows "ci_ok (s\<lparr>sy_ct := ct'\<rparr>)"
proof -
  obtain old where jobs: "ct_jobs ct' = filter (\<lambda>j. jb_id j \<notin> set old) (ct_jobs (sy_ct s))"
    and attempts: "ct_attempts ct' = filter (\<lambda>a. at_job a \<notin> set old) (ct_attempts (sy_ct s))"
    and rest: "ct_next_job ct' = ct_next_job (sy_ct s)" "ct_next_attempt ct' = ct_next_attempt (sy_ct s)"
    using drops by (auto simp: drops_jobs_def)
  have sub: "set (ct_jobs ct') \<subseteq> set (ct_jobs (sy_ct s))" "set (ct_attempts ct') \<subseteq> set (ct_attempts (sy_ct s))"
    by (auto simp: jobs attempts)
  have kept: "a \<in> set (ct_attempts ct')" if "a \<in> set (ct_attempts (sy_ct s))" "k \<in> set (ct_jobs ct')" "at_job a = jb_id k" for a k
    using that by (auto simp: jobs attempts)
  have "keys_ok ct'"
    using ok unfolding ci_ok_def keys_ok_def jobs attempts rest by (fastforce simp: distinct_map_filter)
  moreover have "claims_ok (s\<lparr>sy_ct := ct'\<rparr>)"
    unfolding claims_ok_def
  proof (intro conjI, goal_cases)
    case 1 show ?case using ok by (simp add: ci_ok_def claims_ok_def)
  next
    case 2 show ?case using ok sub unfolding ci_ok_def claims_ok_def by auto
  next
    case 3 show ?case using ok unfolding ci_ok_def claims_ok_def by (simp add: rest)
  next
    case 4 show ?case
    proof (intro allI impI)
      fix p i assume p: "ClaimPoint p i \<in> set (sy_tasks (s\<lparr>sy_ct := ct'\<rparr>))"
      then have i: "i < ct_next_attempt (sy_ct s)" "\<forall>a \<in> set (ct_attempts (sy_ct s)). at_id a = i \<longrightarrow> at_job a = jb_id p"
        "\<forall>k \<in> set (ct_jobs (sy_ct s)). jb_id k = jb_id p \<longrightarrow> (\<exists>a \<in> set (ct_attempts (sy_ct s)). at_id a = i)"
        using ok unfolding ci_ok_def claims_ok_def by auto
      have "\<exists>a \<in> set (ct_attempts ct'). at_id a = i" if k: "k \<in> set (ct_jobs ct')" "jb_id k = jb_id p" for k
      proof -
        obtain a where "a \<in> set (ct_attempts (sy_ct s))" "at_id a = i" using i(3) k sub(1) by blast
        then show ?thesis using kept [of a k] i(2) k by auto
      qed
      then show "i < ct_next_attempt (sy_ct (s\<lparr>sy_ct := ct'\<rparr>))
        \<and> (\<forall>a \<in> set (ct_attempts (sy_ct (s\<lparr>sy_ct := ct'\<rparr>))). at_id a = i \<longrightarrow> at_job a = jb_id p)
        \<and> (\<forall>k \<in> set (ct_jobs (sy_ct (s\<lparr>sy_ct := ct'\<rparr>))). jb_id k = jb_id p \<longrightarrow> (\<exists>a \<in> set (ct_attempts (sy_ct (s\<lparr>sy_ct := ct'\<rparr>))). at_id a = i))"
        using i(1,2) sub(2) by (auto simp: rest)
    qed
  qed
  moreover have "owner_ok (s\<lparr>sy_ct := ct'\<rparr>)"
    unfolding owner_ok_def
  proof (intro conjI ballI allI impI, goal_cases)
    case (1 a k)
    then have "k \<in> set (ct_jobs (sy_ct s))" "a \<in> set (ct_attempts (sy_ct s))" using sub by auto
    then show ?case using ok 1(2,4) unfolding ci_ok_def owner_ok_def by simp
  next
    case (2 k i)
    then have "k \<in> set (ct_jobs (sy_ct s))" using sub by auto
    then obtain a where "a \<in> set (ct_attempts (sy_ct s))" "at_id a = i" "at_job a = jb_id k"
      using ok 2(2) unfolding ci_ok_def owner_ok_def by blast
    then show ?case using kept [of a k] 2(1) by auto
  qed
  moreover have "task_right (s\<lparr>sy_ct := ct'\<rparr>) t" if t: "task_right s t" for t
  proof -
    have "holds i k (sy_ct s) \<Longrightarrow> holds i k ct'" for i k using sub(2) by (auto simp: holds_def rest)
    moreover have "ended i st (sy_ct s) \<Longrightarrow> ended i st ct'" for i st using sub(2) by (auto simp: ended_def)
    moreover have "budget_is i job (sy_ct s) \<Longrightarrow> budget_is i job ct'" for i job using sub(1) by (auto simp: budget_is_def)
    ultimately show ?thesis using t unfolding task_right_def by (cases t) auto
  qed
  then have "\<forall>t \<in> set (sy_tasks s). task_right (s\<lparr>sy_ct := ct'\<rparr>) t" using ok by (simp add: ci_ok_def)
  moreover have "results_ok ct'"
    unfolding results_ok_def
  proof (intro ballI impI)
    fix k assume k: "k \<in> set (ct_jobs ct')" "jb_status k = JobSucceeded"
    then obtain a where a: "a \<in> set (ct_attempts (sy_ct s))" "jb_current k = Some (at_id a)" "at_status a = AtSucceeded"
      using ok sub(1) unfolding ci_ok_def results_ok_def by auto
    have "holds (at_id a) (jb_id k) (sy_ct s)" using current_settled(2) [OF ok _ a(2)] k(1) sub(1) by auto
    then have "a \<in> set (ct_attempts ct')" using kept [OF a(1) k(1)] a(1) by (simp add: holds_def)
    then show "\<exists>a \<in> set (ct_attempts ct'). jb_current k = Some (at_id a) \<and> at_status a = AtSucceeded" using a by auto
  qed
  moreover have "budget_ok ct'" using ok sub(1) by (auto simp: ci_ok_def budget_ok_def)
  ultimately show ?thesis by (simp add: ci_ok_def)
qed

subsection \<open>Every step\<close>

lemma idle_rows:
  assumes "ci_ok s" and "ct_jobs ct' = ct_jobs (sy_ct s)" "ct_next_job ct' = ct_next_job (sy_ct s)"
    and "ct_attempts ct' = ct_attempts (sy_ct s)" "ct_next_attempt ct' = ct_next_attempt (sy_ct s)"
  shows "ci_ok (s\<lparr>sy_ct := ct'\<rparr>)"
  by (rule rows_change [OF assms(1), where h = id and g = id]) (simp_all add: assms)

lemma touch_simps [simp]:
  "ct_jobs (touchRunner r v now ct) = ct_jobs ct" "ct_attempts (touchRunner r v now ct) = ct_attempts ct"
  "ct_next_job (touchRunner r v now ct) = ct_next_job ct" "ct_next_attempt (touchRunner r v now ct) = ct_next_attempt ct"
  by (simp_all add: touchRunner_def)

lemma approve_ok:
  assumes ok: "ci_ok s"
  shows "ci_ok (s\<lparr>sy_ct := snd (approveJob jobId userId (sy_ct s))\<rparr>)"
proof -
  let ?P = "\<lambda>j. jb_id j = jobId \<and> jb_status j = JobAwaiting"
  let ?f = "\<lambda>j. j\<lparr>jb_status := JobQueued, jb_approved_by := Some userId\<rparr>"
  have ct: "snd (approveJob jobId userId (sy_ct s)) = snd (update_jobs ?P ?f (sy_ct s))" by (simp add: approveJob_def split_beta)
  show ?thesis
    unfolding ct
  proof (rule jobs_change [OF ok, where h = "\<lambda>j. if ?P j then ?f j else j"], goal_cases)
    case (9 j)
    then have "jb_status j \<in> {JobAwaiting, JobQueued}" by (auto split: if_splits)
    then show ?case using waiting_idle [OF ok 9(1)] by auto
  qed (auto split: if_splits)
qed

lemma refuse_ok:
  assumes ok: "ci_ok s"
  shows "ci_ok (s\<lparr>sy_ct := refuse_job now job (sy_ct s)\<rparr>)"
  unfolding refuse_job_def
proof (rule jobs_change [OF ok update_jobs_simps(1)], goal_cases)
  case (8 j)
  then show ?case using waiting_idle [OF ok, of j] by (auto split: if_splits)
qed (auto split: if_splits)

lemma cancel_ok:
  assumes ok: "ci_ok s" and "cancelJob jobId userId (sy_ct s) = Some u"
  shows "task_ok u s"
proof -
  obtain job where job: "find_job jobId (sy_ct s) = Some job" "u = CancelUpdate job userId"
    using assms(2) by (auto simp: cancelJob_def split: option.splits if_splits)
  have "holds i (jb_id job) (sy_ct s) \<and> (\<forall>p. ClaimPoint p i \<notin> set (sy_tasks s))" if "jb_current job = Some i" for i
    using current_settled [OF ok _ that] find_job_row [OF job(1)] by simp
  then show ?thesis by (auto simp: task_ok_def task_right_def job(2))
qed

text \<open>The tasks that claim nothing, and what they leave.\<close>

lemma run_plain:
  assumes ok: "ci_ok s" and right: "task_right s t" and plain: "claims t = None" "\<And>runner queued. t \<noteq> ClaimFlip runner queued"
    and r: "run_task inp t (sy_ct s) = (k, ct')"
  shows "ci_ok (s\<lparr>sy_ct := ct'\<rparr>)" and "k = Some u \<Longrightarrow> task_ok u (s\<lparr>sy_ct := ct'\<rparr>)"
proof -
  have "ci_ok (s\<lparr>sy_ct := ct'\<rparr>) \<and> (\<forall>u. k = Some u \<longrightarrow> task_ok u (s\<lparr>sy_ct := ct'\<rparr>))"
  proof (cases t)
    case (WithLease a req)
    then show ?thesis using run_with_lease [OF ok right [unfolded WithLease]] r by auto
  next
    case (FinishClose a job result)
    then show ?thesis using run_finish_close [OF ok right [unfolded FinishClose]] r by auto
  next
    case (LoseMark a reason)
    then show ?thesis using run_lose_mark [OF ok right [unfolded LoseMark]] r by auto
  next
    case (LoseRead a reason)
    then show ?thesis using run_lose_read [OF ok right [unfolded LoseRead]] ok r by auto
  next
    case (CancelUpdate job user)
    then show ?thesis using run_cancel_update [OF ok right [unfolded CancelUpdate]] r by auto
  next
    case (FinishJob a job result)
    then show ?thesis using run_finish_job [OF ok right [unfolded FinishJob]] r by auto
  next
    case (LoseJob a job reason)
    then show ?thesis using run_lose_job [OF ok right [unfolded LoseJob]] r by auto
  next
    case (RenewLease a)
    then show ?thesis using run_renew [OF ok] r by auto
  next
    case (CancelAttempt job)
    then show ?thesis using run_cancel_attempt [OF ok] r by auto
  next
    case (PinSource job)
    then show ?thesis using run_pin_source [OF ok] r by auto
  next
    case (ReadSource job)
    then show ?thesis using ok r by (auto simp: task_ok_def task_right_def)
  qed (use plain in simp_all)
  then show "ci_ok (s\<lparr>sy_ct := ct'\<rparr>)" and "k = Some u \<Longrightarrow> task_ok u (s\<lparr>sy_ct := ct'\<rparr>)" by simp_all
qed

lemma run_ok:
  assumes ok: "ci_ok s" and tasks: "sy_tasks s = xs @ t # ys" and r: "run_task inp t (sy_ct s) = (k, ct')"
  shows "ci_ok (s\<lparr>sy_ct := ct', sy_tasks := next_tasks xs k ys\<rparr>)"
proof -
  have right: "task_right s t" using ok tasks by (simp add: ci_ok_def)
  consider (flip) runner queued where "t = ClaimFlip runner queued" | (insert) runner job where "t = ClaimInsert runner job"
    | (point) job i where "t = ClaimPoint job i" | (plain) "claims t = None" "\<And>runner queued. t \<noteq> ClaimFlip runner queued"
    by (cases t) simp_all
  then show ?thesis
  proof cases
    case flip
    then show ?thesis using run_claim_flip [OF ok] tasks r by simp
  next
    case insert
    then show ?thesis using run_claim_insert [OF ok] tasks r by simp
  next
    case point
    then have "k = None" "ct' = claim_point job i (sy_ct s)" using r by simp_all
    then show ?thesis using run_claim_point [OF ok] tasks point by simp
  next
    case plain
    note rp = run_plain [OF ok right plain r]
    have "ci_ok (s\<lparr>sy_ct := ct'\<rparr>\<lparr>sy_tasks := next_tasks xs k ys\<rparr>)"
      by (rule replace_task [OF rp(1) _ plain(1) rp(2)]) (simp_all add: tasks)
    then show ?thesis by simp
  qed
qed

lemma ci_step_ok: "ci_step calm s s' \<Longrightarrow> ci_ok s \<Longrightarrow> ci_ok s'"
proof (induction rule: ci_step.induct)
  case (runners s rs)
  then show ?case by (intro idle_rows) simp_all
next
  case (create pipeline s service ref trigger user deployment approval)
  then show ?case by (intro create_ok)
next
  case (approve s jobId userId)
  then show ?case by (rule approve_ok)
next
  case (claim runner reported version now s t ct')
  have rows: "ci_ok (s\<lparr>sy_ct := ct'\<rparr>)"
    using claim by (intro idle_rows) (auto simp: claimJob_def Let_def split: if_splits)
  show ?case
    by (rule with_task_ok [OF rows]) (use claim(1) in \<open>auto simp: claimJob_def Let_def task_ok_def task_right_def split: if_splits\<close>)
next
  case (lease s runner attemptId hash req)
  show ?case
  proof (rule with_task_ok [OF lease])
    fix u assume "attemptForLease runner attemptId hash req (sy_ct s) = Some u"
    then obtain a where "find_attempt attemptId (sy_ct s) = Some a" "u = WithLease a req"
      by (auto simp: attemptForLease_def split: option.splits if_splits)
    then show "task_ok u s" using attempt_copy(1) [OF lease] find_attempt_row by blast
  qed
next
  case (sweep s now)
  show ?case by (rule add_tasks [OF sweep]) (use attempt_copy(2) [OF sweep] in \<open>auto simp: sweepLostAttempts_def\<close>)
next
  case (revoke runnerId now s ct')
  have rows: "ci_ok (s\<lparr>sy_ct := ct'\<rparr>)" using revoke by (intro idle_rows) (auto simp: revokeRunner_def)
  have "ci_ok (s\<lparr>sy_ct := ct'\<rparr>\<lparr>sy_tasks := sy_tasks (s\<lparr>sy_ct := ct'\<rparr>) @ revoked_attempts runnerId ct'\<rparr>)"
    by (rule add_tasks [OF rows]) (use attempt_copy(2) [OF rows] in \<open>auto simp: revoked_attempts_def\<close>)
  then show ?case by simp
next
  case (extend s now)
  then show ?case
    by (intro rows_change [where h = id and g = "\<lambda>a. if at_status a = AtRunning then a\<lparr>at_expires := now + CI_LEASE_MS\<rparr> else a"])
      (auto simp: extendLeasesAfterRestart_def)
next
  case (cancel s jobId userId)
  show ?case by (rule with_task_ok [OF cancel cancel_ok [OF cancel]])
next
  case (prune s days now)
  show ?case by (rule drop_jobs_ok [OF prune drops_pruned])
next
  case (refuse s now job)
  then show ?case by (rule refuse_ok)
next
  case (remove s service)
  show ?case by (rule drop_jobs_ok [OF remove drops_removed])
next
  case (run s xs t ys inp k ct')
  have "ci_ok (s\<lparr>sy_ct := ct', sy_tasks := next_tasks xs k ys\<rparr>)" using run by (intro run_ok)
  then show ?case by (cases s) simp
qed


interpretation ci: guarded_system ci_start "ci_step calm" ci_ok for calm
  by unfold_locales (auto intro: ci_ok_start ci_step_ok)

subsection \<open>One attempt counts\<close>

lemma claim_unique:
  assumes "claims_ok s" and "t \<in> set (sy_tasks s)" and "t' \<in> set (sy_tasks s)" and "claims t = Some i" and "claims t' = Some i"
  shows "t' = t"
proof -
  obtain xs ys where tasks: "sy_tasks s = xs @ t # ys" using assms(2) by (auto simp: in_set_conv_decomp)
  show ?thesis
  proof (rule ccontr)
    assume "t' \<noteq> t"
    then have "t' \<in> set xs \<union> set ys" using assms(3) by (auto simp: tasks)
    then show False using one_claim [OF assms(1) tasks _ assms(4)] assms(5) by blast
  qed
qed

lemma counts_unique:
  assumes ok: "ci_ok s" and j: "j \<in> set (ct_jobs (sy_ct s))"
    and a: "a \<in> set (ct_attempts (sy_ct s))" "at_job a = jb_id j" "counts a"
    and b: "b \<in> set (ct_attempts (sy_ct s))" "at_job b = jb_id j" "counts b"
  shows "a = b"
proof -
  have own: "jb_current j = Some (at_id x) \<or> (\<exists>p. ClaimPoint p (at_id x) \<in> set (sy_tasks s) \<and> jb_id p = jb_id j \<and> jb_current j = None)"
    if x: "x \<in> set (ct_attempts (sy_ct s))" "at_job x = jb_id j" "counts x" for x
  proof -
    have "jb_current j = Some (at_id x) \<or> (\<exists>p. ClaimPoint p (at_id x) \<in> set (sy_tasks s) \<and> jb_id p = jb_id j)"
      using ok j x unfolding ci_ok_def owner_ok_def by metis
    moreover have "jb_current j = None" if "ClaimPoint p (at_id x) \<in> set (sy_tasks s)" "jb_id p = jb_id j" for p
      using ok j that unfolding ci_ok_def claims_ok_def by fastforce
    ultimately show ?thesis by blast
  qed
  have "at_id b = at_id a"
  proof (cases "jb_current j")
    case (Some i)
    then show ?thesis using own [OF a] own [OF b] by simp
  next
    case None
    then obtain p q where "ClaimPoint p (at_id a) \<in> set (sy_tasks s)" "jb_id p = jb_id j"
        "ClaimPoint q (at_id b) \<in> set (sy_tasks s)" "jb_id q = jb_id j"
      using own [OF a] own [OF b] by auto
    then show ?thesis using claim_unique [of s "ClaimPoint p (at_id a)" "ClaimPoint q (at_id b)" "jb_id j"] ok by (simp add: ci_ok_def)
  qed
  then show ?thesis using same_attempt [of "sy_ct s" a b] ok a(1) b(1) by (simp add: ci_ok_def)
qed

lemma at_most_one: "distinct xs \<Longrightarrow> (\<And>a b. a \<in> set xs \<Longrightarrow> b \<in> set xs \<Longrightarrow> P a \<Longrightarrow> P b \<Longrightarrow> a = b) \<Longrightarrow> length (filter P xs) \<le> 1"
  by (induction xs) (fastforce simp: filter_empty_conv)+

text \<open>
  Claim C16. However claims, heartbeats, results, lost leases, revocations and cancellations interleave,
  at most one attempt of a job counts (runs or has a result), a job that succeeded succeeded by its
  current attempt, and no job has had more attempts than its maximum.
\<close>

theorem one_attempt_counts:
  assumes "ci_start s0" and "(ci_step calm)\<^sup>*\<^sup>* s0 s" and "j \<in> set (ct_jobs (sy_ct s))"
  shows "length (filter (\<lambda>a. at_job a = jb_id j \<and> counts a) (ct_attempts (sy_ct s))) \<le> 1
    \<and> (jb_status j = JobSucceeded \<longrightarrow> (\<exists>a \<in> set (ct_attempts (sy_ct s)). jb_current j = Some (at_id a)
         \<and> at_job a = jb_id j \<and> at_status a = AtSucceeded))
    \<and> jb_attempts j \<le> jb_max j"
proof -
  have ok: "ci_ok s" by (rule ci.reachable_inv [OF assms(1,2)])
  have "distinct (ct_attempts (sy_ct s))" using ok by (simp add: ci_ok_def keys_ok_def distinct_map)
  then have "length (filter (\<lambda>a. at_job a = jb_id j \<and> counts a) (ct_attempts (sy_ct s))) \<le> 1"
    by (rule at_most_one) (use counts_unique [OF ok assms(3)] in blast)
  moreover have "\<exists>a \<in> set (ct_attempts (sy_ct s)). jb_current j = Some (at_id a) \<and> at_job a = jb_id j \<and> at_status a = AtSucceeded"
    if won: "jb_status j = JobSucceeded"
  proof -
    obtain a where a: "a \<in> set (ct_attempts (sy_ct s))" "jb_current j = Some (at_id a)" "at_status a = AtSucceeded"
      using ok assms(3) won unfolding ci_ok_def results_ok_def by blast
    then show ?thesis using current_settled(2) [OF ok assms(3) a(2)] by (auto simp: holds_def)
  qed
  moreover have "jb_attempts j \<le> jb_max j" using ok assms(3) by (simp add: ci_ok_def budget_ok_def)
  ultimately show ?thesis by blast
qed


lemma one_attempt_counts_witness:
  "\<exists>s0 s j. ci_start s0 \<and> (ci_step False)\<^sup>*\<^sup>* s0 s \<and> j \<in> set (ct_jobs (sy_ct s)) \<and> jb_status j = JobSucceeded
     \<and> length (ct_attempts (sy_ct s)) = 2 \<and> length (filter (\<lambda>a. at_job a = jb_id j \<and> counts a) (ct_attempts (sy_ct s))) \<le> 1"
proof -
  have start: "ci_start no_jobs" by (simp add: ci_start_def no_jobs_def)
  have j: "sample_job JobSucceeded 2 (Some 2) (Some 70001) \<in> set (ct_jobs (sy_ct sample_done))" by (simp add: done_value sample_state_def)
  have "jb_status (sample_job JobSucceeded 2 (Some 2) (Some 70001)) = JobSucceeded" by (simp add: sample_job_def)
  moreover have "length (ct_attempts (sy_ct sample_done)) = 2" by (simp add: done_value sample_state_def)
  ultimately show ?thesis using start sample_steps j one_attempt_counts [OF start sample_steps j] by blast
qed

subsection \<open>A finished job stays finished\<close>

definition job_over :: "job_status \<Rightarrow> bool" where
  "job_over st \<longleftrightarrow> st \<in> {JobSucceeded, JobFailed, JobCancelled}"

text \<open>The job with an id is gone or has the status it ended with, and its id is not given again.\<close>

definition stays :: "int \<Rightarrow> job_status \<Rightarrow> ms option \<Rightarrow> ci_tables \<Rightarrow> bool" where
  "stays i st t ct \<longleftrightarrow> i < ct_next_job ct
     \<and> (\<forall>k \<in> set (ct_jobs ct). jb_id k = i \<longrightarrow> jb_status k = st \<and> jb_finished k = t)"

lemma stays_update [simp]:
  assumes "\<And>k. jb_id (f k) = jb_id k" and "\<And>k. P k \<Longrightarrow> unfinished (jb_status k)" and "job_over st" and "stays i st t ct"
  shows "stays i st t (snd (update_jobs P f ct))"
  using assms by (fastforce simp: stays_def job_over_def unfinished_def)

lemma stays_keep:
  assumes "\<And>k. jb_id (f k) = jb_id k" "\<And>k. jb_status (f k) = jb_status k" "\<And>k. jb_finished (f k) = jb_finished k" and "stays i st t ct"
  shows "stays i st t (snd (update_jobs P f ct))"
  using assms by (auto simp: stays_def)

lemma stays_same:
  "stays i st t ct \<Longrightarrow> ct_jobs ct' = ct_jobs ct \<Longrightarrow> ct_next_job ct' = ct_next_job ct \<Longrightarrow> stays i st t ct'"
  by (simp add: stays_def)

lemma run_stays:
  assumes over: "job_over st" and "stays i st t (sy_ct s)" and "run_task inp u (sy_ct s) = (k, ct')"
  shows "stays i st t ct'"
proof (cases u)
  case (WithLease a req)
  then show ?thesis
    using assms(2,3) by (auto simp: with_lease_def heartbeat_def appendLog_def Let_def split_beta
      split: option.splits lease_request.splits if_splits elim!: stays_same)
next
  case (ClaimFlip runner queued)
  then show ?thesis
    using assms by (auto simp: claim_flip_def split_beta unfinished_def split: list.splits intro!: stays_update)
next
  case (ClaimInsert runner job)
  then show ?thesis using assms by (auto simp: claim_insert_def split: if_splits elim!: stays_same)
next
  case (ClaimPoint job attemptId)
  then show ?thesis using assms by (auto simp: claim_point_def intro!: stays_keep)
next
  case (PinSource job)
  then show ?thesis using assms by (auto simp: pin_source_def intro!: stays_keep split: if_splits)
next
  case (FinishJob a job result)
  then show ?thesis using assms by (auto simp: finish_job_def unfinished_def intro!: stays_update)
next
  case (LoseJob a job reason)
  then show ?thesis using assms by (auto simp: lose_job_def unfinished_def intro!: stays_update)
next
  case (CancelUpdate job user)
  then show ?thesis using assms by (auto simp: cancel_update_def split_beta intro!: stays_update)
qed (use assms in \<open>auto simp: renew_lease_def finish_close_def lose_mark_def cancel_attempt_def split_beta elim!: stays_same\<close>)

lemma step_stays: "ci_step calm s s' \<Longrightarrow> job_over st \<Longrightarrow> stays i st t (sy_ct s) \<Longrightarrow> stays i st t (sy_ct s')"
proof (induction rule: ci_step.induct)
  case (run s xs u ys inp k ct')
  then show ?case using run_stays [of st i t s inp u k ct'] by simp
next
  case (approve s jobId userId)
  then show ?case by (auto simp: approveJob_def split_beta unfinished_def intro!: stays_update)
next
  case (refuse s now job)
  then show ?case by (auto simp: refuse_job_def intro!: stays_update)
next
  case (claim runner reported version now s u ct')
  then show ?case by (auto simp: with_task_def claimJob_def Let_def split: if_splits elim!: stays_same)
qed (auto simp: with_task_def stays_def createJob_def revokeRunner_def extendLeasesAfterRestart_def pruneCiJobs_def cascade_service_def Let_def)

text \<open>
  Claim C39. A job that succeeded, failed or was cancelled never changes its status or its finishing
  time again, whatever happens afterwards: no late result, lost lease, cancellation, approval or claim
  touches it, and its id is never given to another job.
\<close>

theorem finished_job_final:
  assumes "ci_start s0" and "(ci_step calm)\<^sup>*\<^sup>* s0 s" and "j \<in> set (ct_jobs (sy_ct s))" and "\<not> unfinished (jb_status j)"
    and "(ci_step calm)\<^sup>*\<^sup>* s s'" and "k \<in> set (ct_jobs (sy_ct s'))" and "jb_id k = jb_id j"
  shows "jb_status k = jb_status j \<and> jb_finished k = jb_finished j"
proof -
  have ok: "ci_ok s" by (rule ci.reachable_inv [OF assms(1,2)])
  have over: "job_over (jb_status j)" using assms(4) by (cases "jb_status j") (simp_all add: job_over_def unfinished_def)
  have "stays (jb_id j) (jb_status j) (jb_finished j) (sy_ct s)"
    using ok assms(3) same_job [of "sy_ct s" _ j] by (auto simp: stays_def ci_ok_def keys_ok_def)
  with assms(5) have "stays (jb_id j) (jb_status j) (jb_finished j) (sy_ct s')"
    by (induction rule: rtranclp_induct) (auto intro: step_stays over)
  then show ?thesis using assms(6,7) by (simp add: stays_def)
qed

lemma finished_job_final_witness:
  "\<exists>s0 s s' j k. ci_start s0 \<and> (ci_step False)\<^sup>*\<^sup>* s0 s \<and> j \<in> set (ct_jobs (sy_ct s)) \<and> jb_status j = JobSucceeded
     \<and> (ci_step False)\<^sup>*\<^sup>* s s' \<and> s' \<noteq> s \<and> k \<in> set (ct_jobs (sy_ct s')) \<and> jb_id k = jb_id j \<and> jb_status k = JobSucceeded"
proof -
  let ?j = "sample_job JobSucceeded 2 (Some 2) (Some 70001)" and ?s = "sample_done\<lparr>sy_ct := (sy_ct sample_done)\<lparr>ct_runners := []\<rparr>\<rparr>"
  have start: "ci_start no_jobs" by (simp add: ci_start_def no_jobs_def)
  have j: "?j \<in> set (ct_jobs (sy_ct sample_done))" by (simp add: done_value sample_state_def)
  have st: "jb_status ?j = JobSucceeded" by (simp add: sample_job_def)
  have steps: "(ci_step False)\<^sup>*\<^sup>* sample_done ?s" by (intro r_into_rtranclp ci_step.runners)
  have k: "?j \<in> set (ct_jobs (sy_ct ?s))" by (simp add: done_value sample_state_def)
  have "jb_status ?j = jb_status ?j"
    using finished_job_final [OF start sample_steps j _ steps k refl] st by (simp add: unfinished_def)
  moreover have "?s \<noteq> sample_done" by (simp add: done_value sample_state_def)
  ultimately show ?thesis using start sample_steps j st steps k by blast
qed

end
