(* ===== verification/CiProgress.thy ===== *)
theory CiProgress
  imports CiJobsProperties
begin

text \<open>
  Nobody forgets a running job. As long as no claim is broken in the middle, a running job has a
  claim under way, a running current attempt, or a task that will close it. A claim that is broken
  leaves its job running for ever.
\<close>

subsection \<open>Who moves a running job on\<close>

text \<open>The attempt whose job a task will still close or queue again.\<close>

fun closes :: "ci_task \<Rightarrow> int option" where
  "closes (FinishJob a job result) = Some (at_id a)"
| "closes (LoseRead a reason) = Some (at_id a)"
| "closes (LoseJob a job reason) = Some (at_id a)"
| "closes _ = None"

definition lives :: "int \<Rightarrow> ci_attempt list \<Rightarrow> bool" where
  "lives i xs \<longleftrightarrow> list_ex (\<lambda>a. at_id a = i \<and> at_status a = AtRunning) xs"

definition moving :: "ci_job \<Rightarrow> ci_attempt list \<Rightarrow> ci_task list \<Rightarrow> bool" where
  "moving j rows ts \<longleftrightarrow> Some (jb_id j) \<in> set (map claims ts)
     \<or> (\<exists>i. jb_current j = Some i \<and> (Some i \<in> set (map closes ts) \<or> lives i rows))"

definition calm_rest :: "ci_tables \<Rightarrow> ci_task list \<Rightarrow> bool" where
  "calm_rest ct ts \<longleftrightarrow>
     (\<forall>j \<in> set (ct_jobs ct). jb_status j = JobRunning \<longrightarrow> moving j (ct_attempts ct) ts)
     \<and> (\<forall>j i. ClaimPoint j i \<in> set ts \<longrightarrow> ended i AtRunning ct)"

definition calm_ok :: "ci_sys \<Rightarrow> bool" where
  "calm_ok s \<longleftrightarrow> ci_ok s \<and> calm_rest (sy_ct s) (sy_tasks s)
     \<and> (\<forall>j. CancelAttempt j \<in> set (sy_tasks s) \<longrightarrow> (\<exists>t. stays (jb_id j) JobCancelled t (sy_ct s)))"

text \<open>What a step owes a running job: its claim, its closing task, its running attempt or a task that closes it.\<close>

definition keeps :: "ci_sys \<Rightarrow> ci_job \<Rightarrow> ci_attempt list \<Rightarrow> ci_task list \<Rightarrow> bool" where
  "keeps s k rows ts \<longleftrightarrow>
     (Some (jb_id k) \<in> set (map claims (sy_tasks s)) \<longrightarrow> Some (jb_id k) \<in> set (map claims ts))
     \<and> (\<forall>i. jb_current k = Some i \<longrightarrow> Some i \<in> set (map closes (sy_tasks s)) \<or> lives i (ct_attempts (sy_ct s)) \<longrightarrow>
          Some i \<in> set (map closes ts) \<or> lives i rows)"

lemma keeps_moving:
  assumes "moving j (ct_attempts (sy_ct s)) (sy_tasks s)" and "jb_id k = jb_id j" and "jb_current k = jb_current j" and "keeps s k rows ts"
  shows "moving k rows ts"
  using assms unfolding moving_def keeps_def by metis

lemma calm_change:
  assumes ok: "calm_ok s"
    and rows: "\<And>k. k \<in> set (ct_jobs ct') \<Longrightarrow> jb_status k = JobRunning \<Longrightarrow> moving k (ct_attempts ct') ts
      \<or> (\<exists>j \<in> set (ct_jobs (sy_ct s)). jb_status j = JobRunning \<and> jb_id k = jb_id j \<and> jb_current k = jb_current j)
        \<and> keeps s k (ct_attempts ct') ts"
    and points: "\<And>j i. ClaimPoint j i \<in> set ts \<Longrightarrow> ended i AtRunning ct'"
  shows "calm_rest ct' ts"
  using ok rows points keeps_moving unfolding calm_ok_def calm_rest_def by metis

lemma lives_map:
  assumes "lives i xs" and "\<And>a. at_id (g a) = at_id a" and "\<And>a. at_id a = i \<Longrightarrow> at_status a = AtRunning \<Longrightarrow> at_status (g a) = AtRunning"
  shows "lives i (map g xs)"
  using assms by (auto simp: lives_def list_ex_iff)

lemma ended_map:
  assumes "ended i st ct" and "ct_attempts ct' = map g (ct_attempts ct)" and "\<And>a. at_id (g a) = at_id a"
    and "\<And>a. a \<in> set (ct_attempts ct) \<Longrightarrow> at_id a = i \<Longrightarrow> at_status (g a) = at_status a"
  shows "ended i st ct'"
  using assms by (auto simp: ended_def)

text \<open>A step that adds tasks and leaves the status of attempts alone.\<close>

lemma calm_more:
  assumes ok: "calm_ok s" and tasks: "set (sy_tasks s) \<subseteq> set ts" "\<And>j i. ClaimPoint j i \<in> set ts \<Longrightarrow> ClaimPoint j i \<in> set (sy_tasks s)"
    and jobs: "\<And>k. k \<in> set (ct_jobs ct') \<Longrightarrow> jb_status k = JobRunning \<Longrightarrow>
      \<exists>j \<in> set (ct_jobs (sy_ct s)). jb_status j = JobRunning \<and> jb_id k = jb_id j \<and> jb_current k = jb_current j"
    and attempts: "ct_attempts ct' = map g (ct_attempts (sy_ct s))" "\<And>a. at_id (g a) = at_id a" "\<And>a. at_status (g a) = at_status a"
  shows "calm_rest ct' ts"
proof (rule calm_change [OF ok])
  fix k
  have "keeps s k (ct_attempts ct') ts"
    using tasks(1) lives_map [of _ "ct_attempts (sy_ct s)" g] attempts by (auto simp: keeps_def)
  then show "k \<in> set (ct_jobs ct') \<Longrightarrow> jb_status k = JobRunning \<Longrightarrow> moving k (ct_attempts ct') ts
      \<or> (\<exists>j \<in> set (ct_jobs (sy_ct s)). jb_status j = JobRunning \<and> jb_id k = jb_id j \<and> jb_current k = jb_current j)
        \<and> keeps s k (ct_attempts ct') ts"
    using jobs by blast
next
  fix j i assume "ClaimPoint j i \<in> set ts"
  then have "ended i AtRunning (sy_ct s)" using ok tasks(2) unfolding calm_ok_def calm_rest_def by blast
  then show "ended i AtRunning ct'" by (rule ended_map [OF _ attempts(1,2)]) (rule attempts(3))
qed

text \<open>A task that neither claims nor closes ends, and leaves the status of attempts alone.\<close>

lemma calm_plain:
  assumes ok: "calm_ok s" and tasks: "sy_tasks s = xs @ t # ys" and t: "claims t = None" "closes t = None"
    and k: "\<And>u. k = Some u \<Longrightarrow> claims u = None"
    and jobs: "\<And>k. k \<in> set (ct_jobs ct') \<Longrightarrow> jb_status k = JobRunning \<Longrightarrow>
      \<exists>j \<in> set (ct_jobs (sy_ct s)). jb_status j = JobRunning \<and> jb_id k = jb_id j \<and> jb_current k = jb_current j"
    and attempts: "ct_attempts ct' = map g (ct_attempts (sy_ct s))" "\<And>a. at_id (g a) = at_id a"
    and stops: "\<And>a. a \<in> set (ct_attempts (sy_ct s)) \<Longrightarrow> at_status (g a) \<noteq> at_status a \<Longrightarrow> (\<forall>p. ClaimPoint p (at_id a) \<notin> set (sy_tasks s))
      \<and> ((\<exists>u. k = Some u \<and> closes u = Some (at_id a))
        \<or> (\<forall>j \<in> set (ct_jobs (sy_ct s)). jb_status j = JobRunning \<longrightarrow> jb_current j \<noteq> Some (at_id a)))"
  shows "calm_rest ct' (next_tasks xs k ys)"
proof (rule calm_change [OF ok], goal_cases)
  case (1 row)
  obtain j where j: "j \<in> set (ct_jobs (sy_ct s))" "jb_status j = JobRunning" "jb_id row = jb_id j" "jb_current row = jb_current j"
    using jobs [OF 1] by blast
  have "Some i \<in> set (map closes (next_tasks xs k ys)) \<or> lives i (ct_attempts ct')"
    if "jb_current row = Some i" "lives i (ct_attempts (sy_ct s))" for i
  proof -
    obtain a where a: "a \<in> set (ct_attempts (sy_ct s))" "at_id a = i" "at_status a = AtRunning"
      using \<open>lives i _\<close> by (auto simp: lives_def list_ex_iff)
    show ?thesis
    proof (cases "at_status (g a) = at_status a")
      case True
      then have "lives i (ct_attempts ct')" using a attempts by (auto simp: lives_def list_ex_iff)
      then show ?thesis by blast
    next
      case False
      have "jb_current j = Some (at_id a)" using a(2) j(4) that(1) by simp
      then obtain u where "k = Some u" "closes u = Some i" using stops [OF a(1) False] a(2) j(1,2) by blast
      then show ?thesis by simp
    qed
  qed
  moreover have "Some i \<in> set (map closes (next_tasks xs k ys))" if "Some i \<in> set (map closes (sy_tasks s))" for i
    using that t(2) by (auto simp: tasks)
  moreover have "Some i \<in> set (map claims (next_tasks xs k ys))" if "Some i \<in> set (map claims (sy_tasks s))" for i
    using that t(1) by (auto simp: tasks)
  ultimately have "keeps s row (ct_attempts ct') (next_tasks xs k ys)" unfolding keeps_def by blast
  then show ?case using j by blast
next
  case (2 p i)
  then have p: "ClaimPoint p i \<in> set (sy_tasks s)" using k by (auto simp: tasks split: option.splits)
  then have "ended i AtRunning (sy_ct s)" using ok unfolding calm_ok_def calm_rest_def by blast
  moreover have "at_status (g a) = at_status a" if "a \<in> set (ct_attempts (sy_ct s))" "at_id a = i" for a
    using stops [OF that(1)] p that(2) by metis
  ultimately show ?case by (rule ended_map [OF _ attempts])
qed


subsection \<open>Tasks that stop attempts\<close>

lemma one_attempt:
  assumes "ci_ok s" and "a \<in> set (ct_attempts (sy_ct s))" and "at_id a = i" and "at_status a = AtRunning"
  shows "length (filter (\<lambda>x. at_id x = i \<and> at_status x = AtRunning) (ct_attempts (sy_ct s))) = 1"
proof (rule only_row [where q = a])
  show "distinct (ct_attempts (sy_ct s))" using assms(1) by (simp add: ci_ok_def keys_ok_def distinct_map)
  show "at_id x = i \<and> at_status x = AtRunning \<longleftrightarrow> x = a" if "x \<in> set (ct_attempts (sy_ct s))" for x
    using same_attempt [of "sy_ct s" x a] assms that by (auto simp: ci_ok_def)
qed (rule assms(2))

lemma calm_finish_close:
  assumes ok: "calm_ok s" and tasks: "sy_tasks s = xs @ FinishClose a job result # ys" and r: "finish_close now a job result (sy_ct s) = (k, ct')"
  shows "calm_rest ct' (next_tasks xs k ys)"
proof -
  let ?P = "\<lambda>x. at_id x = at_id a \<and> at_status x = AtRunning"
  let ?f = "\<lambda>x. x\<lparr>at_status := (if res_ok result then AtSucceeded else AtFailed), at_exit := res_exit result,
    at_error := res_error result, at_finished := Some now\<rparr>"
  have ci: "ci_ok s" and right: "task_right s (FinishClose a job result)" using ok tasks by (simp_all add: calm_ok_def ci_ok_def)
  have ct: "ct' = snd (update_attempts ?P ?f (sy_ct s))"
    and k: "k = (if length (filter ?P (ct_attempts (sy_ct s))) = 1 then Some (FinishJob a job result) else None)"
    using r by (auto simp: finish_close_def split_beta)
  show ?thesis
  proof (rule calm_plain [OF ok tasks, where g = "\<lambda>x. if ?P x then ?f x else x"], goal_cases)
    case (7 x)
    then have x: "?P x" by (simp split: if_splits)
    then have "k = Some (FinishJob a job result)" using one_attempt [OF ci 7(1)] k by simp
    then show ?case using right x by (simp add: task_right_def)
  qed (auto simp: ct k split: if_splits)
qed

lemma calm_lose_mark:
  assumes ok: "calm_ok s" and tasks: "sy_tasks s = xs @ LoseMark a reason # ys" and r: "lose_mark now a reason (sy_ct s) = (k, ct')"
    and calm: "\<And>p. ClaimPoint p (at_id a) \<notin> set (sy_tasks s)"
  shows "calm_rest ct' (next_tasks xs k ys)"
proof -
  let ?P = "\<lambda>x. at_id x = at_id a \<and> at_status x = AtRunning"
  let ?f = "\<lambda>x. x\<lparr>at_status := AtLost, at_error := Some reason, at_finished := Some now\<rparr>"
  have ci: "ci_ok s" using ok by (simp add: calm_ok_def)
  have ct: "ct' = snd (update_attempts ?P ?f (sy_ct s))"
    and k: "k = (if length (filter ?P (ct_attempts (sy_ct s))) = 1 then Some (LoseRead a reason) else None)"
    using r by (auto simp: lose_mark_def split_beta)
  show ?thesis
  proof (rule calm_plain [OF ok tasks, where g = "\<lambda>x. if ?P x then ?f x else x"], goal_cases)
    case (7 x)
    then have x: "?P x" by (simp split: if_splits)
    then have "k = Some (LoseRead a reason)" using one_attempt [OF ci 7(1)] k by simp
    then show ?case using calm x by simp
  qed (auto simp: ct k split: if_splits)
qed

lemma calm_cancel_attempt:
  assumes ok: "calm_ok s" and tasks: "sy_tasks s = xs @ CancelAttempt job # ys"
  shows "calm_rest (cancel_attempt now job (sy_ct s)) (xs @ ys)"
proof -
  let ?P = "\<lambda>x. Some (at_id x) = jb_current job \<and> at_status x = AtRunning"
  let ?f = "\<lambda>x. x\<lparr>at_status := AtCancelled, at_finished := Some now, at_error := Some ''Cancelled''\<rparr>"
  have ci: "ci_ok s" and right: "task_right s (CancelAttempt job)" using ok tasks by (simp_all add: calm_ok_def ci_ok_def)
  obtain t where over: "stays (jb_id job) JobCancelled t (sy_ct s)" using ok tasks by (auto simp: calm_ok_def)
  have ct: "cancel_attempt now job (sy_ct s) = snd (update_attempts ?P ?f (sy_ct s))" by (simp add: cancel_attempt_def)
  have "calm_rest (cancel_attempt now job (sy_ct s)) (next_tasks xs None ys)"
  proof (rule calm_plain [OF ok tasks, where g = "\<lambda>x. if ?P x then ?f x else x"], goal_cases)
    case (7 x)
    then have x: "jb_current job = Some (at_id x)" by (simp split: if_splits)
    have "jb_current j \<noteq> Some (at_id x)" if j: "j \<in> set (ct_jobs (sy_ct s))" "jb_status j = JobRunning" for j
    proof
      assume "jb_current j = Some (at_id x)"
      then have "holds (at_id x) (jb_id j) (sy_ct s)" using current_settled(2) [OF ci j(1)] by blast
      moreover have "holds (at_id x) (jb_id job) (sy_ct s)" using right x by (simp add: task_right_def)
      ultimately have "jb_id j = jb_id job" using 7(1) unfolding holds_def by force
      then show False using over j by (auto simp: stays_def)
    qed
    then show ?case using right x by (simp add: task_right_def)
  qed (auto simp: ct)
  then show ?thesis by simp
qed

lemma calm_lose_read:
  assumes ok: "calm_ok s" and tasks: "sy_tasks s = xs @ LoseRead a reason # ys"
  shows "calm_rest (sy_ct s) (next_tasks xs (lose_read a reason (sy_ct s)) ys)"
proof (rule calm_change [OF ok], goal_cases)
  case (1 k)
  have ci: "ci_ok s" and right: "task_right s (LoseRead a reason)" using ok tasks by (simp_all add: calm_ok_def ci_ok_def)
  have follow: "lose_read a reason (sy_ct s) = Some (LoseJob a k reason)" if cur: "jb_current k = Some (at_id a)"
  proof -
    obtain x where x: "x \<in> set (ct_attempts (sy_ct s))" "at_id x = at_id a" "at_job x = jb_id k"
      using ci 1(1) cur unfolding ci_ok_def owner_ok_def by blast
    then have "at_job a = jb_id k" using right by (auto simp: task_right_def holds_def)
    then have "find_job (at_job a) (sy_ct s) = Some k"
      using ci 1(1) find_unique_key [of jb_id "ct_jobs (sy_ct s)" k] by (simp add: find_job_def ci_ok_def keys_ok_def)
    then show ?thesis using 1(2) cur by (simp add: lose_read_def)
  qed
  have "keeps s k (ct_attempts (sy_ct s)) (next_tasks xs (lose_read a reason (sy_ct s)) ys)"
    using follow by (auto simp: keeps_def tasks)
  then show ?case using 1 by blast
next
  case (2 p i)
  then have "ClaimPoint p i \<in> set (sy_tasks s)" by (auto simp: tasks lose_read_def split: option.splits if_splits)
  then show ?case using ok unfolding calm_ok_def calm_rest_def by blast
qed


text \<open>The statement that closes a job, or queues it again, leaves it running no longer.\<close>

lemma calm_close_job:
  assumes ok: "calm_ok s" and tasks: "sy_tasks s = xs @ t # ys" and t: "claims t = None" "closes t = Some (at_id a)"
    and held: "holds (at_id a) (jb_id job) (sy_ct s)"
    and ct: "ct' = snd (update_jobs (\<lambda>j. jb_id j = jb_id job \<and> jb_status j = JobRunning \<and> jb_current j = Some (at_id a)) f (sy_ct s))"
    and f: "\<And>j. jb_status (f j) \<noteq> JobRunning"
  shows "calm_rest ct' (xs @ ys)"
proof (rule calm_change [OF ok], goal_cases)
  case (1 k)
  then have k: "k \<in> set (ct_jobs (sy_ct s))" "\<not> (jb_id k = jb_id job \<and> jb_current k = Some (at_id a))"
    using f by (auto simp: ct split: if_splits)
  have ci: "ci_ok s" using ok by (simp add: calm_ok_def)
  have "jb_current k \<noteq> Some (at_id a)"
  proof
    assume cur: "jb_current k = Some (at_id a)"
    obtain x where x: "x \<in> set (ct_attempts (sy_ct s))" "at_id x = at_id a" "at_job x = jb_id k"
      using ci k(1) cur unfolding ci_ok_def owner_ok_def by blast
    then have "jb_id k = jb_id job" using held by (auto simp: holds_def)
    then show False using k(2) cur by blast
  qed
  then have "keeps s k (ct_attempts ct') (xs @ ys)" using t by (auto simp: keeps_def tasks ct)
  then show ?case using k(1) 1(2) by blast
next
  case (2 p i)
  then have "ClaimPoint p i \<in> set (sy_tasks s)" by (auto simp: tasks)
  then have "ended i AtRunning (sy_ct s)" using ok unfolding calm_ok_def calm_rest_def by blast
  then show ?case by (simp add: ended_def ct)
qed

subsection \<open>Claims\<close>

lemma calm_claim_flip:
  assumes ok: "calm_ok s" and tasks: "sy_tasks s = xs @ ClaimFlip runner queued # ys" and r: "claim_flip inp runner queued (sy_ct s) = (k, ct')"
  shows "calm_rest ct' (next_tasks xs k ys)"
proof (rule calm_change [OF ok], goal_cases)
  case (1 row)
  show ?case
  proof (cases "row \<in> set (ct_jobs (sy_ct s))")
    case True
    have "ct_attempts ct' = ct_attempts (sy_ct s)" using r by (auto simp: claim_flip_def split_beta split: list.splits)
    then have "keeps s row (ct_attempts ct') (next_tasks xs k ys)" by (auto simp: keeps_def tasks)
    then show ?thesis using True 1(2) by blast
  next
    case False
    obtain job rest where q: "dropWhile (\<lambda>j. \<not> labelsFit (jb_labels j) (ru_labels runner)) queued = job # rest"
      using False r 1(1) unfolding claim_flip_def by (auto split: list.splits)
    let ?P = "\<lambda>j. jb_id j = jb_id job \<and> jb_status j = JobQueued"
    let ?f = "\<lambda>j. j\<lparr>jb_status := JobRunning, jb_attempts := jb_attempts j + 1,
      jb_started := (if jb_started job = None then Some (ci_now inp) else jb_started job)\<rparr>"
    have ct: "ct' = snd (update_jobs ?P ?f (sy_ct s))"
      and k: "k = Some (if length (filter ?P (ct_jobs (sy_ct s))) = 1 then ClaimInsert runner job else ClaimFlip runner rest)"
      using r unfolding claim_flip_def q by (auto simp: split_beta)
    obtain j where j: "j \<in> set (ct_jobs (sy_ct s))" "?P j" "row = ?f j" using False 1(1) by (auto simp: ct split: if_splits)
    have ci: "keys_ok (sy_ct s)" using ok by (simp add: calm_ok_def ci_ok_def)
    have "length (filter ?P (ct_jobs (sy_ct s))) = 1"
    proof (rule only_row [where q = j])
      show "distinct (ct_jobs (sy_ct s))" using ci by (simp add: keys_ok_def distinct_map)
      show "?P x \<longleftrightarrow> x = j" if "x \<in> set (ct_jobs (sy_ct s))" for x
        using same_job [OF ci that j(1)] j(2) by auto
    qed (rule j(1))
    then have "moving row (ct_attempts ct') (next_tasks xs k ys)" using k j(2,3) by (simp add: moving_def)
    then show ?thesis by blast
  qed
next
  case (2 p i)
  then have "ClaimPoint p i \<in> set (sy_tasks s)" using r
    by (auto simp: tasks claim_flip_def split_beta split: list.splits if_splits)
  then have "ended i AtRunning (sy_ct s)" using ok unfolding calm_ok_def calm_rest_def by blast
  moreover have "ct_attempts ct' = ct_attempts (sy_ct s)" using r by (auto simp: claim_flip_def split_beta split: list.splits)
  ultimately show ?case by (simp add: ended_def)
qed

lemma calm_claim_insert:
  assumes ok: "calm_ok s" and tasks: "sy_tasks s = xs @ ClaimInsert runner job # ys" and r: "claim_insert inp runner job (sy_ct s) = (k, ct')"
    and calm: "\<not> insert_fails job (ci_hash inp) (sy_ct s)"
  shows "calm_rest ct' (next_tasks xs k ys)"
proof -
  let ?n = "ct_next_attempt (sy_ct s)"
  obtain new where new: "ct_attempts ct' = ct_attempts (sy_ct s) @ [new]" "at_id new = ?n" "at_status new = AtRunning"
    and rest: "ct_jobs ct' = ct_jobs (sy_ct s)" and k: "k = Some (ClaimPoint job ?n)"
    using r calm by (auto simp: claim_insert_def)
  have ci: "ci_ok s" using ok by (simp add: calm_ok_def)
  have fresh: "at_id a < ?n" if "a \<in> set (ct_attempts (sy_ct s))" for a using ci that by (simp add: ci_ok_def keys_ok_def)
  show ?thesis
  proof (rule calm_change [OF ok], goal_cases)
    case (1 row)
    have "keeps s row (ct_attempts ct') (next_tasks xs k ys)" by (auto simp: keeps_def tasks k new(1) lives_def)
    then show ?case using 1 by (auto simp: rest)
  next
    case (2 p i)
    then consider "ClaimPoint p i \<in> set (sy_tasks s)" | "i = ?n" by (auto simp: tasks k)
    then show ?case
    proof cases
      case 1
      then have "i < ?n" using ci unfolding ci_ok_def claims_ok_def by blast
      moreover have "ended i AtRunning (sy_ct s)" using ok 1 unfolding calm_ok_def calm_rest_def by blast
      ultimately show ?thesis using new(2) by (auto simp: ended_def new(1))
    next
      case 2
      then show ?thesis using fresh new(2,3) by (fastforce simp: ended_def new(1))
    qed
  qed
qed

lemma calm_claim_point:
  assumes ok: "calm_ok s" and tasks: "sy_tasks s = xs @ ClaimPoint job i # ys"
  shows "calm_rest (claim_point job i (sy_ct s)) (xs @ ys)"
proof (rule calm_change [OF ok], goal_cases)
  case (1 row)
  have ci: "ci_ok s" using ok by (simp add: calm_ok_def)
  have mine: "ClaimPoint job i \<in> set (sy_tasks s)" by (simp add: tasks)
  obtain j where j: "j \<in> set (ct_jobs (sy_ct s))" "row = (if jb_id j = jb_id job then j\<lparr>jb_current := Some i\<rparr> else j)"
    using 1(1) by (auto simp: claim_point_def)
  show ?case
  proof (cases "jb_id j = jb_id job")
    case True
    obtain a where "a \<in> set (ct_attempts (sy_ct s))" "at_id a = i"
      using ci mine j(1) True unfolding ci_ok_def claims_ok_def by blast
    moreover have "ended i AtRunning (sy_ct s)" using ok mine unfolding calm_ok_def calm_rest_def by blast
    ultimately have "lives i (ct_attempts (sy_ct s))" by (auto simp: lives_def list_ex_iff ended_def)
    then have "moving row (ct_attempts (claim_point job i (sy_ct s))) (xs @ ys)" using j(2) True by (simp add: moving_def claim_point_def)
    then show ?thesis by blast
  next
    case False
    then have "keeps s row (ct_attempts (claim_point job i (sy_ct s))) (xs @ ys)" "row = j"
      using j(2) by (auto simp: keeps_def tasks claim_point_def)
    then show ?thesis using j(1) 1(2) by blast
  qed
next
  case (2 p m)
  then have "ClaimPoint p m \<in> set (sy_tasks s)" by (auto simp: tasks)
  then have "ended m AtRunning (sy_ct s)" using ok unfolding calm_ok_def calm_rest_def by blast
  then show ?case by (simp add: ended_def claim_point_def)
qed


subsection \<open>Every step\<close>

lemma calm_run_plain:
  assumes ok: "calm_ok s" and tasks: "sy_tasks s = xs @ t # ys" and r: "run_task inp t (sy_ct s) = (k, ct')"
    and t: "t = WithLease a req \<or> t = RenewLease a \<or> t = ReadSource job \<or> t = PinSource job \<or> t = CancelUpdate job user"
  shows "calm_rest ct' (next_tasks xs k ys)"
proof -
  consider (with_lease) "t = WithLease a req" | (renew) "t = RenewLease a" | (source) "t = ReadSource job" | (pin) "t = PinSource job" | (cancel) "t = CancelUpdate job user"
    using t by blast
  then show ?thesis
  proof cases
    case with_lease
    then have r: "with_lease a req (sy_ct s) = (k, ct')" using r by simp
    have k: "claims u = None" if "k = Some u" for u
      using r that by (auto simp: with_lease_def heartbeat_def finishAttempt_def source_route_def Let_def
        split: option.splits lease_request.splits prod.splits sum.splits if_splits)
    have jobs: "ct_jobs ct' = ct_jobs (sy_ct s)"
      using r by (auto simp: with_lease_def heartbeat_def appendLog_def Let_def split_beta
        split: option.splits lease_request.splits prod.splits sum.splits if_splits)
    obtain g where g: "ct_attempts ct' = map g (ct_attempts (sy_ct s))" "\<And>a. at_id (g a) = at_id a" "\<And>a. at_status (g a) = at_status a"
    proof (cases "ct_attempts ct' = ct_attempts (sy_ct s)")
      case True
      then show ?thesis using that [of id] by simp
    next
      case False
      then obtain seq data where log: "req = Log seq data"
        using r by (auto simp: with_lease_def heartbeat_def Let_def split: option.splits lease_request.splits prod.splits sum.splits if_splits)
      have "ct_attempts ct' = map (\<lambda>x. if at_id x = at_id a \<and> at_log_seq x = at_log_seq a \<and> at_status x = AtRunning
        then x\<lparr>at_log_seq := seq, at_log_bytes := at_log_bytes x + length (log_chunk (at_log_bytes a) data)\<rparr> else x) (ct_attempts (sy_ct s))"
        using r False log by (auto simp: with_lease_def appendLog_def Let_def update_attempts_def split: option.splits if_splits)
      then show ?thesis by (rule that) auto
    qed
    show ?thesis
      by (rule calm_plain [OF ok tasks _ _ k _ g(1,2)]) (use with_lease jobs g(3) in auto)
  next
    case renew
    then show ?thesis
      using r by (intro calm_plain [OF ok tasks, where g = "\<lambda>x. if at_id x = at_id a \<and> at_status x = AtRunning then x\<lparr>at_expires := ci_now inp + CI_LEASE_MS\<rparr> else x"])
        (auto simp: renew_lease_def split_beta split: if_splits)
  next
    case source
    then show ?thesis
      using r by (intro calm_plain [OF ok tasks, where g = id]) auto
  next
    case pin
    have "\<exists>j \<in> set (ct_jobs (sy_ct s)). jb_status j = JobRunning \<and> jb_id row = jb_id j \<and> jb_current row = jb_current j"
      if row: "row \<in> set (ct_jobs ct')" "jb_status row = JobRunning" for row
    proof -
      obtain j where "j \<in> set (ct_jobs (sy_ct s))" "row = j \<or> row = j\<lparr>jb_commit := Some (ci_commit inp)\<rparr>"
        using r row(1) pin by (auto simp: pin_source_def split: if_splits)
      then show ?thesis using row(2) by (intro bexI [of _ j]) auto
    qed
    with pin show ?thesis
      using r by (intro calm_plain [OF ok tasks, where g = id]) (auto simp: pin_source_def split: if_splits)
  next
    case cancel
    then show ?thesis
      using r by (intro calm_plain [OF ok tasks, where g = id]) (auto simp: cancel_update_def split_beta split: if_splits)
  qed
qed

lemma calm_run:
  assumes ok: "calm_ok s" and tasks: "sy_tasks s = xs @ t # ys" and calm: "\<not> breaks_claim inp t s" and r: "run_task inp t (sy_ct s) = (k, ct')"
  shows "calm_rest ct' (next_tasks xs k ys)"
proof -
  have right: "task_right s t" using ok tasks by (simp add: calm_ok_def ci_ok_def)
  show ?thesis
  proof (cases t)
    case (ClaimFlip runner queued)
    then show ?thesis using calm_claim_flip [OF ok] tasks r by simp
  next
    case (ClaimInsert runner job)
    then show ?thesis using calm_claim_insert [OF ok] tasks r calm by simp
  next
    case (ClaimPoint job i)
    then show ?thesis using calm_claim_point [OF ok, of xs job i ys] tasks r by auto
  next
    case (FinishClose a job result)
    then show ?thesis using calm_finish_close [OF ok] tasks r by simp
  next
    case (FinishJob a job result)
    then have "k = None" "ct' = finish_job (ci_now inp) a job result (sy_ct s)" using r by simp_all
    moreover have "calm_rest (finish_job (ci_now inp) a job result (sy_ct s)) (xs @ ys)"
      unfolding finish_job_def by (rule calm_close_job [OF ok tasks _ _ _ refl]) (use right FinishJob in \<open>auto simp: task_right_def\<close>)
    ultimately show ?thesis by simp
  next
    case (LoseMark a reason)
    have "ClaimPoint p (at_id a) \<notin> set (sy_tasks s)" for p
      using calm LoseMark by (auto simp: list_ex_iff)
    then show ?thesis using calm_lose_mark [OF ok, of xs a reason ys] tasks r LoseMark by simp
  next
    case (LoseRead a reason)
    then show ?thesis using calm_lose_read [OF ok, of xs a reason ys] tasks r by auto
  next
    case (LoseJob a job reason)
    then have "k = None" "ct' = lose_job (ci_now inp) a job reason (sy_ct s)" using r by simp_all
    moreover have "calm_rest (lose_job (ci_now inp) a job reason (sy_ct s)) (xs @ ys)"
      unfolding lose_job_def by (rule calm_close_job [OF ok tasks _ _ _ refl]) (use right LoseJob in \<open>auto simp: task_right_def\<close>)
    ultimately show ?thesis by simp
  next
    case (CancelAttempt job)
    then show ?thesis using calm_cancel_attempt [OF ok, of xs job ys] tasks r by auto
  qed (use calm_run_plain [OF ok tasks r] in auto)
qed

text \<open>A job whose attempt is about to be marked cancelled is cancelled.\<close>

lemma lease_tasks: "with_lease a req ct = (Some u, ct') \<Longrightarrow> (\<exists>job. u = ReadSource job) \<or> u = RenewLease a \<or> (\<exists>job result. u = FinishClose a job result)"
  by (cases req) (auto simp: with_lease_def heartbeat_def finishAttempt_def source_route_def Let_def
      split: option.splits if_splits)

lemma cancel_follows:
  assumes "run_task inp t ct = (Some (CancelAttempt job), ct')"
  shows "\<exists>user. t = CancelUpdate job user"
proof (cases t)
  case (WithLease a req)
  then show ?thesis using assms lease_tasks by fastforce
next
  case (ClaimFlip runner queued)
  then show ?thesis using assms by (auto simp: claim_flip_def split_beta split: list.splits if_splits)
next
  case (CancelUpdate row user)
  then show ?thesis using assms by (auto simp: cancel_update_def split_beta split: if_splits)
next
  case (LoseRead a reason)
  then show ?thesis using assms by (auto simp: lose_read_def split: option.splits if_splits)
qed (use assms in \<open>auto simp: claim_insert_def finish_close_def lose_mark_def split_beta split: if_splits\<close>)

lemma cancel_started:
  assumes ci: "ci_ok s" and r: "run_task inp t (sy_ct s) = (Some (CancelAttempt job), ct')"
  shows "\<exists>u. stays (jb_id job) JobCancelled u ct'"
proof -
  obtain user where t: "t = CancelUpdate job user" using cancel_follows [OF r] by blast
  let ?P = "\<lambda>j. jb_id j = jb_id job \<and> unfinished (jb_status j)"
  let ?f = "\<lambda>j. j\<lparr>jb_status := JobCancelled, jb_cancelled_by := user, jb_finished := Some (ci_now inp), jb_error := Some ''Cancelled''\<rparr>"
  have ct: "ct' = snd (update_jobs ?P ?f (sy_ct s))" and one: "length (filter ?P (ct_jobs (sy_ct s))) = 1"
    using r t by (auto simp: cancel_update_def split_beta split: if_splits)
  obtain j where j: "j \<in> set (ct_jobs (sy_ct s))" "?P j" using one_row [OF one] by blast
  have keys: "keys_ok (sy_ct s)" using ci by (simp add: ci_ok_def)
  have "jb_status x = JobCancelled \<and> jb_finished x = Some (ci_now inp)" if x: "x \<in> set (ct_jobs ct')" "jb_id x = jb_id job" for x
  proof -
    obtain y where y: "y \<in> set (ct_jobs (sy_ct s))" "x = (if ?P y then ?f y else y)" using x(1) by (auto simp: ct)
    then have "jb_id y = jb_id job" using x(2) by (simp split: if_splits)
    then have "y = j" using same_job [OF keys y(1) j(1)] j(2) by simp
    then show ?thesis using y(2) j(2) by simp
  qed
  moreover have "jb_id job < ct_next_job ct'" using keys j by (auto simp: keys_ok_def ct)
  ultimately show ?thesis by (auto simp: stays_def)
qed

lemma calm_drop:
  assumes ok: "calm_ok s" and drops: "drops_jobs (sy_ct s) ct'"
  shows "calm_rest ct' (sy_tasks s)"
proof -
  have ci: "ci_ok s" using ok by (simp add: calm_ok_def)
  have sub: "set (ct_jobs ct') \<subseteq> set (ct_jobs (sy_ct s))" "set (ct_attempts ct') \<subseteq> set (ct_attempts (sy_ct s))"
    using drops by (auto simp: drops_jobs_def)
  show ?thesis
  proof (rule calm_change [OF ok], goal_cases)
  case (1 k)
  have "lives i (ct_attempts ct')" if cur: "jb_current k = Some i" and live: "lives i (ct_attempts (sy_ct s))" for i
  proof -
    obtain a where a: "a \<in> set (ct_attempts (sy_ct s))" "at_id a = i" "at_status a = AtRunning"
      using live by (auto simp: lives_def list_ex_iff)
    have "k \<in> set (ct_jobs (sy_ct s))" using 1(1) sub(1) by auto
    then have "at_job a = jb_id k" using current_settled(2) [OF ci _ cur] a by (auto simp: holds_def)
    then have "a \<in> set (ct_attempts ct')" by (intro dropped_attempt [OF drops a(1) 1(1)])
    then show ?thesis using a by (auto simp: lives_def list_ex_iff)
  qed
  then have "keeps s k (ct_attempts ct') (sy_tasks s)" by (auto simp: keeps_def)
  then show ?case using 1 sub(1) by auto
next
  case (2 p i)
  then have "ended i AtRunning (sy_ct s)" using ok unfolding calm_ok_def calm_rest_def by auto
  then show ?case using sub(2) by (auto simp: ended_def)
qed
qed

lemma calm_rest_step: "ci_step True s s' \<Longrightarrow> calm_ok s \<Longrightarrow> calm_rest (sy_ct s') (sy_tasks s')"
proof (induction rule: ci_step.induct)
  case (runners s rs)
  then show ?case by (intro calm_more [where s = s and g = id]) auto
next
  case (create pipeline s service ref trigger user deployment approval)
  then show ?case by (intro calm_more [where s = s and g = id]) (auto simp: createJob_def Let_def split: if_splits)
next
  case (approve s jobId userId)
  then show ?case by (intro calm_more [where s = s and g = id]) (auto simp: approveJob_def split_beta split: if_splits)
next
  case (claim runner reported version now s t ct')
  then show ?case
    by (intro calm_more [where s = s and g = id])
      (auto simp: with_task_def claimJob_def Let_def split: if_splits option.splits)
next
  case (lease s runner attemptId hash req)
  then show ?case
    by (intro calm_more [where s = s and g = id])
      (auto simp: with_task_def attemptForLease_def split: if_splits option.splits)
next
  case (sweep s now)
  then show ?case by (intro calm_more [where s = s and g = id]) (auto simp: sweepLostAttempts_def)
next
  case (revoke runnerId now s ct')
  then show ?case by (intro calm_more [where s = s and g = id]) (auto simp: revokeRunner_def revoked_attempts_def)
next
  case (extend s now)
  then show ?case
    by (intro calm_more [where s = s and g = "\<lambda>a. if at_status a = AtRunning then a\<lparr>at_expires := now + CI_LEASE_MS\<rparr> else a"])
      (auto simp: extendLeasesAfterRestart_def)
next
  case (cancel s jobId userId)
  then show ?case
    by (intro calm_more [where s = s and g = id]) (auto simp: with_task_def cancelJob_def split: if_splits option.splits)
next
  case (prune s days now)
  then show ?case by (simp add: calm_drop [OF _ drops_pruned])
next
  case (refuse s now job)
  then show ?case by (intro calm_more [where s = s and g = id]) (auto simp: refuse_job_def split: if_splits)
next
  case (remove s service)
  then show ?case by (simp add: calm_drop [OF _ drops_removed])
next
  case (run s xs t ys inp k ct')
  then show ?case using calm_run [of s xs t ys inp k ct'] by simp
qed

lemma calm_step: "ci_step True s s' \<Longrightarrow> calm_ok s \<Longrightarrow> calm_ok s'"
proof -
  assume step: "ci_step True s s'" and ok: "calm_ok s"
  have ci: "ci_ok s" using ok by (simp add: calm_ok_def)
  have "\<exists>t. stays (jb_id j) JobCancelled t (sy_ct s')" if j: "CancelAttempt j \<in> set (sy_tasks s')" for j
  proof (cases "CancelAttempt j \<in> set (sy_tasks s)")
    case True
    then obtain t where "stays (jb_id j) JobCancelled t (sy_ct s)" using ok unfolding calm_ok_def by blast
    then show ?thesis using step_stays [OF step, of JobCancelled] by (auto simp: job_over_def)
  next
    case False
    with step j show ?thesis
    proof cases
      case (run xs t ys inp k ct')
      then have "k = Some (CancelAttempt j)" using j False by (auto split: option.splits)
      then show ?thesis using cancel_started [OF ci, of inp t j ct'] run by auto
    qed (auto simp: with_task_def claimJob_def attemptForLease_def sweepLostAttempts_def revoked_attempts_def cancelJob_def Let_def
        split: option.splits if_splits)
  qed
  then show "calm_ok s'"
    using calm_rest_step [OF step ok] ci_step_ok [OF step ci] by (simp add: calm_ok_def)
qed

lemma calm_ok_start: "ci_start s \<Longrightarrow> calm_ok s"
  using ci_ok_start by (simp add: calm_ok_def calm_rest_def ci_start_def)

interpretation calm: guarded_system ci_start "ci_step True" calm_ok
  by unfold_locales (auto intro: calm_ok_start calm_step)


subsection \<open>No running job is forgotten\<close>






text \<open>
  A runner revoked while its claim has inserted the attempt but not yet made it current: the attempt
  is lost, the job does not name it yet and is left alone, and then the claim makes the lost attempt
  current. The job runs for ever: nothing is under way, and no sweep finds anything.
\<close>

definition revoked_claim :: ci_sys where
  "revoked_claim = (let s = sample_inserted; ct = snd (revokeRunner 7 20 (sy_ct s)) in
     s\<lparr>sy_ct := ct, sy_tasks := sy_tasks s @ revoked_attempts 7 ct\<rparr>)"

definition drive_last :: "ci_input \<Rightarrow> ci_sys \<Rightarrow> ci_sys" where
  "drive_last inp s = (case rev (sy_tasks s) of [] \<Rightarrow> s
     | t # ts \<Rightarrow> (case run_task inp t (sy_ct s) of (k, ct') \<Rightarrow> \<lparr>sy_ct = ct', sy_tasks = next_tasks (rev ts) k []\<rparr>))"

lemma drive_last_steps: "(ci_step False)\<^sup>*\<^sup>* s0 s \<Longrightarrow> (ci_step False)\<^sup>*\<^sup>* s0 (drive_last inp s)"
proof (cases "rev (sy_tasks s)")
  case (Cons t ts)
  assume steps: "(ci_step False)\<^sup>*\<^sup>* s0 s"
  obtain k ct' where r: "run_task inp t (sy_ct s) = (k, ct')" by fastforce
  have "sy_tasks s = rev ts @ t # []" using Cons by (metis rev.simps(2) rev_rev_ident)
  from ci_step.run [OF this _ r, of False] have "ci_step False s (drive_last inp s)" by (simp add: drive_last_def Cons r)
  then show ?thesis using steps by (rule rtranclp.rtrancl_into_rtrancl [rotated])
qed (simp add: drive_last_def)

definition forgotten_job :: ci_sys where
  "forgotten_job = (let i = sample_input 20 ''y'' in drive_last i (drive_last i (drive_last i revoked_claim)))"

lemma forgotten_value:
  "map (\<lambda>j. (jb_id j, jb_status j, jb_current j)) (ct_jobs (sy_ct forgotten_job)) = [(1, JobRunning, Some 1)]
   \<and> map at_status (ct_attempts (sy_ct forgotten_job)) = [AtLost] \<and> sy_tasks forgotten_job = []"
  by code_simp

text \<open>
  Without that assumption the guarantee fails: there is a run in which a runner is revoked
  in the middle of its claim, after which nothing is under way, the job runs, and every later sweep,
  at any time, loses nothing, so the job keeps running (and holds a deploy it gates) for ever.
\<close>

theorem broken_claim_forgets:
  "\<exists>s j. (ci_step False)\<^sup>*\<^sup>* no_jobs s \<and> sy_tasks s = [] \<and> ct_jobs (sy_ct s) = [j] \<and> jb_status j = JobRunning
     \<and> (\<forall>now. sweepLostAttempts now (sy_ct s) = [])"
proof -
  have inserted: "(ci_step False)\<^sup>*\<^sup>* no_jobs sample_inserted"
    unfolding sample_inserted_def Let_def by (intro drive_steps claims_steps created_steps)
  have first: "fst (revokeRunner 7 20 (sy_ct sample_inserted))" by code_simp
  have "ci_step False sample_inserted revoked_claim"
    unfolding revoked_claim_def Let_def by (rule ci_step.revoke [of _ 20]) (use first in \<open>simp add: prod_eq_iff\<close>)
  with inserted have "(ci_step False)\<^sup>*\<^sup>* no_jobs revoked_claim" by (rule rtranclp.rtrancl_into_rtrancl)
  then have steps: "(ci_step False)\<^sup>*\<^sup>* no_jobs forgotten_job"
    unfolding forgotten_job_def Let_def by (intro drive_last_steps)
  obtain j where "ct_jobs (sy_ct forgotten_job) = [j]" "jb_status j = JobRunning" using forgotten_value by auto
  moreover have "sweepLostAttempts now (sy_ct forgotten_job) = []" for now
    using forgotten_value by (auto simp: sweepLostAttempts_def filter_empty_conv)
  ultimately show ?thesis using steps forgotten_value by blast
qed

end
