(* ===== verification/CiCommit.thy ===== *)
theory CiCommit
  imports CiJobsProperties
begin

text \<open>
  The commit a job is about. A job created for a commit keeps it, whatever checkouts run; a job
  created for a branch is pinned by its first checkout, but a slower second one overwrites the pin.
\<close>

subsection \<open>Who may change a commit\<close>

text \<open>The job a source download works with.\<close>

fun held_job :: "ci_task \<Rightarrow> ci_job option" where
  "held_job (ReadSource job) = Some job"
| "held_job (PinSource job) = Some job"
| "held_job _ = None"

definition commit_fixed :: "int \<Rightarrow> string \<Rightarrow> ci_sys \<Rightarrow> bool" where
  "commit_fixed i c s \<longleftrightarrow> i < ct_next_job (sy_ct s)
     \<and> (\<forall>k \<in> set (ct_jobs (sy_ct s)). jb_id k = i \<longrightarrow> jb_commit k = Some c)
     \<and> (\<forall>t \<in> set (sy_tasks s). \<forall>p. held_job t = Some p \<longrightarrow> jb_id p = i \<longrightarrow> jb_commit p \<noteq> None)"

lemma held_follows:
  assumes "run_task inp t ct = (Some u, ct')" and "held_job u = Some p"
  shows "p \<in> set (ct_jobs ct) \<or> held_job t = Some p"
proof (cases t)
  case (WithLease a req)
  then have "find_job (at_job a) ct = Some p"
    using assms by (cases req) (auto simp: with_lease_def heartbeat_def finishAttempt_def source_route_def Let_def
      split: option.splits if_splits)
  then show ?thesis using find_job_row by blast
next
  case (ClaimFlip runner queued)
  then show ?thesis using assms by (auto simp: claim_flip_def split_beta split: list.splits if_splits)
next
  case (LoseRead a reason)
  then show ?thesis using assms by (auto simp: lose_read_def split: option.splits if_splits)
next
  case (ReadSource job)
  then show ?thesis using assms find_job_row by (auto simp: source_job_def split: option.splits)
qed (use assms in \<open>auto simp: claim_insert_def finish_close_def lose_mark_def cancel_update_def split_beta split: if_splits\<close>)

lemma step_held:
  assumes "ci_step calm s s'" and "u \<in> set (sy_tasks s')" and "held_job u = Some p"
  shows "p \<in> set (ct_jobs (sy_ct s)) \<or> (\<exists>t \<in> set (sy_tasks s). held_job t = Some p)"
  using assms
proof cases
  case (run xs t ys inp k ct')
  show ?thesis
  proof (cases "k = Some u")
    case True
    then show ?thesis using held_follows [of inp t "sy_ct s" u ct' p] run assms(3) by auto
  next
    case False
    then have "u \<in> set (sy_tasks s)" using run assms(2) by (auto split: option.splits)
    then show ?thesis using assms(3) by blast
  qed
qed (auto simp: with_task_def claimJob_def attemptForLease_def sweepLostAttempts_def revoked_attempts_def cancelJob_def Let_def
    split: option.splits if_splits)

text \<open>What a statement does to the commits of jobs.\<close>

definition same_commits :: "ci_tables \<Rightarrow> ci_tables \<Rightarrow> bool" where
  "same_commits ct ct' \<longleftrightarrow> ct_next_job ct' = ct_next_job ct
     \<and> (\<forall>k \<in> set (ct_jobs ct'). \<exists>j \<in> set (ct_jobs ct). jb_id j = jb_id k \<and> jb_commit j = jb_commit k)"

lemma same_commits_update:
  "(\<And>j. jb_id (f j) = jb_id j \<and> jb_commit (f j) = jb_commit j) \<Longrightarrow> same_commits ct (snd (update_jobs P f ct))"
  by (fastforce simp: same_commits_def)

lemma same_commits_rows: "ct_jobs ct' = ct_jobs ct \<Longrightarrow> ct_next_job ct' = ct_next_job ct \<Longrightarrow> same_commits ct ct'"
  by (auto simp: same_commits_def)

lemma run_commits:
  assumes r: "run_task inp t ct = (k, ct')"
  shows "same_commits ct ct' \<or> (\<exists>job. t = PinSource job \<and> jb_commit job = None \<and> ct' = pin_source (ci_commit inp) job ct)"
proof (cases t)
  case (WithLease a req)
  then have "ct_jobs ct' = ct_jobs ct \<and> ct_next_job ct' = ct_next_job ct"
    using r by (auto simp: with_lease_def heartbeat_def appendLog_def Let_def split_beta
      split: option.splits lease_request.splits prod.splits sum.splits if_splits)
  then show ?thesis by (auto intro: same_commits_rows)
next
  case (ClaimFlip runner queued)
  then show ?thesis
    using r by (auto simp: claim_flip_def split_beta split: list.splits intro!: same_commits_update same_commits_rows)
next
  case (PinSource job)
  then show ?thesis using r by (auto simp: pin_source_def intro: same_commits_rows)
next
  case (ClaimPoint job i)
  then show ?thesis using r by (auto simp: claim_point_def intro!: same_commits_update)
next
  case (FinishJob a job result)
  then show ?thesis using r by (auto simp: finish_job_def intro!: same_commits_update)
next
  case (LoseJob a job reason)
  then show ?thesis using r by (auto simp: lose_job_def intro!: same_commits_update)
next
  case (CancelUpdate job user)
  then show ?thesis using r by (auto simp: cancel_update_def split_beta intro!: same_commits_update)
qed (use r in \<open>auto simp: claim_insert_def renew_lease_def finish_close_def lose_mark_def cancel_attempt_def split_beta
    split: if_splits intro!: same_commits_rows\<close>)

lemma step_commit: "ci_step calm s s' \<Longrightarrow> commit_fixed i c s \<Longrightarrow> commit_fixed i c s'"
proof -
  assume step: "ci_step calm s s'" and fixed: "commit_fixed i c s"
  have jobs: "jb_commit k = Some c" if "k \<in> set (ct_jobs (sy_ct s))" "jb_id k = i" for k
    using fixed that by (simp add: commit_fixed_def)
  have tasks: "jb_commit p \<noteq> None" if "u \<in> set (sy_tasks s')" "held_job u = Some p" "jb_id p = i" for u p
    using step_held [OF step that(1,2)] fixed that(3) by (auto simp: commit_fixed_def)
  have next_job: "i < ct_next_job (sy_ct s)" using fixed by (simp add: commit_fixed_def)
  have "i < ct_next_job (sy_ct s') \<and> (\<forall>k \<in> set (ct_jobs (sy_ct s')). jb_id k = i \<longrightarrow> jb_commit k = Some c)"
    using step
  proof cases
    case (run xs t ys inp k ct')
    from run_commits [OF run(4)] show ?thesis
    proof
      assume "same_commits (sy_ct s) ct'"
      then show ?thesis using jobs next_job run(1) unfolding same_commits_def by fastforce
    next
      assume "\<exists>job. t = PinSource job \<and> jb_commit job = None \<and> ct' = pin_source (ci_commit inp) job (sy_ct s)"
      then obtain job where job: "t = PinSource job" "jb_commit job = None" "ct' = pin_source (ci_commit inp) job (sy_ct s)" by blast
      then have "jb_id job \<noteq> i" using fixed run(2) by (auto simp: commit_fixed_def)
      then show ?thesis using jobs next_job run(1) job by (auto simp: pin_source_def)
    qed
  qed (use jobs next_job in \<open>auto simp: with_task_def createJob_def approveJob_def claimJob_def revokeRunner_def
      extendLeasesAfterRestart_def pruneCiJobs_def cascade_service_def refuse_job_def Let_def split_beta split: if_splits\<close>)
  then show ?thesis using tasks by (simp add: commit_fixed_def)
qed


lemma step_next: "ci_step calm s s' \<Longrightarrow> ct_next_job (sy_ct s) \<le> ct_next_job (sy_ct s')"
proof (induction rule: ci_step.induct)
  case (run s xs t ys inp k ct')
  show ?case using run_commits [OF run(3)] by (auto simp: same_commits_def pin_source_def)
qed (auto simp: with_task_def createJob_def approveJob_def claimJob_def revokeRunner_def extendLeasesAfterRestart_def
    pruneCiJobs_def cascade_service_def refuse_job_def Let_def split_beta split: if_splits)

lemma pins_known:
  assumes "(ci_step calm)\<^sup>*\<^sup>* s0 s" and "ci_start s0" and "u \<in> set (sy_tasks s)" and "held_job u = Some p"
  shows "jb_id p < ct_next_job (sy_ct s)"
  using assms
proof (induction arbitrary: u rule: rtranclp_induct)
  case base
  then show ?case by (simp add: ci_start_def)
next
  case (step s s')
  have keys: "keys_ok (sy_ct s)" using ci.reachable_inv [OF step.prems(1) step.hyps(1)] by (simp add: ci_ok_def)
  have "jb_id p < ct_next_job (sy_ct s)"
    using step_held [OF step.hyps(2) step.prems(2,3)] step.IH [OF step.prems(1) _ step.prems(3)] step.IH step.prems(1) keys by (auto simp: keys_ok_def)
  then show ?case using step_next [OF step.hyps(2)] by simp
qed

text \<open>
  Claim C40. A job created for a full commit hash is about that commit for good: whatever claims,
  retries, concurrent checkouts and other requests follow, as long as the job exists it names exactly
  the lower-cased hash it was created with, so every attempt checks out that commit.
\<close>

theorem created_commit_final:
  assumes "ci_start s0" and "(ci_step calm)\<^sup>*\<^sup>* s0 s" and "is_sha sha"
    and "(ci_step calm)\<^sup>*\<^sup>* (s\<lparr>sy_ct := snd (createJob service pipeline (Some sha) trigger user deployment approval (sy_ct s))\<rparr>) s'"
    and "k \<in> set (ct_jobs (sy_ct s'))" and "jb_id k = ct_next_job (sy_ct s)"
  shows "jb_commit k = Some (js_lower sha)"
proof -
  let ?s = "s\<lparr>sy_ct := snd (createJob service pipeline (Some sha) trigger user deployment approval (sy_ct s))\<rparr>"
  let ?n = "ct_next_job (sy_ct s)"
  have keys: "keys_ok (sy_ct s)" using ci.reachable_inv [OF assms(1,2)] by (simp add: ci_ok_def)
  have "jb_id p \<noteq> ?n" if "t \<in> set (sy_tasks s)" "held_job t = Some p" for t p
    using pins_known [OF assms(2,1) that] by simp
  then have "commit_fixed ?n (js_lower sha) ?s"
    using assms(3) keys by (auto simp: commit_fixed_def createJob_def Let_def keys_ok_def)
  with assms(4) have "commit_fixed ?n (js_lower sha) s'"
    by (induction rule: rtranclp_induct) (auto intro: step_commit)
  then show ?thesis using assms(5,6) by (simp add: commit_fixed_def)
qed

lemma created_commit_final_witness:
  "\<exists>s0 s s' sha k. ci_start s0 \<and> (ci_step False)\<^sup>*\<^sup>* s0 s \<and> is_sha sha \<and> k \<in> set (ct_jobs (sy_ct s'))
     \<and> (ci_step False)\<^sup>*\<^sup>* (s\<lparr>sy_ct := snd (createJob 3 sample_pipeline (Some sha) ''push'' None None False (sy_ct s))\<rparr>) s'
     \<and> jb_id k = ct_next_job (sy_ct s) \<and> jb_status k = JobRunning \<and> jb_commit k = Some (js_lower sha)"
proof -
  let ?sha = "replicate 40 CHR ''A''" and ?i = "sample_input 10 ''x''"
  let ?s = "no_jobs\<lparr>sy_ct := snd (createJob 3 sample_pipeline (Some ?sha) ''push'' None None False (sy_ct no_jobs))\<rparr>"
  let ?t = "drive ?i (claims_now 10 ?s)"
  have start: "ci_start no_jobs" by (simp add: ci_start_def no_jobs_def)
  have sha: "is_sha ?sha" by code_simp
  have run: "(ci_step False)\<^sup>*\<^sup>* ?s ?t" by (intro drive_steps claims_steps rtranclp.rtrancl_refl)
  have "map (\<lambda>k. (jb_id k, jb_status k)) (ct_jobs (sy_ct ?t)) = [(1, JobRunning)]" by code_simp
  then obtain k where k: "k \<in> set (ct_jobs (sy_ct ?t))" "jb_id k = 1" "jb_status k = JobRunning" by auto
  have "ct_next_job (sy_ct no_jobs) = 1" by (simp add: no_jobs_def)
  then have n: "jb_id k = ct_next_job (sy_ct no_jobs)" using k(2) by simp
  show ?thesis
    using created_commit_final [OF start rtranclp.rtrancl_refl sha run k(1) n] start sha run k n by blast
qed

text \<open>
  Two source downloads of one attempt at once: both read the job before either has pinned a commit,
  and the second pin replaces the first, although the archive of the first was built from the other
  commit.
\<close>

definition two_downloads :: ci_sys where
  "two_downloads = (let ask = attemptForLease sample_runner 1 (Some ''x'') Source; i = sample_input 30 ''y'';
       s = with_task (ask (sy_ct sample_claimed)) sample_claimed; t = drive i (drive i s); u = with_task (ask (sy_ct t)) t
     in \<lparr>sy_ct = sy_ct u, sy_tasks = rev (sy_tasks u)\<rparr>)"

lemma second_pin_wins:
  "(let s = drive (sample_input 40 ''y'') (drive (sample_input 40 ''y'') two_downloads); t = drive (sample_input 50 ''y'') s;
        u = drive (sample_input 60 ''y''\<lparr>ci_commit := ''d''\<rparr>) t in
      map jb_commit (ct_jobs (sy_ct s)) = [None] \<and> map jb_commit (ct_jobs (sy_ct t)) = [Some ''c'']
      \<and> map jb_commit (ct_jobs (sy_ct u)) = [Some ''d''])"
  by code_simp

end
