(* ===== verification/CiGates.thy ===== *)
theory CiGates
  imports DeployLemmas CiSteps "HOL-Library.Product_Lexorder"
begin

text \<open>
  The two CI gates of a deploy: required GitHub workflows (\<open>apps/server/src/lib/ciGate.ts\<close>) and a job
  of the panel's own runners (\<open>lib/ciDeployGate.ts\<close>). The deployments are those of DeployQueue; their
  commit and the evidence of the GitHub gate are columns of their own here, as are the source columns
  of services. What GitHub answers, and the name a repository URL has under a host
  (\<open>githubRepoFromUrl\<close>), are inputs.

  The hold and the settling of a deploy are single steps: while a row is queued only the worker, and
  while it waits without evidence only the settling, changes more than its status to cancelled, and
  their writes are conditional on the status. A check of GitHub is cut into its statements.
\<close>

subsection \<open>Rows\<close>

datatype gate_state = GateWaiting | GatePassed | GateFailed

datatype check_state = CheckMissing | CheckPending | CheckSuccess | CheckFailure

record gate_check =
  gk_path :: string
  gk_state :: check_state
  gk_run :: "int option"
  gk_attempt :: "int option"

record ci_gate =
  cg_version :: int
  cg_link :: int
  cg_inst :: int
  cg_repo_id :: int
  cg_repo_name :: string
  cg_repo_url :: string
  cg_branch :: string
  cg_owner :: int
  cg_owner_url :: string
  cg_preview :: bool
  cg_workflows :: "string list"
  cg_head :: "string option"
  cg_state :: gate_state
  cg_reason :: string
  cg_checks :: "gate_check list"
  cg_deadline :: ms
  cg_checked :: "ms option"
  cg_next :: ms

record service_source =
  so_repo :: "string option"
  so_branch :: string
  so_image :: "string option"
  so_compose :: "string option"
  so_upload :: bool

record github_link =
  gl_id :: int
  gl_service :: int
  gl_inst :: int
  gl_repo_id :: int
  gl_repo_name :: string
  gl_enabled :: bool
  gl_workflows :: "string list"

record github_inst =
  gi_id :: int
  gi_app :: int
  gi_suspended :: bool
  gi_removed :: bool

record github_app =
  ga_id :: int
  ga_web :: string

record gate_world =
  gw_st :: deploy_store
  gw_commit :: "(int \<times> string) list"
  gw_gate :: "(int \<times> ci_gate) list"
  gw_source :: "(int \<times> service_source) list"
  gw_links :: "github_link list"
  gw_insts :: "github_inst list"
  gw_apps :: "github_app list"
  gw_pipelines :: "(int \<times> ci_pipeline) list"
  gw_ci :: ci_sys

definition commit_of :: "gate_world \<Rightarrow> int \<Rightarrow> string option" where
  "commit_of w i = map_of (gw_commit w) i"

definition gate_of :: "gate_world \<Rightarrow> int \<Rightarrow> ci_gate option" where
  "gate_of w i = map_of (gw_gate w) i"

definition source_of :: "gate_world \<Rightarrow> int \<Rightarrow> service_source" where
  "source_of w i = (case map_of (gw_source w) i of Some s \<Rightarrow> s
     | None \<Rightarrow> \<lparr>so_repo = None, so_branch = [], so_image = None, so_compose = None, so_upload = False\<rparr>)"

definition or_empty :: "string option \<Rightarrow> string" where
  "or_empty x = (case x of None \<Rightarrow> [] | Some s \<Rightarrow> s)"

text \<open>The policy of a service is its own, or that of the service it is a preview of.\<close>

definition policy_service :: "service_row \<Rightarrow> int" where
  "policy_service svc = (case svc_preview_parent svc of None \<Rightarrow> svc_id svc | Some p \<Rightarrow> p)"

subsection \<open>The GitHub gate\<close>

definition WAIT_MS :: ms where "WAIT_MS = 2 * 60 * 60000"
definition POLL_MS :: ms where "POLL_MS = 30000"
definition FRESH_MS :: ms where "FRESH_MS = 60000"
definition GATE_LEASE_MS :: ms where "GATE_LEASE_MS = 60000"

definition policyLink :: "gate_world \<Rightarrow> service_row \<Rightarrow> github_link option" where
  "policyLink w svc = List.find (\<lambda>l. gl_service l = policy_service svc) (gw_links w)"

definition newerStarted :: "gate_world \<Rightarrow> deployment \<Rightarrow> bool" where
  "newerStarted w dep \<longleftrightarrow> list_ex (\<lambda>n. dep_service n = dep_service dep \<and> dep_id n > dep_id dep
     \<and> (dep_started n \<noteq> None \<or> dep_status n \<in> {Building, Deploying, Running, Superseded})) (dst_deps (gw_st w))"

text \<open>Whether the service, its link, the installation and the app are still those of the gate: else \<open>SourceChanged\<close> or another error.\<close>

datatype context_result = ContextOk | SourceChanged string | ContextError

definition source_changed :: context_result where
  "source_changed = SourceChanged ''CI source changed; cancel and deploy again''"

definition gate_context :: "(string \<Rightarrow> string \<Rightarrow> string option) \<Rightarrow> gate_world \<Rightarrow> ci_gate \<Rightarrow> service_row \<Rightarrow> context_result" where
  "gate_context repo_of w gate svc =
     (let so = source_of w (svc_id svc) in
      if truthy (so_image so) \<or> truthy (so_compose so) \<or> \<not> truthy (so_repo so)
      then SourceChanged ''Required CI supports repository builds only; change the service source and deploy again''
      else if so_repo so \<noteq> Some (cg_repo_url gate) \<or> so_branch so \<noteq> cg_branch gate \<or> policy_service svc \<noteq> cg_owner gate
      then source_changed
      else if (if cg_owner gate = svc_id svc then so_repo so
               else if find_service (dst_db (gw_st w)) (cg_owner gate) = None then None
               else so_repo (source_of w (cg_owner gate))) \<noteq> Some (cg_owner_url gate)
      then source_changed
      else case List.find (\<lambda>l. gl_id l = cg_link gate) (gw_links w) of
        None \<Rightarrow> SourceChanged ''CI repository link changed; cancel and deploy again''
      | Some link \<Rightarrow>
          if gl_service link \<noteq> cg_owner gate \<or> gl_inst link \<noteq> cg_inst gate \<or> gl_repo_id link \<noteq> cg_repo_id gate
             \<or> gl_repo_name link \<noteq> cg_repo_name gate
          then SourceChanged ''CI repository link changed; cancel and deploy again''
          else if \<not> gl_enabled link then ContextError
          else case List.find (\<lambda>x. gi_id x = cg_inst gate) (gw_insts w) of
            None \<Rightarrow> ContextError
          | Some inst \<Rightarrow>
              if gi_removed inst \<or> gi_suspended inst then ContextError
              else case List.find (\<lambda>a. ga_id a = gi_app inst) (gw_apps w) of
                None \<Rightarrow> ContextError
              | Some app \<Rightarrow>
                  (case repo_of (cg_owner_url gate) (ga_web app) of
                     None \<Rightarrow> ContextError
                   | Some name \<Rightarrow>
                       if js_lower name \<noteq> js_lower (cg_repo_name gate) then source_changed
                       else case repo_of (cg_repo_url gate) (ga_web app) of
                         None \<Rightarrow> ContextError
                       | Some source \<Rightarrow>
                           if \<not> cg_preview gate \<and> js_lower source \<noteq> js_lower (cg_repo_name gate)
                           then source_changed else ContextOk))"

text \<open>The deployment rows with an id, if their status is the one expected, and the evidence stored with them.\<close>

definition write_gate ::
  "int \<Rightarrow> deploy_status \<Rightarrow> (deployment \<Rightarrow> deployment) \<Rightarrow> ci_gate \<Rightarrow> gate_world \<Rightarrow> bool \<times> gate_world" where
  "write_gate i st f gate w =
     (case update_deps (\<lambda>d. dep_id d = i \<and> dep_status d = st) (\<lambda>d. (f d)\<lparr>dep_ci_gate := True\<rparr>) (gw_st w) of
        (ids, store) \<Rightarrow>
          if ids = [] then (False, w)
          else (True, w\<lparr>gw_st := store, gw_gate := AList.update i gate (gw_gate w)\<rparr>))"

definition holdForCiIfNeeded ::
  "(string \<Rightarrow> string \<Rightarrow> string option) \<Rightarrow> int \<Rightarrow> ms \<Rightarrow> gate_world \<Rightarrow> bool \<times> gate_world" where
  "holdForCiIfNeeded repo_of i now w =
     (case find_dep (gw_st w) i of
        None \<Rightarrow> (True, w)
      | Some dep \<Rightarrow>
        if dep_status dep \<noteq> Queued then (True, w)
        else case find_service (dst_db (gw_st w)) (dep_service dep) of
          None \<Rightarrow> (True, w)
        | Some svc \<Rightarrow>
          let hold = (\<lambda>gate. (True, snd (write_gate i Queued
                (\<lambda>d. d\<lparr>dep_status := AwaitingCi,
                       dep_reviewed_by := (if truthy (commit_of w i) then dep_reviewed_by d else None),
                       dep_reviewed_at := (if truthy (commit_of w i) then dep_reviewed_at d else None)\<rparr>)
                (gate\<lparr>cg_state := GateWaiting, cg_next := now,
                      cg_deadline := (if cg_state gate = GatePassed then now + WAIT_MS else cg_deadline gate)\<rparr>) w)))
          in (case gate_of w i of
             None \<Rightarrow>
               (case policyLink w svc of
                  None \<Rightarrow> (False, w)
                | Some link \<Rightarrow>
                    if gl_workflows link = [] then (False, w)
                    else
                      let owner = (case svc_preview_parent svc of None \<Rightarrow> Some svc | Some p \<Rightarrow> find_service (dst_db (gw_st w)) p)
                      in hold \<lparr>cg_version = 1, cg_link = gl_id link, cg_inst = gl_inst link,
                           cg_repo_id = gl_repo_id link, cg_repo_name = gl_repo_name link,
                           cg_repo_url = or_empty (so_repo (source_of w (svc_id svc))), cg_branch = so_branch (source_of w (svc_id svc)),
                           cg_owner = (case owner of None \<Rightarrow> svc_id svc | Some ow \<Rightarrow> svc_id ow),
                           cg_owner_url = (case owner of None \<Rightarrow> [] | Some ow \<Rightarrow> or_empty (so_repo (source_of w (svc_id ow)))),
                           cg_preview = (svc_preview_parent svc \<noteq> None), cg_workflows = gl_workflows link, cg_head = commit_of w i,
                           cg_state = GateWaiting, cg_reason = ''Waiting for required GitHub workflows'',
                           cg_checks = map (\<lambda>p. \<lparr>gk_path = p, gk_state = CheckMissing, gk_run = None, gk_attempt = None\<rparr>) (gl_workflows link),
                           cg_deadline = now + WAIT_MS, cg_checked = None, cg_next = now\<rparr>)
           | Some gate \<Rightarrow>
               if newerStarted w dep then
                 (True, snd (write_gate i Queued (\<lambda>d. d\<lparr>dep_status := Cancelled, dep_finished := Some now\<rparr>)
                    (gate\<lparr>cg_reason := ''Replaced by a newer deployment''\<rparr>) w))
               else if cg_state gate = GatePassed \<and> cg_head gate = commit_of w i
                 \<and> (case cg_checked gate of None \<Rightarrow> False | Some t \<Rightarrow> t \<le> now \<and> now - t < FRESH_MS)
                 \<and> gate_context repo_of w gate svc = ContextOk then (False, w)
               else hold gate))"

text \<open>The last guard of the build: passed, or the refusal.\<close>

definition assertCiGateForBuild :: "(string \<Rightarrow> string \<Rightarrow> string option) \<Rightarrow> deployment \<Rightarrow> service_row \<Rightarrow> gate_world \<Rightarrow> bool" where
  "assertCiGateForBuild repo_of dep svc w =
     (case gate_of w (dep_id dep) of
        None \<Rightarrow> (case policyLink w svc of None \<Rightarrow> True | Some link \<Rightarrow> gl_workflows link = [])
      | Some gate \<Rightarrow>
          cg_version gate = 1 \<and> cg_state gate = GatePassed \<and> truthy (cg_head gate) \<and> cg_head gate = commit_of w (dep_id dep)
          \<and> (case cg_head gate of None \<Rightarrow> False | Some s \<Rightarrow> is_sha s)
          \<and> gate_context repo_of w gate svc = ContextOk \<and> \<not> newerStarted w dep)"

subsection \<open>A check of GitHub\<close>

record workflow_run =
  wr_id :: int
  wr_attempt :: int
  wr_path :: string
  wr_sha :: string
  wr_event :: string
  wr_status :: string
  wr_conclusion :: "string option"

text \<open>What GitHub answers, \<open>None\<close> where the call fails: the token, the id of the repository, the head of the branch, the runs (whether cut off, and the runs).\<close>

record github_replies =
  gh_token :: bool
  gh_repo :: "int option option"
  gh_head :: "string option option"
  gh_runs :: "(bool \<times> workflow_run list) option"

text \<open>A check under way: the deployment as it was read, the evidence then and as leased, and the clock of the poll.\<close>

record gate_poll =
  gp_dep :: deployment
  gp_commit :: "string option"
  gp_original :: ci_gate
  gp_leased :: ci_gate
  gp_now :: ms

datatype gate_task = CheckRead gate_poll | CheckPin gate_poll string | CheckRuns gate_poll string
  | CheckFinish gate_poll deploy_status ci_gate

definition write_leased ::
  "gate_poll \<Rightarrow> ci_gate \<Rightarrow> (deployment \<Rightarrow> deployment) \<Rightarrow> ci_gate \<Rightarrow> gate_world \<Rightarrow> bool \<times> gate_world" where
  "write_leased p expected f gate w =
     (if gate_of w (dep_id (gp_dep p)) = Some expected then write_gate (dep_id (gp_dep p)) AwaitingCi f gate w else (False, w))"

definition lease_gate :: "deployment \<Rightarrow> ms \<Rightarrow> gate_world \<Rightarrow> gate_world \<Rightarrow> gate_task option \<times> gate_world" where
  "lease_gate dep now seen w =
     (case gate_of seen (dep_id dep) of
        None \<Rightarrow> (None, w)
      | Some original \<Rightarrow>
          let p = \<lparr>gp_dep = dep, gp_commit = commit_of seen (dep_id dep), gp_original = original,
                   gp_leased = original\<lparr>cg_next := now + GATE_LEASE_MS\<rparr>, gp_now = now\<rparr>
          in case write_leased p original (\<lambda>d. d) (gp_leased p) w of
               (won, w') \<Rightarrow> (if won then Some (CheckRead p) else None, w'))"

definition poll_gate :: "gate_poll \<Rightarrow> ci_gate" where
  "poll_gate p = (gp_leased p)\<lparr>cg_checked := Some (gp_now p), cg_next := gp_now p + POLL_MS\<rparr>"

definition check_fail :: "gate_poll \<Rightarrow> ci_gate \<Rightarrow> string \<Rightarrow> gate_task option" where
  "check_fail p gate reason = Some (CheckFinish p Failed (gate\<lparr>cg_state := GateFailed, cg_reason := reason\<rparr>))"

definition check_retry :: "gate_poll \<Rightarrow> ci_gate \<Rightarrow> gate_task option" where
  "check_retry p gate = Some (CheckFinish p AwaitingCi (gate\<lparr>cg_reason :=
     ''GitHub could not verify CI. Check the App link, repository access and Actions read permission; retrying.''\<rparr>))"

definition check_sha :: "gate_poll \<Rightarrow> string option \<Rightarrow> gate_task option" where
  "check_sha p sha =
     (case sha of
        None \<Rightarrow> check_fail p (poll_gate p) ''GitHub did not return an exact commit SHA''
      | Some s \<Rightarrow>
          if \<not> is_sha s then check_fail p (poll_gate p) ''GitHub did not return an exact commit SHA''
          else if truthy (gp_commit p) \<and> gp_commit p \<noteq> Some s then check_fail p (poll_gate p) ''CI commit changed; deploy again''
          else Some (CheckPin p s))"

definition check_read :: "(string \<Rightarrow> string \<Rightarrow> string option) \<Rightarrow> github_replies \<Rightarrow> gate_poll \<Rightarrow> gate_world \<Rightarrow> gate_task option" where
  "check_read repo_of gh p w =
     (let original = gp_original p; fail = check_fail p (poll_gate p); retry = check_retry p (poll_gate p) in
      if cg_version original \<noteq> 1 \<or> cg_workflows original = [] then fail ''Invalid CI policy; cancel and deploy again''
      else if gp_now p \<ge> cg_deadline original then fail ''Required CI timed out after two hours; deploy again to retry''
      else case find_service (dst_db (gw_st w)) (dep_service (gp_dep p)) of
        None \<Rightarrow> None
      | Some svc \<Rightarrow>
          (case gate_context repo_of w original svc of
             SourceChanged r \<Rightarrow> fail r
           | ContextError \<Rightarrow> retry
           | ContextOk \<Rightarrow>
               if \<not> gh_token gh then retry
               else case gh_repo gh of
                 None \<Rightarrow> retry
               | Some r \<Rightarrow>
                   if r \<noteq> Some (cg_repo_id original) then fail ''CI repository identity changed; deploy again''
                   else if truthy (cg_head original) then check_sha p (cg_head original)
                   else if cg_preview original then fail ''A CI-gated preview requires an exact commit SHA''
                   else case gh_head gh of None \<Rightarrow> retry | Some c \<Rightarrow> check_sha p c))"

text \<open>The pin, before any more network traffic: the commit on the deployment and on its evidence.\<close>

definition check_pin :: "gate_poll \<Rightarrow> string \<Rightarrow> gate_world \<Rightarrow> gate_task option \<times> gate_world" where
  "check_pin p sha w =
     (let pinned = (gp_leased p)\<lparr>cg_head := Some sha\<rparr> in
      case write_leased p (gp_leased p) (\<lambda>d. d) pinned w of
        (saved, w') \<Rightarrow>
          if saved then (Some (CheckRuns (p\<lparr>gp_leased := pinned\<rparr>) sha),
                         w'\<lparr>gw_commit := AList.update (dep_id (gp_dep p)) sha (gw_commit w')\<rparr>)
          else (None, w'))"

definition run_events :: "bool \<Rightarrow> string list" where
  "run_events preview = (if preview then [''pull_request''] else [''push'', ''workflow_dispatch'', ''merge_group''])"

definition latest_run :: "bool \<Rightarrow> string \<Rightarrow> string \<Rightarrow> workflow_run list \<Rightarrow> workflow_run option" where
  "latest_run preview sha workflow rows =
     (case sort_key (\<lambda>r. (- wr_id r, - wr_attempt r))
         (filter (\<lambda>r. js_lower (wr_sha r) = js_lower sha \<and> takeWhile (\<lambda>c. c \<noteq> CHR ''@'') (wr_path r) = workflow
            \<and> wr_event r \<in> set (run_events preview)) rows) of
        [] \<Rightarrow> None | r # _ \<Rightarrow> Some r)"

definition workflow_check :: "bool \<Rightarrow> string \<Rightarrow> workflow_run list \<Rightarrow> string \<Rightarrow> gate_check" where
  "workflow_check preview sha rows workflow =
     (let latest = latest_run preview sha workflow rows in
      \<lparr>gk_path = workflow,
       gk_state = (case latest of None \<Rightarrow> CheckMissing
         | Some r \<Rightarrow> if wr_status r \<noteq> ''completed'' then CheckPending
             else if wr_conclusion r = Some ''success'' then CheckSuccess else CheckFailure),
       gk_run = map_option wr_id latest, gk_attempt = map_option wr_attempt latest\<rparr>)"

definition check_runs :: "(string \<Rightarrow> string \<Rightarrow> string option) \<Rightarrow> github_replies \<Rightarrow> gate_poll \<Rightarrow> string \<Rightarrow> gate_world \<Rightarrow> gate_task option" where
  "check_runs repo_of gh p sha w =
     (let gate0 = poll_gate p in
      case gh_runs gh of
        None \<Rightarrow> check_retry p gate0
      | Some (truncated, rows) \<Rightarrow>
          if truncated then check_retry p gate0
          else
            let checks = map (workflow_check (cg_preview (gp_original p)) sha rows) (cg_workflows gate0);
                gate = gate0\<lparr>cg_checks := checks\<rparr>;
                finish = (\<lambda>st g. Some (if newerStarted w (gp_dep p)
                  then CheckFinish p Cancelled (g\<lparr>cg_reason := ''Replaced by a newer deployment''\<rparr>) else CheckFinish p st g))
            in if list_ex (\<lambda>c. gk_state c = CheckFailure) checks then
                 finish Failed (gate\<lparr>cg_state := GateFailed,
                   cg_reason := ''A required GitHub workflow did not succeed; rerun CI and deploy again''\<rparr>)
               else if list_all (\<lambda>c. gk_state c = CheckSuccess) checks then
                 (case find_service (dst_db (gw_st w)) (dep_service (gp_dep p)) of
                    None \<Rightarrow> None
                  | Some svc \<Rightarrow>
                      (case gate_context repo_of w (gp_original p) svc of
                         SourceChanged r \<Rightarrow> check_fail p gate r
                       | ContextError \<Rightarrow> check_retry p gate
                       | ContextOk \<Rightarrow> finish Queued (gate\<lparr>cg_state := GatePassed,
                           cg_reason := ''All required GitHub workflows passed for this exact commit''\<rparr>)))
               else finish AwaitingCi (gate\<lparr>cg_reason := ''Waiting for required GitHub workflows on the pinned commit''\<rparr>))"

definition check_finish :: "gate_poll \<Rightarrow> deploy_status \<Rightarrow> ci_gate \<Rightarrow> gate_world \<Rightarrow> bool \<times> gate_world" where
  "check_finish p st gate w =
     write_leased p (gp_leased p)
       (\<lambda>d. d\<lparr>dep_status := st, dep_finished := (if st = Failed \<or> st = Cancelled then Some (gp_now p) else dep_finished d)\<rparr>) gate w"

text \<open>The rows a poll takes up: waiting with evidence and due, the longest due first, four at a time.\<close>

definition pollCiGates :: "ms \<Rightarrow> gate_world \<Rightarrow> deployment list" where
  "pollCiGates now w =
     (let due = filter (\<lambda>d. dep_status d = AwaitingCi \<and> (case gate_of w (dep_id d) of None \<Rightarrow> False | Some g \<Rightarrow> cg_next g \<le> now))
            (dst_deps (gw_st w))
      in take 4 (sort_key (\<lambda>d. (case gate_of w (dep_id d) of None \<Rightarrow> 0 | Some g \<Rightarrow> cg_next g, dep_id d)) due))"


subsection \<open>The gate of a runner job\<close>

definition gatingPipeline :: "gate_world \<Rightarrow> service_row \<Rightarrow> ci_pipeline option" where
  "gatingPipeline w svc =
     (case map_of (gw_pipelines w) (policy_service svc) of
        None \<Rightarrow> None | Some p \<Rightarrow> if pl_gate_deploys p then Some p else None)"

definition latestJob :: "int \<Rightarrow> ci_tables \<Rightarrow> ci_job option" where
  "latestJob i ct =
     (case sort_key (\<lambda>j. - jb_id j) (filter (\<lambda>j. jb_deployment j = Some i) (ct_jobs ct)) of [] \<Rightarrow> None | j # _ \<Rightarrow> Some j)"

definition hasSource :: "service_source \<Rightarrow> bool" where
  "hasSource so \<longleftrightarrow> truthy (so_repo so) \<or> so_upload so"

definition passedFor :: "ci_job \<Rightarrow> string option \<Rightarrow> service_source \<Rightarrow> bool" where
  "passedFor job commit so \<longleftrightarrow> jb_status job = JobSucceeded
     \<and> (hasSource so \<longrightarrow> truthy (jb_commit job) \<and> jb_commit job = commit)"

definition new_gate_job :: "int \<Rightarrow> ms \<Rightarrow> service_row \<Rightarrow> ci_pipeline \<Rightarrow> gate_world \<Rightarrow> (bool + ci_job) \<times> gate_world" where
  "new_gate_job i now svc pipeline w =
     (case createJob (svc_id svc) pipeline (commit_of w i) ''deploy'' None (Some i) (svc_from_fork svc) (sy_ct (gw_ci w)) of
        (job, ct) \<Rightarrow>
          let ct' = (if svc_from_fork svc \<and> \<not> truthy (commit_of w i) \<and> hasSource (source_of w (svc_id svc))
                     then refuse_job now job ct else ct)
          in (Inr job, w\<lparr>gw_ci := (gw_ci w)\<lparr>sy_ct := ct'\<rparr>\<rparr>))"

text \<open>
  \<open>holdForRunnerCiIfNeeded\<close>: first the job the deploy waits for (or the answer), created if there is none,
  and refused at once where it would test an unknown commit of a fork; then the row.
\<close>

definition runner_job :: "int \<Rightarrow> ms \<Rightarrow> gate_world \<Rightarrow> (bool + ci_job) \<times> gate_world" where
  "runner_job i now w =
     (case find_dep (gw_st w) i of
        None \<Rightarrow> (Inl True, w)
      | Some dep \<Rightarrow>
        if dep_status dep \<noteq> Queued then (Inl True, w)
        else case find_service (dst_db (gw_st w)) (dep_service dep) of
          None \<Rightarrow> (Inl True, w)
        | Some svc \<Rightarrow>
          (case gatingPipeline w svc of
             None \<Rightarrow> (Inl False, w)
           | Some pipeline \<Rightarrow>
               let ct = sy_ct (gw_ci w); so = source_of w (svc_id svc); commit = commit_of w i in
               (case latestJob i ct of
                  Some job \<Rightarrow>
                    if passedFor job commit so then (Inl False, w)
                    else if unfinished (jb_status job) then (Inr job, w)
                    else new_gate_job i now svc pipeline w
                | None \<Rightarrow> new_gate_job i now svc pipeline w)))"


definition runner_row :: "int \<Rightarrow> ci_job \<Rightarrow> gate_world \<Rightarrow> gate_world" where
  "runner_row i job w =
     (case update_deps (\<lambda>d. dep_id d = i \<and> dep_status d = Queued)
             (\<lambda>d. d\<lparr>dep_status := AwaitingCi,
                    dep_reviewed_by := (if truthy (commit_of w i) then dep_reviewed_by d else None),
                    dep_reviewed_at := (if truthy (commit_of w i) then dep_reviewed_at d else None)\<rparr>) (gw_st w) of
        (held, st) \<Rightarrow>
          if held = [] then w\<lparr>gw_ci := with_task (cancelJob (jb_id job) None (sy_ct (gw_ci w))) (gw_ci w)\<rparr>
          else w\<lparr>gw_st := st\<rparr>)"

definition holdForRunnerCiIfNeeded :: "int \<Rightarrow> ms \<Rightarrow> gate_world \<Rightarrow> bool \<times> gate_world" where
  "holdForRunnerCiIfNeeded i now w =
     (case runner_job i now w of (Inl held, w') \<Rightarrow> (held, w') | (Inr job, w') \<Rightarrow> (True, runner_row i job w'))"

text \<open>A waiting deploy moves on once its job is over: queued at the commit the job passed, or failed.\<close>

datatype verdict = Passed | Refused string

definition digits :: "int \<Rightarrow> string" where
  "digits i = nat_text (nat i)"

definition job_verdict :: "ci_job \<Rightarrow> string option \<Rightarrow> service_source \<Rightarrow> verdict" where
  "job_verdict job commit so =
     (if jb_status job \<noteq> JobSucceeded then
        Refused (''CI job #'' @ digits (jb_id job) @ '' '' @ (if jb_status job = JobCancelled then ''was cancelled''
          else ''failed'' @ (if truthy (jb_error job) then '': '' @ or_empty (jb_error job) else [])))
      else if hasSource so \<and> \<not> truthy (jb_commit job) then Refused (''CI job #'' @ digits (jb_id job) @ '' passed without a recorded commit'')
      else if truthy commit \<and> jb_commit job \<noteq> commit then Refused (''CI job #'' @ digits (jb_id job) @ '' tested another commit'')
      else Passed)"

text \<open>The waiting row without evidence: its status, and the commit where one is written.\<close>

definition release_row :: "int \<Rightarrow> (deployment \<Rightarrow> deployment) \<Rightarrow> gate_world \<Rightarrow> bool \<times> gate_world" where
  "release_row i f w =
     (if gate_of w i \<noteq> None then (False, w)
      else case update_deps (\<lambda>d. dep_id d = i \<and> dep_status d = AwaitingCi) f (gw_st w) of
        (ids, st) \<Rightarrow> (ids \<noteq> [], w\<lparr>gw_st := st\<rparr>))"

definition set_commit :: "int \<Rightarrow> string option \<Rightarrow> gate_world \<Rightarrow> gate_world" where
  "set_commit i c w = w\<lparr>gw_commit := (case c of None \<Rightarrow> AList.delete i (gw_commit w) | Some s \<Rightarrow> AList.update i s (gw_commit w))\<rparr>"

definition cancel_job :: "int \<Rightarrow> gate_world \<Rightarrow> gate_world" where
  "cancel_job jobId w = w\<lparr>gw_ci := with_task (cancelJob jobId None (sy_ct (gw_ci w))) (gw_ci w)\<rparr>"

definition settleOne :: "deployment \<Rightarrow> ms \<Rightarrow> gate_world \<Rightarrow> gate_world" where
  "settleOne dep now w =
     (let i = dep_id dep in
      case latestJob i (sy_ct (gw_ci w)) of
        None \<Rightarrow> snd (release_row i (\<lambda>d. d\<lparr>dep_status := Queued\<rparr>) w)
      | Some job \<Rightarrow>
        (case find_service (dst_db (gw_st w)) (dep_service dep) of
           None \<Rightarrow> w
         | Some svc \<Rightarrow>
           if gatingPipeline w svc = None then
             (let w' = snd (release_row i (\<lambda>d. d\<lparr>dep_status := Queued\<rparr>) w)
              in if unfinished (jb_status job) then cancel_job (jb_id job) w' else w')
           else if unfinished (jb_status job) then w
           else (case job_verdict job (commit_of w i) (source_of w (svc_id svc)) of
             Refused reason \<Rightarrow> snd (release_row i (\<lambda>d. d\<lparr>dep_status := Failed, dep_finished := Some now\<rparr>) w)
           | Passed \<Rightarrow>
               (case release_row i (\<lambda>d. d\<lparr>dep_status := Queued\<rparr>) w of
                  (moved, w') \<Rightarrow> if moved then set_commit i (jb_commit job) w' else w'))))"

definition waiting_rows :: "gate_world \<Rightarrow> deployment list" where
  "waiting_rows w = sort_key dep_id (filter (\<lambda>d. dep_status d = AwaitingCi \<and> gate_of w (dep_id d) = None) (dst_deps (gw_st w)))"

definition orphaned :: "gate_world \<Rightarrow> int list" where
  "orphaned w = take 50 (map jb_id (filter (\<lambda>j. unfinished (jb_status j)
     \<and> (case jb_deployment j of None \<Rightarrow> False
        | Some i \<Rightarrow> (case find_dep (gw_st w) i of None \<Rightarrow> False | Some d \<Rightarrow> dep_status d \<in> {Cancelled, Failed, Superseded})))
     (ct_jobs (sy_ct (gw_ci w)))))"

text \<open>The pages of 50 are read one after the other in the order of ids, so every waiting row is settled once.\<close>

definition settleRunnerCiGates :: "ms \<Rightarrow> gate_world \<Rightarrow> gate_world" where
  "settleRunnerCiGates now w =
     (let w' = fold (\<lambda>dep. settleOne dep now) (waiting_rows w) w
      in fold cancel_job (orphaned w') w')"

definition assertRunnerCiForBuild :: "deployment \<Rightarrow> service_row \<Rightarrow> gate_world \<Rightarrow> bool" where
  "assertRunnerCiForBuild dep svc w =
     (gatingPipeline w svc = None
      \<or> (case latestJob (dep_id dep) (sy_ct (gw_ci w)) of None \<Rightarrow> False
         | Some job \<Rightarrow> passedFor job (commit_of w (dep_id dep)) (source_of w (svc_id svc))))"

text \<open>A push starts a job of its own unless the pipeline gates deploys, or the commit has one.\<close>

definition runCiOnPush :: "int \<Rightarrow> string \<Rightarrow> gate_world \<Rightarrow> int option \<times> gate_world" where
  "runCiOnPush serviceId pushed w =
     (case map_of (gw_pipelines w) serviceId of
        None \<Rightarrow> (None, w)
      | Some pipeline \<Rightarrow>
          if \<not> pl_run_on_push pipeline \<or> pl_gate_deploys pipeline \<or> \<not> is_sha pushed then (None, w)
          else
            let sha = js_lower pushed; ct = sy_ct (gw_ci w) in
            if list_ex (\<lambda>j. jb_service j = serviceId \<and> jb_commit j = Some sha \<and> jb_trigger j = ''push'') (ct_jobs ct) then (None, w)
            else (case createJob serviceId pipeline (Some sha) ''push'' None None False ct of
                    (job, ct') \<Rightarrow> (Some (jb_id job), w\<lparr>gw_ci := (gw_ci w)\<lparr>sy_ct := ct'\<rparr>\<rparr>)))"

subsection \<open>The gates in the claim of the worker\<close>

text \<open>What the loop over the candidates asks for a row: the runner gate first, then the GitHub gate.\<close>

definition gate_hold :: "(string \<Rightarrow> string \<Rightarrow> string option) \<Rightarrow> ms \<Rightarrow> gate_world \<Rightarrow> int \<Rightarrow> deploy_store \<Rightarrow> bool \<times> deploy_store" where
  "gate_hold repo_of now w i st =
     (case holdForRunnerCiIfNeeded i now (w\<lparr>gw_st := st\<rparr>) of
        (True, w') \<Rightarrow> (True, gw_st w')
      | (False, w') \<Rightarrow> (case holdForCiIfNeeded repo_of i now w' of (held, w'') \<Rightarrow> (held, gw_st w'')))"

definition gated_env :: "(string \<Rightarrow> string \<Rightarrow> string option) \<Rightarrow> gate_world \<Rightarrow> claim_env \<Rightarrow> claim_env" where
  "gated_env repo_of w ce = ce\<lparr>ce_ci_hold := gate_hold repo_of (ce_now ce) w\<rparr>"

end
