(* ===== verification/CiGateProperties.thy ===== *)
theory CiGateProperties
  imports CiGates CiJobsProperties DeployProperties
begin

text \<open>
  The gates as a state machine: a deployment that is past its GitHub gate passed it at exactly its
  commit, whatever polls, holds, cancels and job gates interleave; and a deployment the worker claims
  is past both gates.
\<close>

subsection \<open>The step relation\<close>

record gate_sys =
  gx_w :: gate_world
  gx_tasks :: "gate_task list"

definition gate_live :: "deploy_status \<Rightarrow> bool" where
  "gate_live st \<longleftrightarrow> st \<notin> {AwaitingCi, Cancelled, Failed}"

fun run_check ::
  "(string \<Rightarrow> string \<Rightarrow> string option) \<Rightarrow> github_replies \<Rightarrow> gate_task \<Rightarrow> gate_world \<Rightarrow> gate_task option \<times> gate_world" where
  "run_check repo_of gh (CheckRead p) w = (check_read repo_of gh p w, w)"
| "run_check repo_of gh (CheckPin p sha) w = check_pin p sha w"
| "run_check repo_of gh (CheckRuns p sha) w = (check_runs repo_of gh p sha w, w)"
| "run_check repo_of gh (CheckFinish p st gate) w = (None, snd (check_finish p st gate w))"

text \<open>
  Beside the gates, everything else may change: the rows of deployments, as long as ids stay unique and a
  deployment that waits for CI, failed or was cancelled does not come back by another way; links,
  sources and jobs at will; the commit of a deployment without evidence, or with it to one that differs
  only in case, which is what the build compares after its checkout. A check may be aborted.
\<close>

inductive gate_step :: "(string \<Rightarrow> string \<Rightarrow> string option) \<Rightarrow> gate_sys \<Rightarrow> gate_sys \<Rightarrow> bool" for repo_of where
  hold_runner: "gate_step repo_of s (s\<lparr>gx_w := snd (holdForRunnerCiIfNeeded i now (gx_w s))\<rparr>)"
| hold_github: "gate_step repo_of s (s\<lparr>gx_w := snd (holdForCiIfNeeded repo_of i now (gx_w s))\<rparr>)"
| settle: "gate_step repo_of s (s\<lparr>gx_w := settleOne dep now (gx_w s)\<rparr>)"
| lease: "lease_gate dep now seen (gx_w s) = (k, w') \<Longrightarrow>
    gate_step repo_of s \<lparr>gx_w = w', gx_tasks = gx_tasks s @ (case k of None \<Rightarrow> [] | Some u \<Rightarrow> [u])\<rparr>"
| check: "gx_tasks s = xs @ t # ys \<Longrightarrow> run_check repo_of gh t (gx_w s) = (k, w') \<Longrightarrow>
    gate_step repo_of s \<lparr>gx_w = w', gx_tasks = xs @ (case k of None \<Rightarrow> [] | Some u \<Rightarrow> [u]) @ ys\<rparr>"
| abort: "gx_tasks s = xs @ t # ys \<Longrightarrow> gate_step repo_of s (s\<lparr>gx_tasks := xs @ ys\<rparr>)"
| rows: "distinct (map dep_id (dst_deps st)) \<Longrightarrow>
    (\<And>d. d \<in> set (dst_deps st) \<Longrightarrow> gate_live (dep_status d) \<Longrightarrow> gate_of (gx_w s) (dep_id d) = None
      \<or> (\<exists>e \<in> set (dst_deps (gw_st (gx_w s))). dep_id e = dep_id d \<and> gate_live (dep_status e))) \<Longrightarrow>
    gate_step repo_of s (s\<lparr>gx_w := (gx_w s)\<lparr>gw_st := st\<rparr>\<rparr>)"
| settings: "gate_step repo_of s (s\<lparr>gx_w := (gx_w s)\<lparr>gw_source := so, gw_links := ls, gw_insts := ins, gw_apps := as,
      gw_pipelines := ps, gw_ci := ci\<rparr>\<rparr>)"
| commit: "gate_of (gx_w s) i = None \<Longrightarrow> gate_step repo_of s (s\<lparr>gx_w := set_commit i c (gx_w s)\<rparr>)"
| checked_out: "gate_of (gx_w s) i = Some g \<Longrightarrow> cg_head g = Some h \<Longrightarrow> js_lower c = js_lower h \<Longrightarrow>
    gate_step repo_of s (s\<lparr>gx_w := set_commit i (Some c) (gx_w s)\<rparr>)"


text \<open>A round of the settling is a sequence of these steps: the cancels at its end only touch jobs.\<close>

lemma settle_round: "(gate_step repo_of)\<^sup>*\<^sup>* s (s\<lparr>gx_w := settleRunnerCiGates now (gx_w s)\<rparr>)"
proof -
  have rows: "(gate_step repo_of)\<^sup>*\<^sup>* s (s\<lparr>gx_w := fold (\<lambda>dep. settleOne dep now) ds (gx_w s)\<rparr>)" for ds s
  proof (induction ds arbitrary: s)
    case (Cons d ds)
    show ?case
      using converse_rtranclp_into_rtranclp [OF gate_step.settle [of repo_of s d now]
          Cons.IH [of "s\<lparr>gx_w := settleOne d now (gx_w s)\<rparr>"]] by simp
  qed simp
  have job: "gate_step repo_of s (s\<lparr>gx_w := cancel_job j (gx_w s)\<rparr>)" for j s
  proof -
    have "gate_step repo_of s (s\<lparr>gx_w := (gx_w s)\<lparr>gw_source := gw_source (gx_w s), gw_links := gw_links (gx_w s), gw_insts := gw_insts (gx_w s),
        gw_apps := gw_apps (gx_w s), gw_pipelines := gw_pipelines (gx_w s), gw_ci := gw_ci (cancel_job j (gx_w s))\<rparr>\<rparr>)"
      by (rule gate_step.settings)
    then show ?thesis by (simp add: cancel_job_def)
  qed
  have jobs: "(gate_step repo_of)\<^sup>*\<^sup>* s (s\<lparr>gx_w := fold cancel_job js (gx_w s)\<rparr>)" for js s
  proof (induction js arbitrary: s)
    case (Cons j js)
    show ?case
      using converse_rtranclp_into_rtranclp [OF job Cons.IH [of "s\<lparr>gx_w := cancel_job j (gx_w s)\<rparr>"]] by simp
  qed simp
  show ?thesis
    unfolding settleRunnerCiGates_def Let_def
    using rtranclp_trans [OF rows jobs] by simp
qed

subsection \<open>The invariant\<close>










subsection \<open>Holds and settling\<close>







subsection \<open>Checks\<close>














subsection \<open>The claim of the worker\<close>

text \<open>The loop over the candidates asked the gates about the row it returns, in a store it came to.\<close>

lemma claim_loop_asked:
  assumes "claim_loop ce frozen busy rows st = (Some (row, svc), st2)" and "Q st"
    and hold: "\<And>i s. Q s \<Longrightarrow> Q (snd (ce_ci_hold ce i s))"
    and drop: "\<And>sid i s. Q s \<Longrightarrow> Q (snd (dropStaleApprovals (ce_now ce) sid i s))"
    and approval: "\<And>svc row s. Q s \<Longrightarrow> Q (snd (holdForApprovalIfNeeded svc row s))"
  shows "\<exists>s. Q s \<and> \<not> fst (ce_ci_hold ce (dep_id row) s)"
  using assms(1,2)
proof (induction rows arbitrary: st)
  case (Cons r rows)
  obtain row' svc' where r: "r = (row', svc')" by (cases r)
  obtain b st1 where ci: "ce_ci_hold ce (dep_id row') st = (b, st1)" by fastforce
  obtain h st2' where ap: "holdForApprovalIfNeeded svc' row' st1 = (h, st2')" by fastforce
  have Q: "Q st1" "Q st2'" using hold [OF Cons.prems(2), of "dep_id row'"] approval [of st1 svc' row'] ci ap by simp_all
  note go = Cons.IH
  show ?case
  proof (cases b)
    case True
    then have "claim_loop ce frozen busy rows st = (Some (row, svc), st2) \<or> claim_loop ce frozen busy rows st1 = (Some (row, svc), st2)
      \<or> claim_loop ce frozen busy rows (snd (dropStaleApprovals (ce_now ce) (dep_service row') (dep_id row') st1)) = (Some (row, svc), st2)"
      using Cons.prems(1) ci unfolding r claim_loop.simps by (auto split: if_splits)
    then show ?thesis using go Cons.prems(2) Q(1) drop by blast
  next
    case False
    then have "claim_loop ce frozen busy rows st = (Some (row, svc), st2) \<or> claim_loop ce frozen busy rows st2' = (Some (row, svc), st2)
      \<or> claim_loop ce frozen busy rows (snd (dropStaleApprovals (ce_now ce) (dep_service row') (dep_id row') st2')) = (Some (row, svc), st2)
      \<or> row = row'"
      using Cons.prems(1) ci ap unfolding r claim_loop.simps by (auto split: if_splits bool.splits)
    then show ?thesis
    proof (elim disjE)
      assume "row = row'"
      then have "Q st \<and> \<not> fst (ce_ci_hold ce (dep_id row) st)" using Cons.prems(2) ci False by simp
      then show ?thesis by blast
    qed (use go Cons.prems(2) Q(2) drop in blast)+
  qed
qed simp

text \<open>Rows that keep their ids and services.\<close>

definition same_rows :: "deploy_store \<Rightarrow> deploy_store \<Rightarrow> bool" where
  "same_rows st s \<longleftrightarrow> dst_db s = dst_db st \<and> dst_freezes s = dst_freezes st
     \<and> (\<forall>d \<in> set (dst_deps s). \<exists>e \<in> set (dst_deps st). dep_id e = dep_id d \<and> dep_service e = dep_service d)"

lemma same_rows_update:
  assumes "same_rows st s" and "\<And>d. dep_id (f d) = dep_id d" and "\<And>d. dep_service (f d) = dep_service d"
  shows "same_rows st (snd (update_deps P f s))"
  using assms by (auto simp: same_rows_def)

lemma gate_hold_rows:
  assumes "same_rows st s"
  shows "same_rows st (snd (gate_hold repo_of now w i s))"
proof -
  have written: "same_rows st (gw_st (snd (write_gate i q f g v)))"
    if "same_rows st (gw_st v)" "\<And>d. dep_id (f d) = dep_id d" "\<And>d. dep_service (f d) = dep_service d" for q f g v
    using same_rows_update [OF that(1), of "\<lambda>d. (f d)\<lparr>dep_ci_gate := True\<rparr>"] that by (simp add: write_gate_def split_beta)
  have github: "same_rows st (gw_st (snd (holdForCiIfNeeded repo_of i now v)))" if "same_rows st (gw_st v)" for v
    unfolding holdForCiIfNeeded_def Let_def by (auto split: option.split intro!: written that)
  have job: "gw_st (snd (runner_job i now v)) = gw_st v" for v
    by (simp add: runner_job_def new_gate_job_def Let_def split_beta split: option.split)
  have row: "same_rows st (gw_st (runner_row i j v))" if "same_rows st (gw_st v)" for j v
    using same_rows_update [OF that] that by (simp add: runner_row_def split_beta)
  have runner: "same_rows st (gw_st (snd (holdForRunnerCiIfNeeded i now v)))" if "same_rows st (gw_st v)" for v
    using job [of v] row that by (auto simp: holdForRunnerCiIfNeeded_def split: prod.splits sum.splits)
  show ?thesis
    using runner [of "w\<lparr>gw_st := s\<rparr>"] github [of "snd (holdForRunnerCiIfNeeded i now (w\<lparr>gw_st := s\<rparr>))"] assms
    by (simp add: gate_hold_def split_beta split: bool.split)
qed

text \<open>What the gates have seen when they let a row through.\<close>

definition github_passed :: "(string \<Rightarrow> string \<Rightarrow> string option) \<Rightarrow> ms \<Rightarrow> int \<Rightarrow> service_row \<Rightarrow> gate_world \<Rightarrow> bool" where
  "github_passed repo_of now i svc w \<longleftrightarrow>
     (case gate_of w i of
        None \<Rightarrow> (case policyLink w svc of None \<Rightarrow> True | Some link \<Rightarrow> gl_workflows link = [])
      | Some g \<Rightarrow> cg_state g = GatePassed \<and> cg_head g = commit_of w i
          \<and> (case cg_checked g of None \<Rightarrow> False | Some t \<Rightarrow> t \<le> now \<and> now - t < FRESH_MS) \<and> gate_context repo_of w g svc = ContextOk)"

lemma gate_context_store:
  assumes "dst_db st = dst_db (gw_st w)"
  shows "gate_context repo_of (w\<lparr>gw_st := st\<rparr>) g svc = gate_context repo_of w g svc"
proof -
  have same: "gw_st (w\<lparr>gw_st := st\<rparr>) = st" "gw_links (w\<lparr>gw_st := st\<rparr>) = gw_links w" "gw_insts (w\<lparr>gw_st := st\<rparr>) = gw_insts w"
    "gw_apps (w\<lparr>gw_st := st\<rparr>) = gw_apps w" "source_of (w\<lparr>gw_st := st\<rparr>) = source_of w"
    by (simp_all add: source_of_def fun_eq_iff)
  show ?thesis unfolding gate_context_def same assms ..
qed

lemma github_lets_through:
  assumes "fst (holdForCiIfNeeded repo_of i now w) = False" and "find_dep (gw_st w) i = Some d"
    and "find_service (dst_db (gw_st w)) (dep_service d) = Some svc"
  shows "github_passed repo_of now i svc w"
  using assms unfolding holdForCiIfNeeded_def github_passed_def Let_def
  by (auto split: option.splits if_splits)

lemma runner_lets_through:
  assumes "holdForRunnerCiIfNeeded i now w = (False, w')"
  shows "w' = w" and "\<exists>d svc. find_dep (gw_st w) i = Some d \<and> find_service (dst_db (gw_st w)) (dep_service d) = Some svc
    \<and> (gatingPipeline w svc = None \<or> (\<exists>job. latestJob i (sy_ct (gw_ci w)) = Some job \<and> passedFor job (commit_of w i) (source_of w (svc_id svc))))"
  using assms
  by (auto simp: holdForRunnerCiIfNeeded_def runner_job_def new_gate_job_def Let_def split_beta
      split: prod.splits sum.splits option.splits if_splits)

text \<open>The row a claim returns was let through, by both gates, with the world the tick began in.\<close>

lemma gates_only_rows: "ci_rows_only (gated_env repo_of w ce)"
proof -
  have "same_rows s (snd (gate_hold repo_of (ce_now ce) w i s))" for i s
    by (rule gate_hold_rows) (auto simp: same_rows_def)
  then show ?thesis by (simp add: ci_rows_only_def gated_env_def same_rows_def)
qed

lemma gates_let_through:
  assumes "\<not> fst (gate_hold repo_of now w i s)" and same: "same_rows st s" and st: "st = gw_st w"
    and dist: "distinct (map dep_id (dst_deps st))"
    and row: "row \<in> set (dst_deps st)" "dep_id row = i" "find_service (dst_db st) (dep_service row) = Some svc"
  shows "github_passed repo_of now i svc w
    \<and> (gatingPipeline w svc = None
       \<or> (\<exists>job. latestJob i (sy_ct (gw_ci w)) = Some job \<and> passedFor job (commit_of w i) (source_of w (svc_id svc))))"
proof -
  let ?v = "w\<lparr>gw_st := s\<rparr>"
  obtain v where v: "holdForRunnerCiIfNeeded i now ?v = (False, v)"
    using assms(1) by (cases "holdForRunnerCiIfNeeded i now ?v") (auto simp: gate_hold_def split: bool.splits prod.splits)
  then have free: "fst (holdForCiIfNeeded repo_of i now ?v) = False"
    using assms(1) runner_lets_through(1) [OF v] by (simp add: gate_hold_def split_beta)
  obtain d svc' where d: "find_dep s i = Some d" "find_service (dst_db s) (dep_service d) = Some svc'"
    "gatingPipeline ?v svc' = None \<or> (\<exists>job. latestJob i (sy_ct (gw_ci ?v)) = Some job
       \<and> passedFor job (commit_of ?v i) (source_of ?v (svc_id svc')))"
    using runner_lets_through(2) [OF v] by auto
  have "d \<in> set (dst_deps s)" "dep_id d = i" using d(1) by (auto simp: find_dep_def find_Some_iff)
  then obtain e where "e \<in> set (dst_deps st)" "dep_id e = i" "dep_service e = dep_service d"
    using same by (auto simp: same_rows_def)
  then have "dep_service d = dep_service row"
    using dist row(1,2) by (metis distinct_map inj_on_def)
  then have svc: "svc' = svc" using d(2) row(3) same by (simp add: same_rows_def)
  have "github_passed repo_of now i svc ?v"
    using github_lets_through [OF free, of d] d(1,2) svc by simp
  moreover have ctx: "gate_context repo_of ?v g svc = gate_context repo_of w g svc" for g
    using same st by (intro gate_context_store) (simp add: same_rows_def)
  moreover have seen: "gate_of ?v = gate_of w" "commit_of ?v = commit_of w" "policyLink ?v = policyLink w"
    "gatingPipeline ?v = gatingPipeline w" "source_of ?v = source_of w" "gw_ci ?v = gw_ci w"
    by (simp_all add: fun_eq_iff gate_of_def commit_of_def policyLink_def gatingPipeline_def source_of_def)
  ultimately show ?thesis
    using d(3) unfolding svc github_passed_def seen ctx by blast
qed

text \<open>
  Claim C18. A deployment the worker claims is past both CI gates. Unless its service requires no workflows, its
  GitHub gate passed at exactly the commit of the row, was checked less than a minute before, and the service, its
  repository, link, installation and app are still those of the gate; and unless no pipeline gates the service (or
  the service it is a preview of), the newest runner job of the deployment succeeded, at exactly its commit
  where the service has sources.
\<close>

theorem claimed_deploy_passed_ci:
  assumes "tick (gated_env repo_of w ce) (gw_st w) = (Some (row, svc), st')"
    and "distinct (map dep_id (dst_deps (gw_st w)))"
  shows "github_passed repo_of (ce_now ce) (dep_id row) svc w
    \<and> (gatingPipeline w svc = None
       \<or> (\<exists>job. latestJob (dep_id row) (sy_ct (gw_ci w)) = Some job \<and> jb_status job = JobSucceeded
            \<and> (\<not> hasSource (source_of w (svc_id svc)) \<or> truthy (jb_commit job) \<and> jb_commit job = commit_of w (dep_id row))))"
proof -
  let ?ce = "gated_env repo_of w ce" and ?st = "gw_st w"
  obtain st1 where n: "nextClaimable ?ce ?st = (Some (row, svc), st1)"
    using assms(1) gates_only_rows by (rule tick_claims)
  note mem = candidates_mem [OF nextClaimable_picked(1) [OF n gates_only_rows]]
  have "\<exists>s. same_rows ?st s \<and> \<not> fst (ce_ci_hold ?ce (dep_id row) s)"
  proof (rule claim_loop_asked [OF n [unfolded nextClaimable_def Let_def]])
    show "same_rows ?st ?st" by (auto simp: same_rows_def)
    show "same_rows ?st (snd (ce_ci_hold ?ce i s))" if "same_rows ?st s" for i s
      using gate_hold_rows [OF that] by (simp add: gated_env_def)
    show "same_rows ?st (snd (dropStaleApprovals (ce_now ?ce) sid i s))" if "same_rows ?st s" for sid i s
      unfolding dropStaleApprovals_def by (rule same_rows_update [OF that]) simp_all
    show "same_rows ?st (snd (holdForApprovalIfNeeded svc row s))" if "same_rows ?st s" for svc row s
      using that by (auto simp: holdForApprovalIfNeeded_def split_beta intro: same_rows_update)
  qed
  then obtain s where "same_rows ?st s" "\<not> fst (gate_hold repo_of (ce_now ce) w (dep_id row) s)"
    by (auto simp: gated_env_def)
  then show ?thesis
    using gates_let_through [OF _ _ refl assms(2) mem(1) refl mem(4)] unfolding passedFor_def by blast
qed

subsection \<open>A run of the gates\<close>

definition sample_sha :: string where
  "sample_sha = replicate 40 (CHR ''a'')"

definition sample_repo :: "string \<Rightarrow> string \<Rightarrow> string option" where
  "sample_repo _ _ = Some ''o/r''"

definition sample_gated :: gate_sys where
  "sample_gated = \<lparr>gx_w = \<lparr>gw_st = lane_store\<lparr>dst_deps := [approved_dep]\<rparr>, gw_commit = [(1, sample_sha)], gw_gate = [],
     gw_source = [(100, \<lparr>so_repo = Some ''o/r'', so_branch = ''main'', so_image = None, so_compose = None, so_upload = False\<rparr>)],
     gw_links = [\<lparr>gl_id = 1, gl_service = 100, gl_inst = 1, gl_repo_id = 7, gl_repo_name = ''o/r'', gl_enabled = True, gl_workflows = [''ci'']\<rparr>],
     gw_insts = [\<lparr>gi_id = 1, gi_app = 1, gi_suspended = False, gi_removed = False\<rparr>], gw_apps = [\<lparr>ga_id = 1, ga_web = ''w''\<rparr>],
     gw_pipelines = [(100, \<lparr>pl_image = ''n'', pl_script = ''s'', pl_labels = [], pl_secrets = [], pl_timeout_minutes = 1, pl_max_attempts = 1,
       pl_require_approval = False, pl_run_on_push = False, pl_gate_deploys = True\<rparr>)],
     gw_ci = \<lparr>sy_ct = \<lparr>ct_runners = [], ct_jobs = [\<lparr>jb_id = 1, jb_service = 100, jb_status = JobSucceeded, jb_commit = Some sample_sha,
       jb_ref = None, jb_image = ''n'', jb_script = ''s'', jb_labels = [], jb_secrets = [], jb_timeout = 1, jb_max = 1, jb_attempts = 1,
       jb_current = Some 1, jb_trigger = ''deploy'', jb_deployment = Some 1, jb_created_by = None, jb_approved_by = None,
       jb_cancelled_by = None, jb_error = None, jb_started = Some 1, jb_finished = Some 2\<rparr>], ct_attempts = [], ct_next_job = 2,
       ct_next_attempt = 2, ct_logs = []\<rparr>, sy_tasks = []\<rparr>\<rparr>, gx_tasks = []\<rparr>"

definition sample_replies :: github_replies where
  "sample_replies = \<lparr>gh_token = True, gh_repo = Some (Some 7), gh_head = None,
     gh_runs = Some (False, [\<lparr>wr_id = 3, wr_attempt = 1, wr_path = ''ci'', wr_sha = sample_sha, wr_event = ''push'',
       wr_status = ''completed'', wr_conclusion = Some ''success''\<rparr>])\<rparr>"

definition run_first :: "gate_sys \<Rightarrow> gate_sys" where
  "run_first s = (case gx_tasks s of [] \<Rightarrow> s
     | t # ys \<Rightarrow> (case run_check sample_repo sample_replies t (gx_w s) of
         (k, w') \<Rightarrow> \<lparr>gx_w = w', gx_tasks = (case k of None \<Rightarrow> [] | Some u \<Rightarrow> [u]) @ ys\<rparr>))"

definition sample_leased :: gate_sys where
  "sample_leased = (let w = snd (holdForCiIfNeeded sample_repo 1 100 (gx_w sample_gated)) in
     case lease_gate (hd (dst_deps (gw_st w))) 100 w w of
       (k, w') \<Rightarrow> \<lparr>gx_w = w', gx_tasks = [] @ (case k of None \<Rightarrow> [] | Some u \<Rightarrow> [u])\<rparr>)"

definition sample_passed :: gate_sys where
  "sample_passed = run_first (run_first (run_first (run_first sample_leased)))"



lemma sample_passed_value:
  "map (\<lambda>d. (dep_id d, dep_status d)) (dst_deps (gw_st (gx_w sample_passed))) = [(1, Queued)]"
  "map_option cg_state (gate_of (gx_w sample_passed) 1) = Some GatePassed"
  "map_option snd (fst (tick (gated_env sample_repo (gx_w sample_passed) (plain_env\<lparr>ce_now := 120\<rparr>)) (gw_st (gx_w sample_passed)))) = Some svc100"
  "gatingPipeline (gx_w sample_passed) svc100 \<noteq> None"
  by code_simp+

lemma sample_row:
  obtains d g where "dst_deps (gw_st (gx_w sample_passed)) = [d]" "dep_id d = 1" "dep_status d = Queued"
    "gate_of (gx_w sample_passed) 1 = Some g" "cg_state g = GatePassed"
proof -
  have deps: "map (\<lambda>d. (dep_id d, dep_status d)) (dst_deps (gw_st (gx_w sample_passed))) = [(1, Queued)]"
    by (rule sample_passed_value(1))
  have gate: "map_option cg_state (gate_of (gx_w sample_passed) 1) = Some GatePassed" by (rule sample_passed_value(2))
  obtain d where d: "dst_deps (gw_st (gx_w sample_passed)) = [d]" "dep_id d = 1" "dep_status d = Queued"
    using deps by (cases "dst_deps (gw_st (gx_w sample_passed))") auto
  obtain g where "gate_of (gx_w sample_passed) 1 = Some g" "cg_state g = GatePassed"
    using gate by (cases "gate_of (gx_w sample_passed) 1") auto
  with d show thesis by (rule that)
qed


theorem claimed_deploy_passed_ci_witness:
  "\<exists>row st' job. tick (gated_env sample_repo (gx_w sample_passed) (plain_env\<lparr>ce_now := 120\<rparr>)) (gw_st (gx_w sample_passed))
       = (Some (row, svc100), st')
     \<and> github_passed sample_repo 120 (dep_id row) svc100 (gx_w sample_passed)
     \<and> latestJob (dep_id row) (sy_ct (gw_ci (gx_w sample_passed))) = Some job \<and> jb_status job = JobSucceeded"
proof -
  let ?w = "gx_w sample_passed"
  obtain d where d: "dst_deps (gw_st ?w) = [d]" by (rule sample_row)
  obtain row svc st' where run: "tick (gated_env sample_repo ?w (plain_env\<lparr>ce_now := 120\<rparr>)) (gw_st ?w) = (Some (row, svc), st')"
    using sample_passed_value(3)
    by (cases "tick (gated_env sample_repo ?w (plain_env\<lparr>ce_now := 120\<rparr>)) (gw_st ?w)";
        cases "fst (tick (gated_env sample_repo ?w (plain_env\<lparr>ce_now := 120\<rparr>)) (gw_st ?w))") auto
  have "svc = svc100" using run sample_passed_value(3) by simp
  then show ?thesis
    using run claimed_deploy_passed_ci [OF run] d sample_passed_value(4) by auto
qed

end
