(* ===== verification/Spec2Isabelle.thy ===== *)
theory Spec2Isabelle
  imports AccessProperties GrantProperties DeployProperties LoginLockout RateLimit Credentials
    ConfigProperties EventBus HookPipeline Registries BuildSlots Glob RestartLimit Autoscale
    LineDiff Totp Slug FrameCipher RelayChannel TrafficCounter FinishSafety EgressGuard IpAllowlist CiProgress CiCommit CiGateProperties
begin

text \<open>
  Ninedeploy: the core of the control panel's server.

  Ninedeploy is a self-hosted deployment panel. Its server (\<open>src/apps/server/src\<close>) is a Fastify
  application over one SQLite database. Requests are authenticated (\<open>modules/auth.ts\<close>,
  \<open>lib/sessions.ts\<close>), authorized against workspaces and grants (\<open>lib/resourceAccess.ts\<close>), and
  change rows; a worker (\<open>plugins/worker.ts\<close>) claims queued deployments and runs them; a plugin
  kernel (\<open>kernel/\<close>) gives built-in and sandboxed plugins events, hooks, configuration and
  drivers. This development models the parts that decide: who may do what, which deployment runs
  when, and what the kernel guarantees to its plugins. Paths below are relative to
  \<open>src/apps/server/src\<close>.

  The parts and where they are.

  \<^item> Prelude: results with errors, the insertion-ordered \<open>Map\<close> and three contracts the components
    share - \<open>keyed_store\<close> (a map of JavaScript), \<open>sliding_window\<close> (recent time stamps),
    \<open>guarded_system\<close> (a step relation with an inductive invariant), of which most state machines below are
    interpretations.

  \<^item> Authorization: AccessModel (tables, roles, membership; \<open>lib/resourceAccess.ts\<close>,
    \<open>lib/errors.ts\<close>), AccessGrants (\<open>lib/accessGrants.ts\<close>: which grants count and what they
    cover), ResourceAccess (loaders, list queries, role resolvers and prehandlers of services,
    projects and databases), AccessSpec (the declarative role of a user, and the locale
    \<open>resource_authority\<close> that a loader, a list and a role resolver of one resource satisfy
    together), AccessProperties.

  \<^item> Access grants over time: GrantHolds (holds, suspension and reinstatement by the identity
    provider, \<open>modules/accessGrants.ts\<close> routes), GrantLifecycle (their step relation and its
    invariant), GrantProperties.

  \<^item> Deployments, up to the claim: ProtectedLanes (\<open>lib/protectedLanes.ts\<close>), HostPrivilege
    (\<open>lib/hostPrivilege.ts\<close>), DeployFreezes (\<open>lib/deployFreeze.ts\<close>), DeployQueue
    (\<open>lib/deployQueue.ts\<close>, review and cancel of \<open>modules/deploys.ts\<close>, selection and claim of
    \<open>plugins/worker.ts\<close>), DeployLemmas, DeployProperties; BuildSlots (\<open>engine/buildSlots.ts\<close>),
    the semaphore of remote builds; Glob (\<open>lib/glob.ts\<close>), the watch paths of webhooks.

  \<^item> Deployments, from the build on: Runs, the shallow language of a handler that awaits - a run is a
    function from the replies of its awaits and a world to an end and a world - with its triples
    and rules; CanaryState (\<open>engine/canaryState.ts\<close>: the registry of running canaries and
    the judgement of a step), CanaryRun (\<open>engine/canary.ts\<close>: a canary release from begin to
    promotion or rollback); DeployFinish (\<open>engine/pipeline.ts\<close>: \<open>runDeployment\<close> from the outcome of
    the build to its last statement, with the leases of \<open>engine/primaryRecovery.ts\<close>),
    FinishFrames (locales for what every other party of the panel may do between two statements),
    FinishProperties, FinishSafety.

  \<^item> CI: CiJobs (\<open>lib/ci.ts\<close>, \<open>modules/ci.ts\<close>, \<open>lib/ciSource.ts\<close>: jobs, attempts and runners),
    CiSteps (their operations as interleaved statements), CiJobsProperties, CiProgress, CiCommit;
    CiGates (\<open>lib/ciGate.ts\<close>, \<open>lib/ciDeployGate.ts\<close>: required GitHub workflows and the job a
    deployment waits for, both plugged into the claim of DeployQueue), CiGateProperties.

  \<^item> Running services: RestartLimit (\<open>lib/restartLimit.ts\<close>), which stops a looping service;
    Autoscale (\<open>lib/autoscaler.ts\<close>, \<open>lib/autoscaleSchedule.ts\<close>), which decides replica counts;
    TrafficCounter (\<open>lib/proxyTrafficCounter.ts\<close>), the measured windows of a canary or a service.

  \<^item> Accounts: LoginLockout (\<open>lib/loginLockout.ts\<close>), RateLimit (\<open>plugins/rateLimit.ts\<close>),
    Credentials (\<open>lib/sessions.ts\<close>, \<open>lib/totpReplay.ts\<close>), Totp (\<open>lib/totp.ts\<close>: base32, HOTP and the
    search for the time step).

  \<^item> Kernel: EventBus, HookPipeline, Registries (services, typed drivers, menu items),
    ConfigCenter and ConfigProperties (\<open>kernel/*.ts\<close> of the same names).

  \<^item> Network: NetAddress (\<open>isIP\<close> of \<open>node:net\<close> and the number a literal stands for), EgressGuard
    (\<open>lib/egressGuard.ts\<close>), IpAllowlist (\<open>lib/ipAllowlist.ts\<close>), FrameCipher
    (\<open>lib/agentFrameCipher.ts\<close>: the encrypted frames between panel and node agent), RelayChannel
    (\<open>lib/studioRelayChannel.ts\<close>: one request and its response over such a socket).

  \<^item> Texts: LineDiff (\<open>lib/diff.ts\<close>), Slug (\<open>lib/slug.ts\<close>).

  How the code is modelled. A table is the list of its rows, in the order a query returns them; a
  \<open>Map\<close> is an association list in insertion order, a \<open>Set\<close> a list without repetition. A handler
  is a function from the state to a result and a new state; a thrown HTTP error is \<open>Inl\<close>. Code
  runs without preemption between two awaits, and SQLite runs a statement or a transaction as one
  step: where a property is about what happens in between, the operation is split at its awaits
  (the PATCH of a grant, enqueueing, the worker's claim, the rotation of a session, every operation
  of the configuration store, the acquire and the pump of the build slots, every operation on CI
  jobs, the check of a GitHub gate) and a step relation interleaves the parts of different callers. The long handlers (a canary release, the finish of a
  deployment) are runs: every await takes a reply from a list, the reply carries what the rest of
  the panel did to the tables, the registry and the proxy before and after the statement, and a run
  whose replies are used up is waiting. Time is an argument, in milliseconds. Ids and counts are
  JavaScript numbers below 2^53 and are unbounded here; no modelled operation approaches that
  bound. Where the code relies on a width it is kept: the 32 bit accumulators of base32, the bytes of
  frames and relayed bodies are machine words, 64 bit frame counters stop at their maximum. The
  bitwise operators of the address code act on numbers below 2^16, where they are those on the
  naturals. Measurements are rationals, strings 8-bit character lists.

  What the lemmas show. Authorization: for each resource the loader, the list query and the role
  resolver accept the same users, the resolved role is the declarative maximum of seats and
  grants, grants only raise it, and a refusal hides whether a row exists. Grants: a grant is
  suspended exactly while an administrator or the identity provider holds it, in every reachable
  state of the atomic routes, and one interleaving of PATCH with a reinstatement that breaks it.
  Queue: a claimed deployment passed every gate, a service has at most one active deployment,
  enqueueing respects host privilege and the queue cap, slots are never oversubscribed and no
  wake-up is lost. Finish: a run that goes live leaves its deployment as the only running one, every run that
  ends has settled its deployment (and the one exception, a row left behind), cancels and stops survive
  every path, and no runtime is stopped while the proxy may still send it traffic. CI jobs: one
  attempt of a job counts, a finished job stays finished, a job created for a commit keeps it, and a
  running job always has someone to move it on - unless its claim is broken in the middle, and then it
  runs for ever. CI gates: a deployment past its GitHub gate passed it at exactly its commit, however polls
  overlap, and a claimed deployment is past both gates. Canary: after a
  failed run no loaded route splits traffic, a completed run judged every step, a run that has not
  ended waits. Accounts: a lock runs its time, spent refresh generations and one-time codes stay
  spent, the accepted time step is the latest that matches. Kernel: events of plugins stay
  contained, hook calls roll back what ran, indexes agree with the service map, the cache of the
  configuration store never shows. Network: an opener accepts a prefix of what the peer sealed and
  no initialisation vector is used twice; two honest relay ends never break the credit window and what
  completes is the body that was sent; a guarded request connects to public addresses only, private
  being what the address denotes and not how it is written; a stored allow list is canonical and
  admits exactly the networks that were named. Autoscaling: the window machine decides as the
  whole log of measurements does. Watch paths: the bounded matcher is the regular expression it
  replaced. Texts: the diff is a minimal patch, slugs are slugs.

  Termination and bounds. Most loops recurse over a list (a page of candidates, the queue of a
  slot, the text of a path). The walk of LineDiff is the \<open>while\<close> combinator, proved to end. The
  polling loop of a canary step takes fuel, one unit per poll; \<open>canary_run_only_waits\<close> shows
  that with more fuel than replies a run that has not ended has used up its replies, so it waits.

  Not modelled. The web client, the command line, the SDKs, the desktop launcher; process and
  container control, builders, the files of the proxy; cryptography and the JSON codec, which are
  parameters with the laws the code relies on; the hand-off and recovery tables the worker consults,
  which are parameters of the claim; what GitHub answers to the CI gates; Swarm and node placement of a finish.
\<close>

end
